(* ===== verification/Prelude.thy ===== *)
theory Prelude
  imports Main "HOL-Library.Word"
begin

text \<open>
  The shared ground of the development: the types every component uses
  (row identifiers, the two clocks, the two ways a request can end), the
  theorem collections that carry the automation, and generic facts on lists
  that more than one component needs.
\<close>

section \<open>Collections\<close>

named_theorems wf_intros \<open>preservation of a component's invariant\<close>
named_theorems frame_simps \<open>fields that an operation leaves alone\<close>

section \<open>Shared types\<close>

text \<open>
  A Postgres \<open>uuid\<close> is a 128-bit value; its order is the order of the bits,
  which is the order of the canonical lower-case text.  A \<open>timestamptz\<close> has
  microsecond resolution, a JavaScript \<open>Date\<close> millisecond resolution.
\<close>

type_synonym uuid = "128 word"
type_synonym pg_time = int
type_synonym js_time = int

text \<open>The driver turns a column value into a \<open>Date\<close>; the digits after the
  millisecond are dropped.\<close>

definition js_date :: "pg_time \<Rightarrow> js_time" where
  "js_date t = t div 1000"

definition pg_of_date :: "js_time \<Rightarrow> pg_time" where
  "pg_of_date d = d * 1000"

lemma js_date_pg_of_date [simp]: "js_date (pg_of_date d) = d"
  by (simp add: js_date_def pg_of_date_def)

lemma js_date_mono: "a \<le> b \<Longrightarrow> js_date a \<le> js_date b"
  by (simp add: js_date_def zdiv_mono1)

lemma pg_of_date_le_iff: "pg_of_date d \<le> t \<longleftrightarrow> d \<le> js_date t"
proof -
  have "t = 1000 * (t div 1000) + t mod 1000" and "0 \<le> t mod 1000" and "t mod 1000 < 1000"
    by simp_all
  then show ?thesis
    unfolding pg_of_date_def js_date_def by linarith
qed

text \<open>A handler either answers with a status and a value or fails with a status
  and the error of its component.\<close>

datatype ('e, 'a) reply = Answer nat 'a | Failure nat 'e

text \<open>\<open>a ?? b\<close> for a value that may be \<open>null\<close> or \<open>undefined\<close>.\<close>

definition or_else :: "'a option \<Rightarrow> 'a \<Rightarrow> 'a" where
  "or_else x d = (case x of Some y \<Rightarrow> y | None \<Rightarrow> d)"

lemma or_else_simps [simp]: "or_else (Some y) d = y" "or_else None d = d"
  by (simp_all add: or_else_def)

section \<open>Lists\<close>

lemma find_SomeD: "find P xs = Some x \<Longrightarrow> x \<in> set xs \<and> P x"
  by (induction xs) (auto split: if_splits)

lemma find_None_iff_all: "find P xs = None \<longleftrightarrow> (\<forall>x\<in>set xs. \<not> P x)"
  by (induction xs) auto

lemma find_ex: "x \<in> set xs \<Longrightarrow> P x \<Longrightarrow> \<exists>y. find P xs = Some y"
  by (induction xs) auto

text \<open>The row a \<open>find\<close> on a list ordered by \<open>R\<close> returns comes before every other
  row that qualifies.\<close>

lemma find_sorted_first:
  assumes "sorted_wrt R xs" and "find P xs = Some x" and "y \<in> set xs" and "P y"
  shows "y = x \<or> R x y"
  using assms by (induction xs) (auto split: if_splits)

lemma filter_cong_map:
  "(\<And>x. x \<in> set xs \<Longrightarrow> P (f x) = P x) \<Longrightarrow> filter P (map f xs) = map f (filter P xs)"
  by (induction xs) auto

lemma sum_list_map_filter_split:
  fixes f :: "'a \<Rightarrow> 'b::comm_monoid_add"
  shows "sum_list (map f xs) =
    sum_list (map f (filter P xs)) + sum_list (map f (filter (\<lambda>x. \<not> P x) xs))"
  by (induction xs) (auto simp: ac_simps)

lemma distinct_map_unique:
  "distinct (map f xs) \<Longrightarrow> x \<in> set xs \<Longrightarrow> y \<in> set xs \<Longrightarrow> f x = f y \<Longrightarrow> x = y"
  by (auto simp: distinct_map dest: inj_onD)

section \<open>Step relations\<close>

text \<open>What every state machine of the development promises: its invariant survives a step.\<close>

locale step_system =
  fixes step :: "'s \<Rightarrow> 's \<Rightarrow> bool" and ok :: "'s \<Rightarrow> bool"
  assumes step_ok: "ok s \<Longrightarrow> step s s' \<Longrightarrow> ok s'"
begin

lemma run_ok: "step\<^sup>*\<^sup>* s s' \<Longrightarrow> ok s \<Longrightarrow> ok s'"
  by (induction rule: rtranclp_induct) (auto intro: step_ok)

text \<open>A relation that holds of every step from a good state, is reflexive and composes,
  holds of every run.\<close>

lemma run_rel:
  assumes "step\<^sup>*\<^sup>* s s'" "ok s" and refl: "R s s"
    and step: "\<And>a b. ok a \<Longrightarrow> step a b \<Longrightarrow> R s a \<Longrightarrow> R s b"
  shows "R s s'"
  using assms(1)
proof (induction rule: rtranclp_induct)
  case (step a b)
  then show ?case using assms(4) run_ok[OF step(1) assms(2)] by blast
qed (rule refl)

end

end
