(* ===== verification/Js_Number.thy ===== *)
theory Js_Number
  imports Prelude Complex_Main
begin

text \<open>
  JavaScript numbers and Postgres \<open>NUMERIC\<close> columns.  A finite \<open>number\<close> is the
  rational it denotes; every arithmetic operation of the source rounds its exact
  result with \<open>fl\<close>, IEEE 754 round-to-nearest-even to 53 bits with gradual
  underflow.  \<open>num_text\<close> is the decimal that \<open>Number::toString\<close> prints (the
  shortest one that reads back), which is what the driver sends to Postgres, and
  \<open>pg_numeric\<close> is the rounding of a \<open>NUMERIC(p, s)\<close> column.
\<close>

section \<open>Binary and decimal exponents\<close>

text \<open>The number of digits of a positive integer in a base.\<close>

function ndigits :: "int \<Rightarrow> int \<Rightarrow> int" where
  "ndigits b n = (if 1 < b \<and> 0 < n then 1 + ndigits b (n div b) else 0)"
  by pat_completeness auto
termination
proof (relation "measure (\<lambda>(b, n). nat n)")
  fix b n :: int
  assume "1 < b \<and> 0 < n"
  then have "n div b < n" by (intro int_div_less_self) auto
  then show "((b, n div b), (b, n)) \<in> measure (\<lambda>(b, n). nat n)"
    using \<open>1 < b \<and> 0 < n\<close> by simp
qed simp

declare ndigits.simps [simp del]

lemma ndigits_bounds:
  assumes "1 < b" "0 < n"
  shows "1 \<le> ndigits b n \<and> b ^ nat (ndigits b n - 1) \<le> n \<and> n < b ^ nat (ndigits b n)"
  using assms
proof (induction b n rule: ndigits.induct)
  case (1 b n)
  let ?m = "n div b" and ?k = "ndigits b (n div b)"
  have k: "ndigits b n = 1 + ?k" using "1.prems" by (simp add: ndigits.simps[of b n])
  have n: "n = b * ?m + n mod b" "0 \<le> n mod b" "n mod b < b" using "1.prems" by simp_all
  show ?case
  proof (cases "0 < ?m")
    case True
    then have IH: "1 \<le> ?k" "b ^ nat (?k - 1) \<le> ?m" "?m < b ^ nat ?k"
      using "1.IH" "1.prems" by auto
    have "b ^ nat ?k = b * b ^ nat (?k - 1)"
      using IH(1) by (metis Suc_nat_eq_nat_zadd1 add.commute diff_add_cancel diff_ge_0_iff_ge power_Suc)
    also have "\<dots> \<le> b * ?m" using IH(2) "1.prems" by simp
    finally have lo: "b ^ nat ?k \<le> n" using n by linarith
    have "b * (?m + 1) \<le> b * b ^ nat ?k" using IH(3) "1.prems" by simp
    moreover have "n < b * (?m + 1)" using n by (simp only: distrib_left mult_1_right)
    ultimately have "n < b * b ^ nat ?k" by linarith
    then show ?thesis using lo IH(1) by (simp add: k nat_add_distrib)
  next
    case False
    then have "?m = 0" using "1.prems" by (simp add: pos_imp_zdiv_nonneg_iff order.antisym)
    then show ?thesis using n "1.prems" by (simp add: k ndigits.simps[of b 0])
  qed
qed

text \<open>The exponent of the leading digit of a positive rational in a base.\<close>

definition ilog :: "int \<Rightarrow> rat \<Rightarrow> int" where
  "ilog b x =
     (let (n, d) = quotient_of x; k = ndigits b n - ndigits b d
      in if of_int b powi k \<le> x then k else k - 1)"

lemma ndigits_rat_bounds:
  assumes "1 < b" "0 < n"
  shows "of_int b powi (ndigits b n - 1) \<le> (of_int n :: rat)"
    and "of_int n < (of_int b :: rat) powi ndigits b n"
proof -
  let ?k = "ndigits b n"
  note * = ndigits_bounds[OF assms]
  have "of_int b powi (?k - 1) = (of_int (b ^ nat (?k - 1)) :: rat)"
    "of_int b powi ?k = (of_int (b ^ nat ?k) :: rat)"
    using * by (auto simp: power_int_def)
  then show "of_int b powi (?k - 1) \<le> (of_int n :: rat)" "of_int n < (of_int b :: rat) powi ?k"
    using * by (simp_all only: of_int_le_iff of_int_less_iff)
qed

lemma ilog_bounds:
  assumes b: "1 < b" and x: "0 < x"
  shows "of_int b powi (ilog b x) \<le> x" and "x < of_int b powi (ilog b x + 1)"
proof -
  obtain n d where q: "quotient_of x = (n, d)" by (cases "quotient_of x")
  have d: "0 < d" using quotient_of_denom_pos[OF q] .
  have xq: "x = of_int n / of_int d" using quotient_of_div[OF q] .
  have n: "0 < n" using x d unfolding xq by (simp add: zero_less_divide_iff)
  let ?B = "of_int b :: rat" and ?l = "ndigits b n" and ?m = "ndigits b d"
  have B: "1 < ?B" using b by simp
  note nb = ndigits_rat_bounds[OF b n] and db = ndigits_rat_bounds[OF b d]
  have "?B powi (?l - ?m - 1) = ?B powi (?l - 1) / ?B powi ?m"
    using B by (subst power_int_diff[symmetric]) (auto simp: algebra_simps)
  also have "\<dots> < of_int n / of_int d"
    using nb db d n B by (intro frac_less2) auto
  finally have lo: "?B powi (?l - ?m - 1) < x" unfolding xq .
  have "x < ?B powi ?l / ?B powi (?m - 1)"
    unfolding xq using nb db d n B by (intro frac_less) auto
  also have "\<dots> = ?B powi (?l - ?m + 1)"
    using B by (subst power_int_diff[symmetric]) (auto simp: algebra_simps)
  finally have hi: "x < ?B powi (?l - ?m + 1)" .
  show "?B powi (ilog b x) \<le> x" "x < ?B powi (ilog b x + 1)"
    using lo hi by (auto simp: ilog_def q Let_def)
qed

section \<open>Rounding to a double\<close>

text \<open>Round to the nearest integer, a tie to the even one.\<close>

definition round_even :: "rat \<Rightarrow> int" where
  "round_even x =
     (let f = \<lfloor>x\<rfloor>; d = x - of_int f
      in if d < 1/2 then f else if 1/2 < d then f + 1 else if even f then f else f + 1)"

definition quantum :: "rat \<Rightarrow> int" where
  "quantum x = max (ilog 2 \<bar>x\<bar> - 52) (-1074)"

definition fl :: "rat \<Rightarrow> rat" where
  "fl x = (if x = 0 then 0
           else of_int (round_even (x / 2 powi quantum x)) * 2 powi quantum x)"

abbreviation is_double :: "rat \<Rightarrow> bool" where
  "is_double x \<equiv> fl x = x"

lemma round_even_of_int [simp]: "round_even (of_int n) = n"
  by (simp add: round_even_def)

lemma round_even_0 [simp]: "round_even 0 = 0"
  using round_even_of_int[of 0] by (simp del: round_even_of_int)

lemma round_even_err: "\<bar>of_int (round_even x) - x\<bar> \<le> 1/2"
proof -
  have "of_int \<lfloor>x\<rfloor> \<le> x" "x < of_int \<lfloor>x\<rfloor> + 1" by linarith+
  then show ?thesis by (auto simp: round_even_def Let_def abs_le_iff)
qed

lemma round_even_le_of_int: "x \<le> of_int m \<Longrightarrow> round_even x \<le> m"
proof -
  assume "x \<le> of_int m"
  then have "of_int (round_even x) < (of_int (m + 1) :: rat)"
    using round_even_err[of x] unfolding abs_le_iff by (auto simp: field_simps)
  then show ?thesis by simp
qed

lemma of_int_le_round_even: "of_int m \<le> x \<Longrightarrow> m \<le> round_even x"
proof -
  assume "of_int m \<le> x"
  then have "(of_int m :: rat) < of_int (round_even x + 1)"
    using round_even_err[of x] unfolding abs_le_iff by (auto simp: field_simps)
  then show ?thesis by simp
qed

lemma round_even_mono:
  assumes "x \<le> y" shows "round_even x \<le> round_even y"
proof (cases "\<lfloor>x\<rfloor> = \<lfloor>y\<rfloor>")
  case True
  then show ?thesis using assms by (auto simp: round_even_def Let_def)
next
  case False
  then have less: "\<lfloor>x\<rfloor> + 1 \<le> \<lfloor>y\<rfloor>" using assms floor_mono[of x y] by linarith
  have "x \<le> of_int (\<lfloor>x\<rfloor> + 1)" by linarith
  then have "round_even x \<le> \<lfloor>x\<rfloor> + 1" by (rule round_even_le_of_int)
  moreover have "\<lfloor>y\<rfloor> \<le> round_even y" by (rule of_int_le_round_even) simp
  ultimately show ?thesis using less by linarith
qed

lemma round_even_minus: "round_even (- x) = - round_even x"
proof (cases "x = of_int \<lfloor>x\<rfloor>")
  case True
  then have "round_even x = \<lfloor>x\<rfloor>" "round_even (- x) = - \<lfloor>x\<rfloor>"
    by (metis round_even_of_int, metis of_int_minus round_even_of_int)
  then show ?thesis by simp
next
  case False
  have f: "\<lfloor>- x\<rfloor> = - \<lfloor>x\<rfloor> - 1" using False by linarith
  show ?thesis unfolding round_even_def Let_def f by (auto simp: algebra_simps)
qed

lemma fl_0 [simp]: "fl 0 = 0"
  by (simp add: fl_def)

lemma fl_minus: "fl (- x) = - fl x"
  by (simp add: fl_def quantum_def round_even_minus)

text \<open>A multiple of a power of two with at most 53 significant bits is a double.\<close>

lemma ilog_le:
  assumes "1 < b" "0 < x" "x < of_int b powi (k + 1)" shows "ilog b x \<le> k"
proof (rule ccontr)
  assume "\<not> ilog b x \<le> k"
  then have "of_int b powi (k + 1) \<le> (of_int b :: rat) powi ilog b x"
    using assms(1) by (intro power_int_increasing) auto
  also have "\<dots> \<le> x" using ilog_bounds(1)[OF assms(1,2)] .
  finally show False using assms(3) by simp
qed

lemma ilog_ge:
  assumes "1 < b" "0 < x" "of_int b powi k \<le> x" shows "k \<le> ilog b x"
proof (rule ccontr)
  assume "\<not> k \<le> ilog b x"
  then have "(of_int b :: rat) powi (ilog b x + 1) \<le> of_int b powi k"
    using assms(1) by (intro power_int_increasing) auto
  also have "\<dots> \<le> x" using assms(3) .
  finally show False using ilog_bounds(2)[OF assms(1,2)] by simp
qed

lemma powi_split: "(2::rat) powi (a + int n) = 2 powi a * 2 ^ n"
  by (simp add: power_int_add)

lemma fl_exact_aux:
  assumes n: "\<bar>n\<bar> < 2 ^ 53" and q: "-1074 \<le> q"
  shows "is_double (of_int n * 2 powi q)"
proof (cases "n = 0")
  case False
  let ?y = "of_int n * 2 powi q :: rat"
  have y: "?y \<noteq> 0" using False by simp
  have abs: "\<bar>?y\<bar> = of_int \<bar>n\<bar> * 2 powi q" by (simp add: abs_mult power_int_abs)
  have "of_int \<bar>n\<bar> < (2::rat) ^ 53"
    using n by (metis of_int_less_iff of_int_numeral of_int_power)
  then have "\<bar>?y\<bar> < 2 powi (q + 53)"
    unfolding abs using powi_split[of q 53] by simp
  then have "ilog 2 \<bar>?y\<bar> \<le> q + 52"
    using y by (intro ilog_le) (auto simp: add.assoc)
  then have le: "quantum ?y \<le> q" using q by (simp add: quantum_def)
  have split: "(2::rat) powi q = 2 ^ nat (q - quantum ?y) * 2 powi quantum ?y"
    using le powi_split[of "quantum ?y" "nat (q - quantum ?y)"] by (simp add: mult.commute)
  have "?y / 2 powi quantum ?y = of_int (n * 2 ^ nat (q - quantum ?y))"
    using split by (simp add: divide_eq_eq mult.assoc)
  then show ?thesis
    using y split by (simp add: fl_def mult.assoc del: of_int_mult) (simp add: mult.assoc)
qed simp

lemma fl_exact:
  assumes n: "\<bar>n\<bar> \<le> 2 ^ 53" and q: "-1074 \<le> q"
  shows "is_double (of_int n * 2 powi q)"
proof (cases "\<bar>n\<bar> = 2 ^ 53")
  case True
  then have "n = 2 ^ 53 \<or> n = - (2 ^ 53)" by (simp add: abs_if split: if_splits)
  then have "n = n div 2 * 2" by auto
  then have "of_int n = (of_int (n div 2) * 2 :: rat)"
    by (metis of_int_mult of_int_numeral)
  then have "of_int n * 2 powi q = (of_int (n div 2) * 2 powi (q + 1) :: rat)"
    by (simp add: power_int_add)
  moreover have "\<bar>n div 2\<bar> < 2 ^ 53" using True by (auto simp: abs_if split: if_splits)
  ultimately show ?thesis using fl_exact_aux[of "n div 2" "q + 1"] q by simp
next
  case False
  then show ?thesis using n q by (intro fl_exact_aux) auto
qed

lemma fl_of_int: "\<bar>n\<bar> \<le> 2 ^ 53 \<Longrightarrow> is_double (of_int n)"
  using fl_exact[of n 0] by simp

lemma fl_powi: "-1074 \<le> q \<Longrightarrow> is_double (2 powi q)"
  using fl_exact[of 1 q] by simp

section \<open>Rounding is monotone, and close\<close>

lemma fl_pos_form:
  assumes "0 < x"
  shows "fl x = of_int (round_even (x / 2 powi quantum x)) * 2 powi quantum x"
  using assms by (simp add: fl_def)

lemma fl_nonneg: "0 \<le> x \<Longrightarrow> 0 \<le> fl x"
  using of_int_le_round_even[of 0 "x / 2 powi quantum x"] by (auto simp: fl_def)

text \<open>Rounding never crosses a multiple of the quantum.\<close>

lemma fl_le_multiple:
  assumes "0 < x" "x \<le> of_int m * 2 powi quantum x"
  shows "fl x \<le> of_int m * 2 powi quantum x"
  using assms round_even_le_of_int[of "x / 2 powi quantum x" m]
  by (simp add: fl_pos_form divide_le_eq)

lemma multiple_le_fl:
  assumes "0 < x" "of_int m * 2 powi quantum x \<le> x"
  shows "of_int m * 2 powi quantum x \<le> fl x"
  using assms of_int_le_round_even[of m "x / 2 powi quantum x"]
  by (simp add: fl_pos_form le_divide_eq)

lemma fl_le_powi:
  assumes "0 < x" "x \<le> 2 powi k" "quantum x \<le> k" shows "fl x \<le> 2 powi k"
proof -
  have "(2::rat) powi k = of_int (2 ^ nat (k - quantum x)) * 2 powi quantum x"
    using powi_split[of "quantum x" "nat (k - quantum x)"] assms(3) by (simp add: mult.commute)
  then show ?thesis using fl_le_multiple[OF assms(1)] assms(2) by metis
qed

lemma powi_le_fl:
  assumes "0 < x" "2 powi k \<le> x" "quantum x \<le> k" shows "2 powi k \<le> fl x"
proof -
  have "(2::rat) powi k = of_int (2 ^ nat (k - quantum x)) * 2 powi quantum x"
    using powi_split[of "quantum x" "nat (k - quantum x)"] assms(3) by (simp add: mult.commute)
  then show ?thesis using multiple_le_fl[OF assms(1)] assms(2) by metis
qed

lemma fl_mono_pos:
  assumes "0 < x" "x \<le> y" shows "fl x \<le> fl y"
proof -
  have y: "0 < y" using assms by simp
  have bx: "x < 2 powi (ilog 2 x + 1)" using ilog_bounds(2)[of 2 x] assms by simp
  have by': "2 powi (ilog 2 y) \<le> y" using ilog_bounds(1)[of 2 y] y by simp
  have le: "ilog 2 x \<le> ilog 2 y"
    using ilog_bounds(2)[of 2 y] assms y by (intro ilog_le) auto
  show ?thesis
  proof (cases "quantum x = quantum y")
    case True
    have "round_even (x / 2 powi quantum y) \<le> round_even (y / 2 powi quantum y)"
      using assms by (intro round_even_mono divide_right_mono) auto
    then show ?thesis using True assms(1) y by (simp add: fl_pos_form)
  next
    case False
    then have lt: "ilog 2 x + 1 \<le> ilog 2 y" and qy: "quantum y = ilog 2 y - 52"
      using le assms y by (auto simp: quantum_def)
    have "fl x \<le> 2 powi (ilog 2 y)"
    proof (rule fl_le_powi)
      have "(2::rat) powi (ilog 2 x + 1) \<le> 2 powi (ilog 2 y)"
        using lt by (intro power_int_increasing) auto
      then show "x \<le> 2 powi (ilog 2 y)" using bx by linarith
      show "quantum x \<le> ilog 2 y" using lt qy assms y by (auto simp: quantum_def)
    qed (rule assms)
    also have "\<dots> \<le> fl y" using by' y qy by (intro powi_le_fl) auto
    finally show ?thesis .
  qed
qed

lemma fl_mono: "x \<le> y \<Longrightarrow> fl x \<le> fl y"
proof -
  assume le: "x \<le> y"
  consider "0 < x" | "x \<le> 0" "0 \<le> y" | "y < 0" using le by linarith
  then show ?thesis
  proof cases
    case 1 then show ?thesis using le by (rule fl_mono_pos)
  next
    case 2
    have "fl x \<le> 0" using fl_nonneg[of "- x"] 2 by (simp add: fl_minus)
    then show ?thesis using fl_nonneg[of y] 2 by simp
  next
    case 3
    then show ?thesis using fl_mono_pos[of "- y" "- x"] le by (simp add: fl_minus)
  qed
qed

lemma fl_le_double: "x \<le> d \<Longrightarrow> is_double d \<Longrightarrow> fl x \<le> d"
  using fl_mono[of x d] by simp

lemma double_le_fl: "d \<le> x \<Longrightarrow> is_double d \<Longrightarrow> d \<le> fl x"
  using fl_mono[of d x] by simp

lemma fl_err: "\<bar>fl x - x\<bar> \<le> 2 powi (quantum x - 1)"
proof (cases "x = 0")
  case False
  let ?p = "2 powi quantum x :: rat"
  have "\<bar>fl x - x\<bar> = \<bar>of_int (round_even (x / ?p)) - x / ?p\<bar> * ?p"
    using False by (subst abs_mult_pos) (simp_all add: fl_def left_diff_distrib)
  also have "\<dots> \<le> 1/2 * ?p" by (intro mult_right_mono round_even_err) simp
  finally show ?thesis by (simp add: power_int_diff)
qed simp

lemma fl_double_pos:
  assumes "0 < x" shows "is_double (fl x)"
proof -
  let ?q = "quantum x"
  have "x < 2 powi (ilog 2 x + 1)" using ilog_bounds(2)[of 2 x] assms by simp
  also have "\<dots> \<le> 2 powi (?q + int 53)"
    using assms by (intro power_int_increasing) (auto simp: quantum_def)
  finally have "x / 2 powi ?q \<le> of_int (2 ^ 53)"
    unfolding powi_split by (simp add: divide_le_eq mult.commute)
  then have "round_even (x / 2 powi ?q) \<le> 2 ^ 53" by (rule round_even_le_of_int)
  moreover have "0 \<le> round_even (x / 2 powi ?q)"
    using assms of_int_le_round_even[of 0 "x / 2 powi ?q"] by simp
  ultimately show ?thesis
    unfolding fl_pos_form[OF assms] by (intro fl_exact) (auto simp: quantum_def)
qed

lemma fl_double [simp]: "is_double (fl x)"
  using fl_double_pos[of x] fl_double_pos[of "- x"] fl_minus[of "fl (- x)"]
  by (cases x "0 :: rat" rule: linorder_cases) (auto simp: fl_minus)

text \<open>Away from the subnormals the relative error is at most one part in \<open>2^53\<close>.\<close>

lemma fl_rel_err_pos:
  assumes "2 powi (-1022) \<le> x" shows "\<bar>fl x - x\<bar> \<le> x * 2 powi (-53)"
proof -
  have x: "0 < x" using assms by (rule less_le_trans[rotated]) simp
  have "-1022 \<le> ilog 2 x" using assms x by (intro ilog_ge) auto
  then have q: "quantum x = ilog 2 x - 52" using x by (simp add: quantum_def)
  have "\<bar>fl x - x\<bar> \<le> 2 powi (ilog 2 x + (-53))" using fl_err[of x] by (simp add: q)
  also have "\<dots> = 2 powi (ilog 2 x) * 2 powi (-53)" by (subst power_int_add) auto
  also have "\<dots> \<le> x * 2 powi (-53)"
    using ilog_bounds(1)[of 2 x] x by (intro mult_right_mono) auto
  finally show ?thesis .
qed

section \<open>The operations of the source\<close>

definition js_add :: "rat \<Rightarrow> rat \<Rightarrow> rat" where "js_add a b = fl (a + b)"
definition js_sub :: "rat \<Rightarrow> rat \<Rightarrow> rat" where "js_sub a b = fl (a - b)"
definition js_mul :: "rat \<Rightarrow> rat \<Rightarrow> rat" where "js_mul a b = fl (a * b)"
definition js_div :: "rat \<Rightarrow> rat \<Rightarrow> rat" where "js_div a b = fl (a / b)"

text \<open>\<open>Math.round\<close>: the nearest integer, a tie upwards; \<open>Math.trunc\<close> towards zero.\<close>

definition js_round :: "rat \<Rightarrow> rat" where "js_round x = of_int \<lfloor>x + 1/2\<rfloor>"
definition js_trunc :: "rat \<Rightarrow> int" where "js_trunc x = (if 0 \<le> x then \<lfloor>x\<rfloor> else \<lceil>x\<rceil>)"

lemma js_add_nonneg: "0 \<le> a \<Longrightarrow> 0 \<le> b \<Longrightarrow> 0 \<le> js_add a b"
  by (simp add: js_add_def fl_nonneg)

lemma js_mul_nonneg: "0 \<le> a \<Longrightarrow> 0 \<le> b \<Longrightarrow> 0 \<le> js_mul a b"
  by (simp add: js_mul_def fl_nonneg)

lemma js_div_nonneg: "0 \<le> a \<Longrightarrow> 0 \<le> b \<Longrightarrow> 0 \<le> js_div a b"
  by (simp add: js_div_def fl_nonneg)

lemma js_add_mono: "a \<le> a' \<Longrightarrow> b \<le> b' \<Longrightarrow> js_add a b \<le> js_add a' b'"
  by (simp add: js_add_def fl_mono add_mono)

lemma js_mul_mono: "a \<le> a' \<Longrightarrow> b \<le> b' \<Longrightarrow> 0 \<le> a' \<Longrightarrow> 0 \<le> b \<Longrightarrow> js_mul a b \<le> js_mul a' b'"
  by (simp add: js_mul_def fl_mono mult_mono)

lemma js_div_mono: "a \<le> a' \<Longrightarrow> 0 < b \<Longrightarrow> js_div a b \<le> js_div a' b"
  by (simp add: js_div_def fl_mono divide_right_mono)

lemma js_ops_0 [simp]:
  "js_mul 0 b = 0" "js_mul a 0 = 0" "js_add 0 0 = 0" "js_div 0 b = 0"
  by (simp_all add: js_mul_def js_add_def js_div_def)

text \<open>A number that may also be \<open>NaN\<close> or an infinity: what parsing text or JSON
  gives.  \<open>to_num\<close> is the literal's value, too large a one becoming \<open>Infinity\<close>.\<close>

datatype js_num = NaN | Infinity bool | Fin rat

definition to_num :: "rat \<Rightarrow> js_num" where
  "to_num x = (if \<bar>fl x\<bar> < 2 ^ 1024 then Fin (fl x) else Infinity (x < 0))"

lemma to_num_small: "\<bar>n\<bar> \<le> 2 ^ 53 \<Longrightarrow> to_num (of_int n) = Fin (of_int n)"
proof -
  assume n: "\<bar>n\<bar> \<le> 2 ^ 53"
  have "\<bar>of_int n :: rat\<bar> \<le> 2 ^ 53"
    using n by (metis of_int_abs of_int_le_iff of_int_numeral of_int_power)
  also have "(2::rat) ^ 53 < 2 ^ 1024" by (intro power_strict_increasing) auto
  finally show ?thesis using fl_of_int[OF n] by (simp add: to_num_def)
qed

definition is_finite :: "js_num \<Rightarrow> bool" where
  "is_finite n = (case n of Fin _ \<Rightarrow> True | _ \<Rightarrow> False)"

section \<open>Decimal text of a number, and NUMERIC columns\<close>

text \<open>The two decimals with \<open>n\<close> significant digits around a positive number, the
  nearer first.\<close>

definition decimals_around :: "rat \<Rightarrow> nat \<Rightarrow> rat list" where
  "decimals_around x n =
     (let s = 10 powi (ilog 10 x - int n + 1);
          lo = of_int \<lfloor>x / s\<rfloor> * s;
          hi = of_int (\<lfloor>x / s\<rfloor> + 1) * s
      in if x - lo \<le> hi - x then [lo, hi] else [hi, lo])"

text \<open>\<open>Number::toString\<close>: the fewest digits that read back as the same double.\<close>

definition num_text_pos :: "rat \<Rightarrow> rat" where
  "num_text_pos x =
     (case find (\<lambda>d. fl d = x) (concat (map (decimals_around x) [1..<18])) of
        Some d \<Rightarrow> d | None \<Rightarrow> x)"

definition num_text :: "rat \<Rightarrow> rat" where
  "num_text x = (if x = 0 then 0 else if 0 < x then num_text_pos x else - num_text_pos (- x))"

lemma fl_num_text_pos: "is_double x \<Longrightarrow> fl (num_text_pos x) = x"
  by (auto simp: num_text_pos_def split: option.splits dest: find_SomeD)

text \<open>The text of a double reads back as that double.\<close>

lemma fl_num_text: "is_double x \<Longrightarrow> fl (num_text x) = x"
  using fl_num_text_pos[of x] fl_num_text_pos[of "- x"]
  by (auto simp: num_text_def fl_minus)

lemma num_text_0 [simp]: "num_text 0 = 0"
  by (simp add: num_text_def)

lemma num_text_nonneg:
  assumes "is_double x" "0 \<le> x" shows "0 \<le> num_text x"
proof (rule ccontr)
  assume "\<not> 0 \<le> num_text x"
  then have "fl (num_text x) \<le> 0" using fl_mono[of "num_text x" 0] by simp
  then have "x = 0" using assms fl_num_text[of x] by simp
  then show False using \<open>\<not> 0 \<le> num_text x\<close> by simp
qed

lemma num_text_mono:
  assumes "is_double x" "is_double y" "x \<le> y" shows "num_text x \<le> num_text y"
proof (rule ccontr)
  assume *: "\<not> num_text x \<le> num_text y"
  then have "y \<le> x" using fl_mono[of "num_text y" "num_text x"] assms by (simp add: fl_num_text)
  then show False using * assms by simp
qed

text \<open>\<open>NUMERIC(p, s)\<close>: round half away from zero at \<open>s\<close> digits; a value that needs
  more than \<open>p - s\<close> integer digits is an error (\<open>None\<close>).\<close>

definition numeric_round :: "nat \<Rightarrow> rat \<Rightarrow> rat" where
  "numeric_round s x =
     (if 0 \<le> x then of_int \<lfloor>x * 10 ^ s + 1/2\<rfloor> / 10 ^ s else - (of_int \<lfloor>- x * 10 ^ s + 1/2\<rfloor> / 10 ^ s))"

definition pg_numeric :: "nat \<Rightarrow> nat \<Rightarrow> rat \<Rightarrow> rat option" where
  "pg_numeric p s x =
     (let r = numeric_round s x in if \<bar>r\<bar> < 10 ^ (p - s) then Some r else None)"

lemma numeric_round_0 [simp]: "numeric_round s 0 = 0"
  by (simp add: numeric_round_def floor_eq_iff)

lemma numeric_round_nonneg: "0 \<le> x \<Longrightarrow> 0 \<le> numeric_round s x"
  by (simp add: numeric_round_def floor_eq_iff)

lemma numeric_round_mono: "0 \<le> x \<Longrightarrow> x \<le> y \<Longrightarrow> numeric_round s x \<le> numeric_round s y"
  by (auto simp: numeric_round_def intro!: divide_right_mono floor_mono mult_right_mono)

lemma pg_numeric_nonneg: "pg_numeric p s x = Some r \<Longrightarrow> 0 \<le> x \<Longrightarrow> 0 \<le> r"
  by (auto simp: pg_numeric_def Let_def numeric_round_nonneg split: if_splits)

end
