(* ===== verification/Js_Value.thy ===== *)
theory Js_Value
  imports Js_Number
begin

text \<open>
  JavaScript strings and JSON values as the source uses them.  A string is the
  list of its code units; the model covers units up to \<open>U+00FF\<close>, which is what
  \<open>char\<close> holds and what an HTTP header can carry.  The second half is the text form
  of a \<open>uuid\<close> and the JSON documents that request bodies and tokens carry.
\<close>

section \<open>Strings\<close>

definition js_space :: "char \<Rightarrow> bool" where
  "js_space c = (let n = of_char c :: nat in (9 \<le> n \<and> n \<le> 13) \<or> n = 32 \<or> n = 160)"

definition trim_start :: "string \<Rightarrow> string" where
  "trim_start s = dropWhile js_space s"

definition js_trim :: "string \<Rightarrow> string" where
  "js_trim s = rev (dropWhile js_space (rev (trim_start s)))"

definition lower_char :: "char \<Rightarrow> char" where
  "lower_char c =
     (let n = of_char c :: nat
      in if (65 \<le> n \<and> n \<le> 90) \<or> (192 \<le> n \<and> n \<le> 222 \<and> n \<noteq> 215) then char_of (n + 32) else c)"

definition to_lower :: "string \<Rightarrow> string" where
  "to_lower s = map lower_char s"

definition starts_with :: "string \<Rightarrow> string \<Rightarrow> bool" where
  "starts_with p s = (take (length p) s = p)"

definition slice :: "nat \<Rightarrow> nat \<Rightarrow> string \<Rightarrow> string" where
  "slice i j s = take (j - i) (drop i s)"

fun split_on :: "char \<Rightarrow> string \<Rightarrow> string list" where
  "split_on c [] = [[]]"
| "split_on c (x # xs) =
     (if x = c then [] # split_on c xs
      else (case split_on c xs of [] \<Rightarrow> [[x]] | p # ps \<Rightarrow> (x # p) # ps))"

definition pad_start :: "nat \<Rightarrow> char \<Rightarrow> string \<Rightarrow> string" where
  "pad_start n c s = replicate (n - length s) c @ s"

definition remove_all :: "char \<Rightarrow> string \<Rightarrow> string" where
  "remove_all c s = filter (\<lambda>x. x \<noteq> c) s"

definition remove_first :: "char \<Rightarrow> string \<Rightarrow> string" where
  "remove_first c s = remove1 c s"

definition ends_with :: "string \<Rightarrow> string \<Rightarrow> bool" where
  "ends_with p s \<longleftrightarrow> length p \<le> length s \<and> drop (length s - length p) s = p"

fun join_with :: "string \<Rightarrow> string list \<Rightarrow> string" where
  "join_with sep [] = []"
| "join_with sep [s] = s"
| "join_with sep (s # t # ts) = s @ sep @ join_with sep (t # ts)"

fun contains :: "string \<Rightarrow> string \<Rightarrow> bool" where
  "contains p [] = (p = [])"
| "contains p (c # s) = (starts_with p (c # s) \<or> contains p s)"

lemma js_trim_Nil [simp]: "js_trim [] = []"
  by (simp add: js_trim_def trim_start_def)

lemma split_on_nonempty: "split_on c s \<noteq> []"
  by (cases s) (auto split: list.splits)

lemma length_split_on: "length (split_on c s) = Suc (count_list s c)"
  by (induction s) (auto split: list.splits simp: split_on_nonempty)

section \<open>Hexadecimal text\<close>

definition hex_char :: "nat \<Rightarrow> char" where
  "hex_char n = (''0123456789abcdef'' ! n)"

definition hex_val :: "char \<Rightarrow> nat option" where
  "hex_val c =
     (let n = of_char c :: nat
      in if 48 \<le> n \<and> n \<le> 57 then Some (n - 48)
         else if 97 \<le> n \<and> n \<le> 102 then Some (n - 87)
         else if 65 \<le> n \<and> n \<le> 70 then Some (n - 55)
         else None)"

lemma less_16_cases:
  "(n::nat) < 16 \<Longrightarrow> n \<in> {0,1,2,3,4,5,6,7,8,9,10,11,12,13,14,15}"
  by (auto simp: numeral_eq_Suc less_Suc_eq)

lemma hex_val_hex_char [simp]: "n < 16 \<Longrightarrow> hex_val (hex_char n) = Some n"
  by (drule less_16_cases) (auto simp: hex_val_def hex_char_def)

lemma hex_char_neq_dash [simp]: "n < 16 \<Longrightarrow> hex_char n \<noteq> CHR ''-''"
  by (drule less_16_cases) (auto simp: hex_char_def)

text \<open>\<open>toString(16)\<close> of a non-negative integer, and its last \<open>n\<close> digits.\<close>

fun to_hex :: "nat \<Rightarrow> string" where
  "to_hex v = (if v < 16 then [hex_char v] else to_hex (v div 16) @ [hex_char (v mod 16)])"

declare to_hex.simps [simp del]

fun hex_digits :: "nat \<Rightarrow> nat \<Rightarrow> string" where
  "hex_digits 0 v = []"
| "hex_digits (Suc n) v = hex_digits n (v div 16) @ [hex_char (v mod 16)]"

definition hex_value :: "string \<Rightarrow> nat" where
  "hex_value s = foldl (\<lambda>a c. a * 16 + or_else (hex_val c) 0) 0 s"

lemma length_hex_digits [simp]: "length (hex_digits n v) = n"
  by (induction n arbitrary: v) auto

lemma set_hex_digits: "c \<in> set (hex_digits n v) \<Longrightarrow> \<exists>d<16. c = hex_char d"
proof (induction n arbitrary: v)
  case (Suc n)
  have "\<exists>d<16. hex_char (v mod 16) = hex_char d" by (rule exI[of _ "v mod 16"]) simp
  then show ?case using Suc.IH[of "v div 16"] Suc.prems by auto
qed simp

lemma hex_digits_no_dash [simp]: "CHR ''-'' \<notin> set (hex_digits n v)"
  using set_hex_digits[of "CHR ''-''" n v] hex_char_neq_dash by metis

lemma remove_all_hex_digits [simp]: "remove_all CHR ''-'' (hex_digits n v) = hex_digits n v"
  by (auto simp: remove_all_def intro!: filter_True dest!: set_hex_digits)

lemma remove_all_append [simp]: "remove_all c (s @ t) = remove_all c s @ remove_all c t"
  by (simp add: remove_all_def)

lemma hex_value_hex_digits: "hex_value (hex_digits n v) = v mod 16 ^ n"
proof (induction n arbitrary: v)
  case (Suc n)
  have "hex_value (hex_digits (Suc n) v) = (v div 16) mod 16 ^ n * 16 + v mod 16"
    using Suc[of "v div 16"] by (simp add: hex_value_def)
  also have "\<dots> = v mod (16 * 16 ^ n)" by (simp add: mod_mult2_eq)
  finally show ?case by simp
qed (simp add: hex_value_def)

lemma take_hex_digits: "k \<le> n \<Longrightarrow> take k (hex_digits n v) = hex_digits k (v div 16 ^ (n - k))"
proof (induction n arbitrary: v)
  case (Suc n)
  show ?case
  proof (cases "k = Suc n")
    case False
    then have "k \<le> n" using Suc.prems by simp
    then show ?thesis using Suc.IH[of "v div 16"]
      by (simp add: Suc_diff_le div_mult2_eq)
  qed simp
qed simp

lemma drop_hex_digits: "k \<le> n \<Longrightarrow> drop k (hex_digits n v) = hex_digits (n - k) v"
proof (induction n arbitrary: v)
  case (Suc n)
  then show ?case
    by (cases "k = Suc n") (auto simp: Suc_diff_le)
qed simp

lemma slice_hex_digits:
  "i \<le> j \<Longrightarrow> j \<le> n \<Longrightarrow> slice i j (hex_digits n v) = hex_digits (j - i) (v div 16 ^ (n - j))"
  by (simp add: slice_def drop_hex_digits take_hex_digits)

lemma hex_digits_append: "hex_digits (m + n) v = hex_digits m (v div 16 ^ n) @ hex_digits n v"
  by (metis add_diff_cancel_left' append_take_drop_id diff_add_inverse2 drop_hex_digits
      le_add1 take_hex_digits)

lemma hex_digits_zeros: "v < 16 \<Longrightarrow> hex_digits (Suc n) v = replicate n (CHR ''0'') @ [hex_char v]"
  by (induction n) (auto simp: hex_char_def replicate_append_same)

text \<open>Padding the shortest text to a width that holds the value gives the digits.\<close>

lemma length_to_hex: "v < 16 ^ n \<Longrightarrow> 0 < n \<Longrightarrow> length (to_hex v) \<le> n"
proof (induction v arbitrary: n rule: to_hex.induct)
  case (1 v)
  show ?case
  proof (cases "v < 16")
    case True then show ?thesis using "1.prems" by (simp add: to_hex.simps)
  next
    case False
    then obtain m where n: "n = Suc m" "0 < m" using "1.prems" by (cases n; cases "n - 1") auto
    have "v div 16 < 16 ^ m" using "1.prems" n by (simp add: less_mult_imp_div_less mult.commute)
    then show ?thesis using "1.IH" False n by (subst to_hex.simps) simp
  qed
qed

lemma pad_to_hex: "v < 16 ^ n \<Longrightarrow> 0 < n \<Longrightarrow> pad_start n (CHR ''0'') (to_hex v) = hex_digits n v"
proof (induction v arbitrary: n rule: to_hex.induct)
  case (1 v)
  show ?case
  proof (cases "v < 16")
    case True
    then show ?thesis using "1.prems" hex_digits_zeros[OF True, of "n - 1"]
      by (cases n) (auto simp: to_hex.simps pad_start_def)
  next
    case False
    then obtain m where n: "n = Suc m" "0 < m" using "1.prems" by (cases n; cases "n - 1") auto
    have m: "v div 16 < 16 ^ m" using "1.prems" n by (simp add: less_mult_imp_div_less mult.commute)
    have "pad_start m (CHR ''0'') (to_hex (v div 16)) = hex_digits m (v div 16)"
      using "1.IH"[OF False m n(2)] .
    then show ?thesis using False n by (subst to_hex.simps) (simp add: pad_start_def)
  qed
qed

text \<open>\<open>parseInt(s, 16)\<close>: the longest hexadecimal prefix after blanks, a sign and an
  optional \<open>0x\<close>; \<open>NaN\<close> when there is none.\<close>

definition parse_int16 :: "string \<Rightarrow> js_num" where
  "parse_int16 s =
     (let t = trim_start s;
          neg = starts_with ''-'' t;
          t1 = (if neg \<or> starts_with ''+'' t then tl t else t);
          t2 = (if starts_with ''0x'' (to_lower t1) then drop 2 t1 else t1);
          ds = takeWhile (\<lambda>c. hex_val c \<noteq> None) t2
      in if ds = [] then NaN
         else Fin (fl (if neg then - of_nat (hex_value ds) else of_nat (hex_value ds))))"

lemma hex_char_plain:
  "d < 16 \<Longrightarrow> hex_char d \<notin> {CHR ''-'', CHR ''+''} \<and> \<not> js_space (hex_char d) \<and>
     lower_char (hex_char d) \<noteq> CHR ''x''"
  by (drule less_16_cases) (auto simp: hex_char_def js_space_def lower_char_def)

lemma parse_int16_hex_digits:
  assumes "0 < n" "n \<le> 13"
  shows "parse_int16 (hex_digits n v) = Fin (of_nat (v mod 16 ^ n))"
proof -
  let ?s = "hex_digits n v"
  have c: "\<exists>d<16. x = hex_char d" if "x \<in> set ?s" for x using set_hex_digits that .
  obtain x xs where s: "?s = x # xs" using assms by (cases ?s) (auto dest: arg_cong[of _ _ length])
  have ws: "trim_start ?s = ?s"
    using c[of x] hex_char_plain s by (auto simp: trim_start_def)
  have sign: "\<not> starts_with ''-'' ?s" "\<not> starts_with ''+'' ?s"
    using c[of x] hex_char_plain s by (auto simp: starts_with_def)
  have x0: "\<not> starts_with ''0x'' (to_lower ?s)"
    using c hex_char_plain s
    by (cases xs) (force simp: starts_with_def to_lower_def)+
  have all: "takeWhile (\<lambda>c. \<exists>y. hex_val c = Some y) ?s = ?s"
    using c hex_val_hex_char by (fastforce simp: takeWhile_eq_all_conv)
  have "v mod 16 ^ n < 16 ^ n" by simp
  also have "(16::nat) ^ n \<le> 16 ^ 13" using assms by (intro power_increasing) auto
  finally have "\<bar>int (v mod 16 ^ n)\<bar> \<le> 2 ^ 53" by simp
  then have "fl (of_nat (v mod 16 ^ n)) = of_nat (v mod 16 ^ n)"
    using fl_of_int[of "int (v mod 16 ^ n)"] by simp
  then show ?thesis
    using assms
    by (simp add: parse_int16_def Let_def ws sign x0 all hex_value_hex_digits flip: length_0_conv)
qed

section \<open>The text of a uuid\<close>

definition uuid_text :: "uuid \<Rightarrow> string" where
  "uuid_text u =
     (let h = hex_digits 32 (unat u)
      in slice 0 8 h @ ''-'' @ slice 8 12 h @ ''-'' @ slice 12 16 h @ ''-'' @
         slice 16 20 h @ ''-'' @ slice 20 32 h)"

text \<open>The input syntax of the \<open>uuid\<close> type: pairs of hexadecimal digits, a hyphen
  allowed after every second byte but the last, optional braces around it all.\<close>

fun uuid_scan :: "nat \<Rightarrow> string \<Rightarrow> nat \<Rightarrow> (nat \<times> string) option" where
  "uuid_scan 0 s acc = Some (acc, s)"
| "uuid_scan (Suc r) (a # b # s) acc =
     (case (hex_val a, hex_val b) of
        (Some x, Some y) \<Rightarrow>
          uuid_scan r (if even r \<and> 0 < r \<and> starts_with ''-'' s then tl s else s)
            (acc * 256 + x * 16 + y)
      | _ \<Rightarrow> None)"
| "uuid_scan (Suc r) _ acc = None"

definition pg_uuid :: "string \<Rightarrow> uuid option" where
  "pg_uuid s =
     (let braced = starts_with ''{'' s
      in case uuid_scan 16 (if braced then tl s else s) 0 of
           Some (v, rest) \<Rightarrow> if rest = (if braced then ''}'' else []) then Some (of_nat v) else None
         | None \<Rightarrow> None)"

lemma uuid_text_digits:
  "uuid_text u =
     hex_digits 8 (unat u div 16 ^ 24) @ ''-'' @ hex_digits 4 (unat u div 16 ^ 20) @ ''-'' @
     hex_digits 4 (unat u div 16 ^ 16) @ ''-'' @ hex_digits 4 (unat u div 16 ^ 12) @ ''-'' @
     hex_digits 12 (unat u)"
  by (simp add: uuid_text_def Let_def slice_hex_digits)

lemma uuid_scan_byte:
  "uuid_scan (Suc r) (hex_digits 2 v @ s) acc =
     uuid_scan r (if even r \<and> 0 < r \<and> starts_with ''-'' s then tl s else s) (acc * 256 + v mod 256)"
proof -
  have "v div 16 mod 16 * 16 + v mod 16 = v mod 256"
    using mod_mult2_eq[of v 16 16] by simp
  then show ?thesis by (simp add: numeral_2_eq_2 add.assoc)
qed

lemma hex_digits_4: "hex_digits 4 v = hex_digits 2 (v div 256) @ hex_digits 2 v"
  using hex_digits_append[of 2 2 v] by simp

lemma starts_with_dash_hex [simp]:
  "0 < n \<Longrightarrow> \<not> starts_with ''-'' (hex_digits n v @ s)"
proof -
  assume "0 < n"
  then obtain x xs where "hex_digits n v = x # xs" by (cases "hex_digits n v") (auto dest: arg_cong[of _ _ length])
  moreover have "x \<noteq> CHR ''-''" using calculation hex_digits_no_dash[of n v] by auto
  ultimately show ?thesis by (simp add: starts_with_def)
qed

lemma uuid_scan_pair:
  assumes "odd r"
  shows "uuid_scan (Suc r) (hex_digits 4 v @ s) acc =
    uuid_scan (r - 1) (if 1 < r \<and> starts_with ''-'' s then tl s else s) (acc * 16 ^ 4 + v mod 16 ^ 4)"
proof -
  obtain q where r: "r = Suc q" "even q" using assms by (cases r) auto
  have m: "v div 256 mod 256 * 256 + v mod 256 = v mod 65536"
    using mod_mult2_eq[of v 256 256] by simp
  have "uuid_scan (Suc r) (hex_digits 4 v @ s) acc =
      uuid_scan r (hex_digits 2 v @ s) (acc * 256 + v div 256 mod 256)"
    using assms unfolding hex_digits_4 append_assoc uuid_scan_byte by simp
  also have "\<dots> = uuid_scan q (if 0 < q \<and> starts_with ''-'' s then tl s else s)
      ((acc * 256 + v div 256 mod 256) * 256 + v mod 256)"
    unfolding r uuid_scan_byte using r by simp
  also have "(acc * 256 + v div 256 mod 256) * 256 + v mod 256 = acc * 16 ^ 4 + v mod 16 ^ 4"
    using m by simp
  finally show ?thesis using r by simp
qed

text \<open>Five groups of digits read back as the number they spell.\<close>

abbreviation uuid_groups :: "nat \<Rightarrow> nat \<Rightarrow> nat \<Rightarrow> nat \<Rightarrow> nat \<Rightarrow> string" where
  "uuid_groups a b c d e \<equiv> hex_digits 8 a @ ''-'' @ hex_digits 4 b @ ''-'' @ hex_digits 4 c @
     ''-'' @ hex_digits 4 d @ ''-'' @ hex_digits 12 e"

abbreviation groups_value :: "nat \<Rightarrow> nat \<Rightarrow> nat \<Rightarrow> nat \<Rightarrow> nat \<Rightarrow> nat" where
  "groups_value a b c d e \<equiv> (((a mod 16 ^ 8 * 16 ^ 4 + b mod 16 ^ 4) * 16 ^ 4 + c mod 16 ^ 4) * 16 ^ 4
     + d mod 16 ^ 4) * 16 ^ 12 + e mod 16 ^ 12"

lemma groups_mod:
  fixes a e :: nat
  shows "a div 16 ^ 4 mod 16 ^ 4 * 16 ^ 4 + a mod 16 ^ 4 = a mod 16 ^ 8"
    and "(x * 16 ^ 4 + e div 16 ^ 8 mod 16 ^ 4) * 16 ^ 4 + e div 16 ^ 4 mod 16 ^ 4
       = x * 16 ^ 8 + e div 16 ^ 4 mod 16 ^ 8"
    and "(x * 16 ^ 8 + e div 16 ^ 4 mod 16 ^ 8) * 16 ^ 4 + e mod 16 ^ 4 = x * 16 ^ 12 + e mod 16 ^ 12"
proof -
  show "a div 16 ^ 4 mod 16 ^ 4 * 16 ^ 4 + a mod 16 ^ 4 = a mod 16 ^ 8"
    using mod_mult2_eq[of a "16 ^ 4" "16 ^ 4"] by simp
  have "e div 16 ^ 4 mod (16 ^ 4 * 16 ^ 4) = e div 16 ^ 8 mod 16 ^ 4 * 16 ^ 4 + e div 16 ^ 4 mod 16 ^ 4"
    using mod_mult2_eq[of "e div 16 ^ 4" "16 ^ 4" "16 ^ 4"] by (simp add: div_mult2_eq[symmetric])
  then show "(x * 16 ^ 4 + e div 16 ^ 8 mod 16 ^ 4) * 16 ^ 4 + e div 16 ^ 4 mod 16 ^ 4
       = x * 16 ^ 8 + e div 16 ^ 4 mod 16 ^ 8" by simp
  have "e mod (16 ^ 4 * 16 ^ 8) = 16 ^ 4 * (e div 16 ^ 4 mod 16 ^ 8) + e mod 16 ^ 4"
    by (rule mod_mult2_eq)
  then show "(x * 16 ^ 8 + e div 16 ^ 4 mod 16 ^ 8) * 16 ^ 4 + e mod 16 ^ 4 = x * 16 ^ 12 + e mod 16 ^ 12"
    by simp
qed

lemma hex_digits_8: "hex_digits 8 v = hex_digits 4 (v div 16 ^ 4) @ hex_digits 4 v"
  using hex_digits_append[of 4 4 v] by simp

lemma hex_digits_12:
  "hex_digits 12 v = hex_digits 4 (v div 16 ^ 8) @ hex_digits 4 (v div 16 ^ 4) @ hex_digits 4 v"
  using hex_digits_append[of 8 4 v] hex_digits_8[of "v div 16 ^ 4"]
  by (simp add: div_mult2_eq[symmetric])

lemma uuid_scan_quads:
  "uuid_scan 16 (hex_digits 4 v @ s) acc = uuid_scan 14 (if starts_with ''-'' s then tl s else s) (acc * 16 ^ 4 + v mod 16 ^ 4)"
  "uuid_scan 14 (hex_digits 4 v @ s) acc = uuid_scan 12 (if starts_with ''-'' s then tl s else s) (acc * 16 ^ 4 + v mod 16 ^ 4)"
  "uuid_scan 12 (hex_digits 4 v @ s) acc = uuid_scan 10 (if starts_with ''-'' s then tl s else s) (acc * 16 ^ 4 + v mod 16 ^ 4)"
  "uuid_scan 10 (hex_digits 4 v @ s) acc = uuid_scan 8 (if starts_with ''-'' s then tl s else s) (acc * 16 ^ 4 + v mod 16 ^ 4)"
  "uuid_scan 8 (hex_digits 4 v @ s) acc = uuid_scan 6 (if starts_with ''-'' s then tl s else s) (acc * 16 ^ 4 + v mod 16 ^ 4)"
  "uuid_scan 6 (hex_digits 4 v @ s) acc = uuid_scan 4 (if starts_with ''-'' s then tl s else s) (acc * 16 ^ 4 + v mod 16 ^ 4)"
  "uuid_scan 4 (hex_digits 4 v @ s) acc = uuid_scan 2 (if starts_with ''-'' s then tl s else s) (acc * 16 ^ 4 + v mod 16 ^ 4)"
  using uuid_scan_pair[of 15 v s acc] uuid_scan_pair[of 13 v s acc] uuid_scan_pair[of 11 v s acc]
    uuid_scan_pair[of 9 v s acc] uuid_scan_pair[of 7 v s acc] uuid_scan_pair[of 5 v s acc]
    uuid_scan_pair[of 3 v s acc]
  by simp_all

lemma uuid_scan_last:
  "uuid_scan 2 (hex_digits 4 v) acc = Some (acc * 16 ^ 4 + v mod 16 ^ 4, [])"
  using uuid_scan_pair[of 1 v "[]" acc] unfolding numeral_2_eq_2 by simp

lemma starts_with_dash [simp]: "starts_with ''-'' (CHR ''-'' # s)"
  by (simp add: starts_with_def)

lemma starts_with_dash_hex0 [simp]: "0 < n \<Longrightarrow> \<not> starts_with ''-'' (hex_digits n v)"
  using starts_with_dash_hex[of n v "[]"] by simp

lemma uuid_scan_groups: "uuid_scan 16 (uuid_groups a b c d e) 0 = Some (groups_value a b c d e, [])"
proof -
  have "uuid_scan 16 (uuid_groups a b c d e) 0 =
      Some ((((((((0 * 16 ^ 4 + a div 16 ^ 4 mod 16 ^ 4) * 16 ^ 4 + a mod 16 ^ 4) * 16 ^ 4 + b mod 16 ^ 4)
        * 16 ^ 4 + c mod 16 ^ 4) * 16 ^ 4 + d mod 16 ^ 4) * 16 ^ 4 + e div 16 ^ 8 mod 16 ^ 4) * 16 ^ 4
        + e div 16 ^ 4 mod 16 ^ 4) * 16 ^ 4 + e mod 16 ^ 4, [])"
    unfolding hex_digits_8 hex_digits_12 append_assoc
    by (simp only: uuid_scan_quads starts_with_dash starts_with_dash_hex starts_with_dash_hex0 if_True if_False
        zero_less_numeral append_Cons append_Nil list.sel uuid_scan_last)
  then show ?thesis by (simp only: groups_mod mult_0 add_0_left)
qed

lemma pg_uuid_groups: "pg_uuid (uuid_groups a b c d e) = Some (of_nat (groups_value a b c d e))"
proof -
  have nb: "starts_with ''{'' (uuid_groups a b c d e) = False"
  proof -
    obtain x xs where h: "hex_digits 8 a = x # xs"
      by (cases "hex_digits 8 a") (auto dest: arg_cong[of _ _ length])
    moreover have "x \<noteq> CHR ''{''"
      using set_hex_digits[of x 8 a] h less_16_cases by (fastforce simp: hex_char_def)
    ultimately show ?thesis by (simp add: starts_with_def)
  qed
  show ?thesis unfolding pg_uuid_def Let_def by (simp only: nb uuid_scan_groups if_False if_True option.case prod.case refl)
qed

text \<open>The canonical text of a uuid reads back as that uuid.\<close>

lemma groups_value_div:
  fixes v :: nat
  assumes "v < 16 ^ 32"
  shows "groups_value (v div 16 ^ 24) (v div 16 ^ 20) (v div 16 ^ 16) (v div 16 ^ 12) v = v"
proof -
  have step: "w div 16 ^ k * 16 ^ k + w mod 16 ^ k = (w::nat)" for w k by (rule div_mult_mod_eq)
  have "v div 16 ^ 24 < 16 ^ 8" using assms by (simp add: less_mult_imp_div_less)
  then have a: "v div 16 ^ 24 mod 16 ^ 8 = v div 16 ^ 20 div 16 ^ 4"
    by (simp add: div_mult2_eq[symmetric])
  have b: "v div 16 ^ 20 = v div 16 ^ 16 div 16 ^ 4" and c: "v div 16 ^ 16 = v div 16 ^ 12 div 16 ^ 4"
    by (simp_all add: div_mult2_eq[symmetric])
  show ?thesis unfolding a step b c step ..
qed

lemma unat_uuid_less: "unat (u :: uuid) < 16 ^ 32"
  using unsigned_less[of u] by simp

theorem pg_uuid_uuid_text: "pg_uuid (uuid_text u) = Some u"
proof -
  have "pg_uuid (uuid_text u) = Some (of_nat (unat u))"
    unfolding uuid_text_digits pg_uuid_groups
    by (simp only: groups_value_div[OF unat_uuid_less])
  then show ?thesis by simp
qed

section \<open>Decimal text\<close>

fun dec_text :: "nat \<Rightarrow> string" where
  "dec_text v = (if v < 10 then [hex_char v] else dec_text (v div 10) @ [hex_char (v mod 10)])"

declare dec_text.simps [simp del]

text \<open>The text of a \<open>NUMERIC\<close> with \<open>s\<close> fraction digits, as the driver returns it.\<close>

definition numeric_text :: "nat \<Rightarrow> rat \<Rightarrow> string" where
  "numeric_text s x =
     (let n = nat \<lfloor>\<bar>x\<bar> * 10 ^ s\<rfloor>
      in (if x < 0 then ''-'' else []) @ dec_text (n div 10 ^ s) @
         (if s = 0 then [] else ''.'' @ pad_start s (CHR ''0'') (dec_text (n mod 10 ^ s))))"

section \<open>JSON\<close>

text \<open>A parsed JSON document.  \<open>JSON.parse\<close> keeps the last of two equal names, and a
  number too large for a double is \<open>Infinity\<close>.\<close>

datatype json = JNull | JBool bool | JNum js_num | JStr string | JArr "json list" | JObj "(string \<times> json) list"

text \<open>\<open>v.name\<close>: reading a property of \<open>null\<close> throws (\<open>None\<close>); an absent property is
  \<open>undefined\<close>, which the callers never tell from \<open>null\<close>.\<close>

definition js_get :: "json \<Rightarrow> string \<Rightarrow> json option" where
  "js_get v name =
     (case v of JNull \<Rightarrow> None
      | JObj fs \<Rightarrow> Some (or_else (map_of (rev fs) name) JNull)
      | _ \<Rightarrow> Some JNull)"

definition js_truthy :: "json \<Rightarrow> bool" where
  "js_truthy v =
     (case v of JNull \<Rightarrow> False | JBool b \<Rightarrow> b | JNum n \<Rightarrow> n \<noteq> NaN \<and> n \<noteq> Fin 0
      | JStr s \<Rightarrow> s \<noteq> [] | JArr _ \<Rightarrow> True | JObj _ \<Rightarrow> True)"

text \<open>The strings of an array of strings; \<open>None\<close> if some entry is not a string.\<close>

fun all_strings :: "json list \<Rightarrow> string list option" where
  "all_strings [] = Some []"
| "all_strings (JStr s # vs) = map_option ((#) s) (all_strings vs)"
| "all_strings (_ # vs) = None"

definition string_array :: "json \<Rightarrow> string list option" where
  "string_array v = (case v of JArr vs \<Rightarrow> all_strings vs | _ \<Rightarrow> None)"

lemma all_strings_map [simp]: "all_strings (map JStr ss) = Some ss"
  by (induction ss) auto

lemma all_strings_Some_iff: "all_strings vs = Some ss \<longleftrightarrow> vs = map JStr ss"
  by (induction vs arbitrary: ss rule: all_strings.induct) auto

end
