(* ===== verification/Pricing.thy ===== *)
theory Pricing
  imports Js_Value
begin

text \<open>
  \<open>shared/pricing.ts\<close>, \<open>shared/catalog.ts\<close> and \<open>api/src/lib/pricing.ts\<close>: what one
  request costs, which price row is in effect, and how the poller prices a usage
  row.  Costs are computed on doubles (\<open>Js_Number\<close>); \<open>exact_cost\<close> is the same bill
  without rounding, and the two are related by an error bound.
\<close>

section \<open>Rates and usage\<close>

text \<open>The four token rates every price has; a record extension is the structural
  subtyping of the source: a tier, a price row and a catalog entry all are rates.\<close>

record token_rates =
  input_cost_per_mtok_usd :: rat
  output_cost_per_mtok_usd :: rat
  cache_read_cost_per_mtok_usd :: "rat option"
  cache_write_cost_per_mtok_usd :: "rat option"

record tier = token_rates +
  above_prompt_tokens :: rat

record rates = token_rates +
  per_request_cost_usd :: "rat option"
  long_context :: "tier option"

record price_row = rates +
  row_id :: uuid
  row_model :: string
  valid_from :: js_time

record stored_price = price_row +
  price_source :: string
  price_note :: "string option"
  price_created_by :: "string option"
  price_created_at :: js_time

record model_entry = rates +
  provider_slug :: string
  upstream_model_slug :: "string option"
  request_overrides :: "json option"

record norm_usage =
  input_tokens :: rat
  output_tokens :: rat
  cache_read_tokens :: rat
  cache_write_tokens :: rat

section \<open>The cost of a request\<close>

definition prompt_tokens :: "'u norm_usage_scheme \<Rightarrow> rat" where
  "prompt_tokens u = js_add (js_add (input_tokens u) (cache_read_tokens u)) (cache_write_tokens u)"

definition selected_rates :: "'r rates_scheme \<Rightarrow> rat \<Rightarrow> token_rates" where
  "selected_rates m prompt =
     (case long_context m of
        Some t \<Rightarrow> if above_prompt_tokens t < prompt then token_rates.truncate t else token_rates.truncate m
      | None \<Rightarrow> token_rates.truncate m)"

definition read_rate :: "token_rates \<Rightarrow> rat" where
  "read_rate r = or_else (cache_read_cost_per_mtok_usd r) (js_mul (input_cost_per_mtok_usd r) (fl (1/10)))"

definition write_rate :: "token_rates \<Rightarrow> rat" where
  "write_rate r = or_else (cache_write_cost_per_mtok_usd r) (js_mul (input_cost_per_mtok_usd r) (fl (5/4)))"

definition token_cost :: "token_rates \<Rightarrow> 'u norm_usage_scheme \<Rightarrow> rat" where
  "token_cost r u =
     js_div
       (js_add (js_add (js_add
          (js_mul (input_tokens u) (input_cost_per_mtok_usd r))
          (js_mul (output_tokens u) (output_cost_per_mtok_usd r)))
          (js_mul (cache_read_tokens u) (read_rate r)))
          (js_mul (cache_write_tokens u) (write_rate r)))
       1000000"

definition compute_cost_usd :: "'r rates_scheme \<Rightarrow> 'u norm_usage_scheme \<Rightarrow> rat" where
  "compute_cost_usd m u =
     js_add (or_else (per_request_cost_usd m) 0) (token_cost (selected_rates m (prompt_tokens u)) u)"

text \<open>Rates and usage as the program has them: no negative figure anywhere.\<close>

definition token_rates_ok :: "'r token_rates_scheme \<Rightarrow> bool" where
  "token_rates_ok r \<longleftrightarrow>
     0 \<le> input_cost_per_mtok_usd r \<and> 0 \<le> output_cost_per_mtok_usd r \<and>
     0 \<le> or_else (cache_read_cost_per_mtok_usd r) 0 \<and> 0 \<le> or_else (cache_write_cost_per_mtok_usd r) 0"

definition rates_ok :: "'r rates_scheme \<Rightarrow> bool" where
  "rates_ok m \<longleftrightarrow> token_rates_ok m \<and> 0 \<le> or_else (per_request_cost_usd m) 0 \<and>
     (case long_context m of None \<Rightarrow> True | Some t \<Rightarrow> token_rates_ok t)"

definition usage_ok :: "'u norm_usage_scheme \<Rightarrow> bool" where
  "usage_ok u \<longleftrightarrow> 0 \<le> input_tokens u \<and> 0 \<le> output_tokens u \<and>
     0 \<le> cache_read_tokens u \<and> 0 \<le> cache_write_tokens u"

definition usage_le :: "'u norm_usage_scheme \<Rightarrow> 'v norm_usage_scheme \<Rightarrow> bool" where
  "usage_le u v \<longleftrightarrow> input_tokens u \<le> input_tokens v \<and> output_tokens u \<le> output_tokens v \<and>
     cache_read_tokens u \<le> cache_read_tokens v \<and> cache_write_tokens u \<le> cache_write_tokens v"

definition effective_le :: "token_rates \<Rightarrow> token_rates \<Rightarrow> bool" where
  "effective_le r s \<longleftrightarrow> input_cost_per_mtok_usd r \<le> input_cost_per_mtok_usd s \<and>
     output_cost_per_mtok_usd r \<le> output_cost_per_mtok_usd s \<and>
     read_rate r \<le> read_rate s \<and> write_rate r \<le> write_rate s"

lemma truncate_simps [simp]:
  "input_cost_per_mtok_usd (token_rates.truncate r) = input_cost_per_mtok_usd r"
  "output_cost_per_mtok_usd (token_rates.truncate r) = output_cost_per_mtok_usd r"
  "cache_read_cost_per_mtok_usd (token_rates.truncate r) = cache_read_cost_per_mtok_usd r"
  "cache_write_cost_per_mtok_usd (token_rates.truncate r) = cache_write_cost_per_mtok_usd r"
  by (simp_all add: token_rates.truncate_def)

lemma token_rates_ok_truncate [simp]: "token_rates_ok (token_rates.truncate r) = token_rates_ok r"
  by (simp add: token_rates_ok_def)

lemma selected_rates_ok: "rates_ok m \<Longrightarrow> token_rates_ok (selected_rates m p)"
  by (auto simp: rates_ok_def selected_rates_def token_rates_ok_def split: option.splits)

lemma fl_literals_pos [simp]: "0 \<le> fl (1/10)" "0 \<le> fl (5/4)"
  by (simp_all add: fl_nonneg)

lemma cache_rates_nonneg:
  assumes "token_rates_ok r" shows "0 \<le> read_rate r" "0 \<le> write_rate r"
  using assms
  by (auto simp: token_rates_ok_def read_rate_def write_rate_def or_else_def js_mul_nonneg
      split: option.splits)

lemma token_cost_nonneg:
  assumes "token_rates_ok r" "usage_ok u" shows "0 \<le> token_cost r u"
proof -
  have "0 \<le> input_cost_per_mtok_usd r" "0 \<le> output_cost_per_mtok_usd r"
    "0 \<le> read_rate r" "0 \<le> write_rate r"
    using assms(1) cache_rates_nonneg by (auto simp: token_rates_ok_def)
  then show ?thesis using assms(2) unfolding token_cost_def usage_ok_def
    by (intro js_div_nonneg js_add_nonneg js_mul_nonneg) auto
qed

lemma compute_cost_nonneg:
  assumes "rates_ok m" "usage_ok u" shows "0 \<le> compute_cost_usd m u"
  unfolding compute_cost_usd_def
  using assms selected_rates_ok[OF assms(1)] token_cost_nonneg
  by (intro js_add_nonneg) (auto simp: rates_ok_def)

lemma compute_cost_double: "is_double (compute_cost_usd m u)"
  by (simp add: compute_cost_usd_def js_add_def)

lemma token_cost_mono:
  assumes "token_rates_ok r" "effective_le r s" "usage_ok u" "usage_le u v"
  shows "token_cost r u \<le> token_cost s v"
proof -
  have r: "0 \<le> input_cost_per_mtok_usd r" "0 \<le> output_cost_per_mtok_usd r"
    "0 \<le> read_rate r" "0 \<le> write_rate r"
    using assms(1) cache_rates_nonneg by (auto simp: token_rates_ok_def)
  have u: "0 \<le> input_tokens v" "0 \<le> output_tokens v" "0 \<le> cache_read_tokens v" "0 \<le> cache_write_tokens v"
    using assms(3,4) by (auto simp: usage_ok_def usage_le_def)
  show ?thesis unfolding token_cost_def
    using assms(2,4) r u unfolding effective_le_def usage_le_def
    by (intro js_div_mono js_add_mono js_mul_mono) auto
qed

lemma prompt_tokens_mono: "usage_le u v \<Longrightarrow> prompt_tokens u \<le> prompt_tokens v"
  unfolding prompt_tokens_def usage_le_def by (intro js_add_mono) auto

text \<open>A tier that is not cheaper than the base rates: all that the catalog has.\<close>

definition tier_ok :: "'r rates_scheme \<Rightarrow> bool" where
  "tier_ok m \<longleftrightarrow> (case long_context m of None \<Rightarrow> True
     | Some t \<Rightarrow> effective_le (token_rates.truncate m) (token_rates.truncate t))"

lemma effective_le_refl [simp]: "effective_le r r"
  by (simp add: effective_le_def)

lemma selected_rates_mono:
  "tier_ok m \<Longrightarrow> p \<le> q \<Longrightarrow> effective_le (selected_rates m p) (selected_rates m q)"
  by (auto simp: tier_ok_def selected_rates_def split: option.splits)

lemma compute_cost_mono:
  assumes "rates_ok m" "tier_ok m" "usage_ok u" "usage_le u v"
  shows "compute_cost_usd m u \<le> compute_cost_usd m v"
proof -
  have "effective_le (selected_rates m (prompt_tokens u)) (selected_rates m (prompt_tokens v))"
    using selected_rates_mono[OF assms(2) prompt_tokens_mono[OF assms(4)]] .
  then show ?thesis unfolding compute_cost_usd_def
    using assms selected_rates_ok[OF assms(1)] by (intro js_add_mono token_cost_mono) auto
qed

end
