(* ===== verification/Cost_Accuracy.thy ===== *)
theory Cost_Accuracy
  imports Pricing
begin

text \<open>
  How far a billed cost can be from the exact one.  Every double operation of
  \<open>compute_cost_usd\<close> is off by at most one part in \<open>2^53\<close>; eight of them are
  chained, and all terms are non-negative, so nothing cancels.
\<close>

section \<open>Approximation up to a number of roundings\<close>

definition ulp :: rat where "ulp = 2 powi (-53)"

definition approx :: "nat \<Rightarrow> rat \<Rightarrow> rat \<Rightarrow> bool" where
  "approx k x y \<longleftrightarrow> 0 \<le> y \<and> y * (1 - ulp) ^ k \<le> x \<and> x \<le> y * (1 + ulp) ^ k"

lemma ulp_bounds [simp]: "0 < ulp" "ulp < 1" "ulp \<le> 1" "0 \<le> ulp" "0 \<le> 1 - ulp" "1 - ulp \<le> 1" "1 \<le> 1 + ulp" "0 \<le> 1 + ulp"
proof -
  show p: "0 < ulp" by (simp add: ulp_def)
  show l: "ulp < 1" unfolding ulp_def by (simp add: power_int_minus)
  show "ulp \<le> 1" "0 \<le> ulp" "0 \<le> 1 - ulp" "1 - ulp \<le> 1" "1 \<le> 1 + ulp" "0 \<le> 1 + ulp" using p l by auto
qed

lemma approx_0: "0 \<le> y \<Longrightarrow> approx 0 y y"
  by (simp add: approx_def)

lemma approx_nonneg: "approx k x y \<Longrightarrow> 0 \<le> x"
  unfolding approx_def by (meson order_trans mult_nonneg_nonneg ulp_bounds(5) zero_le_power)

lemma approx_weaken:
  assumes "approx j x y" "j \<le> k" shows "approx k x y"
proof -
  have "(1 - ulp) ^ k \<le> (1 - ulp) ^ j" using assms(2) by (intro power_decreasing) auto
  moreover have "(1 + ulp) ^ j \<le> (1 + ulp) ^ k" using assms(2) by (intro power_increasing) auto
  ultimately show ?thesis using assms(1) unfolding approx_def
    by (meson mult_left_mono order_trans)
qed

lemma approx_add: "approx k x y \<Longrightarrow> approx k x' y' \<Longrightarrow> approx k (x + x') (y + y')"
  by (auto simp: approx_def distrib_right add_mono)

lemma approx_mult:
  assumes "approx j x y" "approx k x' y'" shows "approx (j + k) (x * x') (y * y')"
proof -
  have x: "0 \<le> x" "0 \<le> x'" using assms approx_nonneg by auto
  have y: "0 \<le> y" "0 \<le> y'" "0 \<le> y' * (1 - ulp) ^ k" using assms by (auto simp: approx_def)
  have a: "y * (1 - ulp) ^ j \<le> x" "x \<le> y * (1 + ulp) ^ j"
    "y' * (1 - ulp) ^ k \<le> x'" "x' \<le> y' * (1 + ulp) ^ k"
    using assms by (auto simp: approx_def)
  have "(y * (1 - ulp) ^ j) * (y' * (1 - ulp) ^ k) \<le> x * x'"
    by (rule mult_mono[OF a(1,3) x(1) y(3)])
  moreover have "x * x' \<le> (y * (1 + ulp) ^ j) * (y' * (1 + ulp) ^ k)"
    using y by (intro mult_mono[OF a(2,4) _ x(2)]) simp
  ultimately show ?thesis using y by (simp add: approx_def power_add mult_ac)
qed

lemma approx_divide: "approx k x y \<Longrightarrow> 0 < c \<Longrightarrow> approx k (x / c) (y / c)"
  by (simp add: approx_def divide_right_mono)

text \<open>Rounding a value that is zero or not tiny costs one step.\<close>

definition not_tiny :: "rat \<Rightarrow> bool" where
  "not_tiny x \<longleftrightarrow> x = 0 \<or> 2 powi (-1022) \<le> x"

lemma approx_fl:
  assumes "approx k x y" "not_tiny x" shows "approx (Suc k) (fl x) y"
proof -
  have e: "\<bar>fl x - x\<bar> \<le> x * ulp"
    using assms(2) fl_rel_err_pos[of x] by (auto simp: not_tiny_def ulp_def)
  then have b: "x * (1 - ulp) \<le> fl x" "fl x \<le> x * (1 + ulp)"
    unfolding abs_le_iff by (auto simp: algebra_simps)
  have x: "y * (1 - ulp) ^ k \<le> x" "x \<le> y * (1 + ulp) ^ k" "0 \<le> y" using assms(1) by (auto simp: approx_def)
  have "y * (1 - ulp) ^ k * (1 - ulp) \<le> fl x"
    by (rule order_trans[OF mult_right_mono[OF x(1)] b(1)]) simp
  moreover have "fl x \<le> y * (1 + ulp) ^ k * (1 + ulp)"
    by (rule order_trans[OF b(2) mult_right_mono[OF x(2)]]) simp
  ultimately show ?thesis using x by (simp add: approx_def mult_ac)
qed

text \<open>A non-negative value with a floor: zero or at least \<open>2^-k\<close>.  Sums and products of
  such values have floors too, which keeps every intermediate result normal.\<close>

definition floored :: "nat \<Rightarrow> rat \<Rightarrow> bool" where
  "floored k x \<longleftrightarrow> x = 0 \<or> 2 powi (- int k) \<le> x"

lemma floored_not_tiny: "floored k x \<Longrightarrow> k \<le> 1022 \<Longrightarrow> not_tiny x"
  unfolding floored_def not_tiny_def
  using power_int_increasing[of "-1022" "- int k" "2::rat"] by (auto intro: order_trans)

lemma floored_nonneg: "floored k x \<Longrightarrow> 0 \<le> x"
  unfolding floored_def by (auto intro: order_trans[rotated])

lemma floored_weaken: "floored j x \<Longrightarrow> j \<le> k \<Longrightarrow> floored k x"
  unfolding floored_def
  using power_int_increasing[of "- int k" "- int j" "2::rat"] by (auto intro: order_trans)

lemma floored_add: "floored k x \<Longrightarrow> floored k y \<Longrightarrow> floored k (x + y)"
  unfolding floored_def by (auto intro: add_increasing2 add_increasing floored_nonneg[unfolded floored_def])

lemma floored_mult:
  assumes "floored j x" "floored k y" shows "floored (j + k) (x * y)"
proof (cases "x = 0 \<or> y = 0")
  case False
  then have "2 powi (- int j) * 2 powi (- int k) \<le> x * y"
    using assms floored_nonneg by (intro mult_mono) (auto simp: floored_def)
  then show ?thesis by (simp add: floored_def flip: power_int_add)
qed (auto simp: floored_def)

lemma floored_fl:
  assumes "floored k x" "k \<le> 1022" shows "floored k (fl x)"
proof (cases "x = 0")
  case False
  then have "2 powi (- int k) \<le> x" using assms by (auto simp: floored_def)
  then have "2 powi (- int k) \<le> fl x" using assms by (intro double_le_fl fl_powi) auto
  then show ?thesis by (simp add: floored_def)
qed (simp add: floored_def)

text \<open>The two together, closed under the operations of the source.\<close>

definition tracks :: "nat \<Rightarrow> nat \<Rightarrow> rat \<Rightarrow> rat \<Rightarrow> bool" where
  "tracks k j x y \<longleftrightarrow> approx k x y \<and> floored j x"

lemma tracks_add:
  assumes "tracks k j x y" "tracks k j x' y'" "j \<le> 1022"
  shows "tracks (Suc k) j (js_add x x') (y + y')"
  using assms floored_add approx_add unfolding tracks_def js_add_def
  by (meson approx_fl floored_fl floored_not_tiny)

lemma tracks_mul:
  assumes "tracks k j x y" "tracks k' j' x' y'" "j + j' \<le> 1022"
  shows "tracks (Suc (k + k')) (j + j') (js_mul x x') (y * y')"
  using assms floored_mult approx_mult unfolding tracks_def js_mul_def
  by (meson approx_fl floored_fl floored_not_tiny)

lemma tracks_weaken: "tracks k j x y \<Longrightarrow> k \<le> k' \<Longrightarrow> j \<le> j' \<Longrightarrow> tracks k' j' x y"
  unfolding tracks_def using approx_weaken floored_weaken by blast

lemma floored_million: "floored j x \<Longrightarrow> floored (j + 20) (x / 1000000)"
proof (cases "x = 0")
  case False
  assume "floored j x"
  then have x: "2 powi (- int j) \<le> x" using False by (simp add: floored_def)
  have "(2::rat) powi (- int (j + 20)) = 2 powi (- int j) * (1 / 1048576)"
    using powi_split[of "- int (j + 20)" 20] by simp
  also have "\<dots> \<le> x * (1 / 1000000)"
    using x floored_nonneg[OF \<open>floored j x\<close>] by (intro mult_mono) auto
  finally show ?thesis by (simp add: floored_def)
qed (simp add: floored_def)

lemma tracks_million:
  assumes "tracks k j x y" "j + 20 \<le> 1022"
  shows "tracks (Suc k) (j + 20) (js_div x 1000000) (y / 1000000)"
  using assms floored_million[of j x] approx_divide[of k x y 1000000] unfolding tracks_def js_div_def
  by (simp add: approx_fl floored_fl floored_not_tiny)

section \<open>The bill without rounding\<close>

definition exact_token_cost :: "token_rates \<Rightarrow> 'u norm_usage_scheme \<Rightarrow> rat" where
  "exact_token_cost r u =
     (input_tokens u * input_cost_per_mtok_usd r
      + output_tokens u * output_cost_per_mtok_usd r
      + cache_read_tokens u * or_else (cache_read_cost_per_mtok_usd r) (input_cost_per_mtok_usd r * (1/10))
      + cache_write_tokens u * or_else (cache_write_cost_per_mtok_usd r) (input_cost_per_mtok_usd r * (5/4)))
     / 1000000"

definition exact_cost :: "'r rates_scheme \<Rightarrow> 'u norm_usage_scheme \<Rightarrow> rat" where
  "exact_cost m u =
     or_else (per_request_cost_usd m) 0 +
     exact_token_cost
       (case long_context m of
          Some t \<Rightarrow> if above_prompt_tokens t < input_tokens u + cache_read_tokens u + cache_write_tokens u
                    then token_rates.truncate t else token_rates.truncate m
        | None \<Rightarrow> token_rates.truncate m) u"

text \<open>Prices of the catalog and of a \<open>NUMERIC(12, 6)\<close> column are zero or at least
  \<open>2^-20\<close>, just under a millionth; token counts are natural numbers.\<close>

definition priced_rates :: "'r token_rates_scheme \<Rightarrow> bool" where
  "priced_rates r \<longleftrightarrow> floored 20 (input_cost_per_mtok_usd r) \<and> floored 20 (output_cost_per_mtok_usd r) \<and>
     floored 20 (or_else (cache_read_cost_per_mtok_usd r) 0) \<and>
     floored 20 (or_else (cache_write_cost_per_mtok_usd r) 0)"

definition priced :: "'r rates_scheme \<Rightarrow> bool" where
  "priced m \<longleftrightarrow> priced_rates m \<and> floored 20 (or_else (per_request_cost_usd m) 0) \<and>
     (case long_context m of None \<Rightarrow> True | Some t \<Rightarrow> priced_rates t)"

definition counted :: "'u norm_usage_scheme \<Rightarrow> bool" where
  "counted u \<longleftrightarrow> (\<exists>i ou r w. input_tokens u = of_nat i \<and> output_tokens u = of_nat ou \<and>
     cache_read_tokens u = of_nat r \<and> cache_write_tokens u = of_nat w \<and> i + r + w < 2 ^ 53)"

lemma tracks_const: "floored j x \<Longrightarrow> tracks 0 j x x"
  using floored_nonneg by (simp add: tracks_def approx_0)

lemma floored_of_nat: "floored 0 (of_nat n)"
  by (cases n) (auto simp: floored_def)

lemma tracks_literal: "2 powi (- int j) \<le> x \<Longrightarrow> j \<le> 1022 \<Longrightarrow> tracks 1 j (fl x) x"
proof -
  assume x: "2 powi (- int j) \<le> x" and j: "j \<le> 1022"
  have f: "floored j x" using x by (simp add: floored_def)
  then have "approx (Suc 0) (fl x) x"
    using approx_fl[OF approx_0[OF floored_nonneg[OF f]] floored_not_tiny[OF f j]] by simp
  then show ?thesis using floored_fl[OF f j] by (simp add: tracks_def)
qed

lemma tracks_cache_rate:
  assumes "floored 20 (input_cost_per_mtok_usd r)" "floored 20 (or_else c 0)" "1/16 \<le> f"
  shows "tracks 2 24 (or_else c (js_mul (input_cost_per_mtok_usd r) (fl f)))
           (or_else c (input_cost_per_mtok_usd r * f))"
proof (cases c)
  case None
  have "tracks 1 4 (fl f) f"
    using assms(3) by (intro tracks_literal) (auto simp: power_int_minus)
  then have "tracks (Suc (0 + 1)) (20 + 4) (js_mul (input_cost_per_mtok_usd r) (fl f))
      (input_cost_per_mtok_usd r * f)"
    by (intro tracks_mul tracks_const assms(1)) auto
  then show ?thesis using None by (simp add: numeral_2_eq_2)
next
  case (Some x)
  then show ?thesis using assms(2) by (auto intro: tracks_weaken[OF tracks_const])
qed

lemma token_cost_tracks:
  assumes r: "priced_rates (r :: token_rates)" and u: "counted u"
  shows "tracks 7 44 (token_cost r u) (exact_token_cost r u)"
proof -
  have f: "floored 20 (input_cost_per_mtok_usd r)" "floored 20 (output_cost_per_mtok_usd r)"
    "floored 20 (or_else (cache_read_cost_per_mtok_usd r) 0)"
    "floored 20 (or_else (cache_write_cost_per_mtok_usd r) 0)"
    using r by (auto simp: priced_rates_def)
  have n: "floored 0 (input_tokens u)" "floored 0 (output_tokens u)"
    "floored 0 (cache_read_tokens u)" "floored 0 (cache_write_tokens u)"
    using u floored_of_nat by (auto simp: counted_def)
  have rd: "tracks 2 24 (read_rate r)
      (or_else (cache_read_cost_per_mtok_usd r) (input_cost_per_mtok_usd r * (1/10)))"
    unfolding read_rate_def by (rule tracks_cache_rate) (use f in auto)
  have wr: "tracks 2 24 (write_rate r)
      (or_else (cache_write_cost_per_mtok_usd r) (input_cost_per_mtok_usd r * (5/4)))"
    unfolding write_rate_def by (rule tracks_cache_rate) (use f in auto)
  have prod: "tracks 3 24 (js_mul t x) (t * y)" if "floored 0 t" "tracks 2 24 x y" for t x y
    using tracks_mul[OF tracks_const[OF that(1)] that(2)] by (simp add: numeral_3_eq_3 numeral_2_eq_2)
  have base: "tracks 2 24 x x" if "floored 20 x" for x
    using tracks_weaken[OF tracks_const[OF that]] by simp
  let ?i = "js_mul (input_tokens u) (input_cost_per_mtok_usd r)"
  let ?o = "js_mul (output_tokens u) (output_cost_per_mtok_usd r)"
  let ?c = "js_mul (cache_read_tokens u) (read_rate r)"
  let ?w = "js_mul (cache_write_tokens u) (write_rate r)"
  have "tracks (Suc 3) 24 (js_add ?i ?o)
      (input_tokens u * input_cost_per_mtok_usd r + output_tokens u * output_cost_per_mtok_usd r)"
    by (intro tracks_add prod base n f) auto
  then have "tracks (Suc (Suc 3)) 24 (js_add (js_add ?i ?o) ?c)
      (input_tokens u * input_cost_per_mtok_usd r + output_tokens u * output_cost_per_mtok_usd r
        + cache_read_tokens u * or_else (cache_read_cost_per_mtok_usd r) (input_cost_per_mtok_usd r * (1/10)))"
    by (rule tracks_add[OF _ tracks_weaken[OF prod[OF n(3) rd]]]) auto
  then have "tracks (Suc (Suc (Suc 3))) 24 (js_add (js_add (js_add ?i ?o) ?c) ?w)
      (input_tokens u * input_cost_per_mtok_usd r + output_tokens u * output_cost_per_mtok_usd r
        + cache_read_tokens u * or_else (cache_read_cost_per_mtok_usd r) (input_cost_per_mtok_usd r * (1/10))
        + cache_write_tokens u * or_else (cache_write_cost_per_mtok_usd r) (input_cost_per_mtok_usd r * (5/4)))"
    by (rule tracks_add[OF _ tracks_weaken[OF prod[OF n(4) wr]]]) auto
  from tracks_million[OF this] show ?thesis
    unfolding token_cost_def exact_token_cost_def by (simp add: eval_nat_numeral)
qed

text \<open>Token counts that fit a double add up without rounding, so the tier is chosen
  on the exact prompt length.\<close>

lemma fl_of_nat: "n \<le> 2 ^ 53 \<Longrightarrow> fl (of_nat n) = of_nat n"
  using fl_of_int[of "int n"] by simp

lemma prompt_tokens_exact:
  assumes "counted u"
  shows "prompt_tokens u = input_tokens u + cache_read_tokens u + cache_write_tokens u"
proof -
  obtain i r w where *: "input_tokens u = of_nat i" "cache_read_tokens u = of_nat r"
    "cache_write_tokens u = of_nat w" "i + r + w < 2 ^ 53"
    using assms by (auto simp: counted_def)
  show ?thesis using *(4) fl_of_nat[of "i + r"] fl_of_nat[of "i + r + w"]
    by (simp add: prompt_tokens_def js_add_def * flip: of_nat_add)
qed

lemma exact_cost_selected:
  "counted u \<Longrightarrow> exact_cost m u =
     or_else (per_request_cost_usd m) 0 + exact_token_cost (selected_rates m (prompt_tokens u)) u"
  by (simp add: exact_cost_def selected_rates_def prompt_tokens_exact)

lemma priced_selected: "priced m \<Longrightarrow> priced_rates (selected_rates m p)"
  by (auto simp: priced_def selected_rates_def priced_rates_def split: option.splits)

lemma compute_cost_approx:
  assumes "priced m" "counted u"
  shows "approx 8 (compute_cost_usd m u) (exact_cost m u)"
proof -
  have "tracks 7 44 (or_else (per_request_cost_usd m) 0) (or_else (per_request_cost_usd m) 0)"
    using assms(1) by (intro tracks_weaken[OF tracks_const[of 20]]) (auto simp: priced_def)
  from tracks_add[OF this token_cost_tracks[OF priced_selected[OF assms(1)] assms(2)]]
  show ?thesis
    by (simp add: compute_cost_usd_def exact_cost_selected[OF assms(2)] tracks_def eval_nat_numeral)
qed

end
