(* ===== verification/Price_Table.thy ===== *)
theory Price_Table
  imports Pricing
begin

text \<open>
  Which price applies: the catalog (\<open>shared/catalog.ts\<close>), the \<open>llm.model_prices\<close>
  table as the api loads and caches it (\<open>api/src/lib/pricing.ts\<close>), \<open>pickPrice\<close>
  (\<open>shared/pricing.ts\<close>) and \<open>priceUsage\<close>.  The locale \<open>price_list\<close> is the contract
  pricing relies on: the row handed out is the newest one already in effect.
\<close>

section \<open>The catalog\<close>

text \<open>Reading a property of a plain object: an own entry, or a member of
  \<open>Object.prototype\<close> (Deno removes \<open>__proto__\<close>), or \<open>undefined\<close>.\<close>

datatype 'a property = Own 'a | Inherited | Absent

definition object_prototype :: "string list" where
  "object_prototype =
     [''constructor'', ''__defineGetter__'', ''__defineSetter__'', ''hasOwnProperty'',
      ''__lookupGetter__'', ''__lookupSetter__'', ''isPrototypeOf'', ''propertyIsEnumerable'',
      ''toString'', ''valueOf'', ''toLocaleString'']"

definition get_property :: "(string \<times> 'a) list \<Rightarrow> string \<Rightarrow> 'a property" where
  "get_property obj name =
     (case map_of obj name of Some v \<Rightarrow> Own v
      | None \<Rightarrow> if name \<in> set object_prototype then Inherited else Absent)"

type_synonym catalog = "(string \<times> model_entry) list"

datatype auth_style = X_api_key | Bearer | Both

record provider_entry =
  base_url :: string
  auth_style :: auth_style
  api_key_env_var :: string
  allowed_paths :: "string list"
  strip_path_prefix :: "string option"
  upstream_headers :: "(string \<times> string) list option"

definition get_provider :: "(string \<times> provider_entry) list \<Rightarrow> string \<Rightarrow> provider_entry property" where
  "get_provider providers slug = get_property providers slug"

definition get_model :: "catalog \<Rightarrow> string \<Rightarrow> model_entry property" where
  "get_model models slug = get_property models slug"

lemma get_property_Own_iff: "get_property obj name = Own v \<longleftrightarrow> map_of obj name = Some v"
  by (auto simp: get_property_def split: option.splits)

section \<open>Loading the price table\<close>

text \<open>A row of \<open>llm.model_prices\<close>; the rates are \<open>NUMERIC(12, 6)\<close>.\<close>

record price_db_row =
  mp_id :: uuid
  mp_model :: string
  mp_input :: rat
  mp_output :: rat
  mp_cache_read :: rat
  mp_cache_write :: rat
  mp_per_request :: rat
  mp_valid_from :: pg_time
  mp_source :: string
  mp_note :: "string option"
  mp_created_by :: "string option"
  mp_created_at :: pg_time

definition to_stored :: "price_db_row \<Rightarrow> stored_price" where
  "to_stored r =
     \<lparr>input_cost_per_mtok_usd = fl (mp_input r), output_cost_per_mtok_usd = fl (mp_output r),
      cache_read_cost_per_mtok_usd = Some (fl (mp_cache_read r)),
      cache_write_cost_per_mtok_usd = Some (fl (mp_cache_write r)),
      per_request_cost_usd = Some (fl (mp_per_request r)), long_context = None,
      row_id = mp_id r, row_model = mp_model r, valid_from = js_date (mp_valid_from r),
      price_source = mp_source r, price_note = mp_note r, price_created_by = mp_created_by r,
      price_created_at = js_date (mp_created_at r)\<rparr>"

text \<open>\<open>SELECT ... ORDER BY model, valid_from DESC\<close>.  Rows with equal \<open>valid_from\<close> come in
  an order of the server's choosing, here any ranking.  The order between models does
  not matter: the rows are grouped by model next.\<close>

definition price_query :: "(price_db_row \<Rightarrow> int) \<Rightarrow> price_db_row list \<Rightarrow> price_db_row list" where
  "price_query rank rows = sort_key (\<lambda>r. - mp_valid_from r) (sort_key rank rows)"

type_synonym 'p price_map = "string \<Rightarrow> 'p list option"

definition push_price :: "stored_price price_map \<Rightarrow> price_db_row \<Rightarrow> stored_price price_map" where
  "push_price table r = table(mp_model r \<mapsto> or_else (table (mp_model r)) [] @ [to_stored r])"

definition load_prices :: "price_db_row list \<Rightarrow> stored_price price_map" where
  "load_prices rows = foldl push_price Map.empty rows"

lemma foldl_push_price:
  "or_else (foldl push_price table rows m) [] =
     or_else (table m) [] @ map to_stored (filter (\<lambda>r. mp_model r = m) rows)"
  by (induction rows arbitrary: table) (auto simp: push_price_def)

lemma load_prices_lookup:
  "or_else (load_prices rows m) [] = map to_stored (filter (\<lambda>r. mp_model r = m) rows)"
  by (simp add: load_prices_def foldl_push_price)

lemma set_price_query [simp]: "set (price_query rank rows) = set rows"
  by (simp add: price_query_def)

lemma sorted_price_query: "sorted_wrt (\<lambda>a b. mp_valid_from b \<le> mp_valid_from a) (price_query rank rows)"
proof -
  have "sorted (map (\<lambda>r. - mp_valid_from r) (price_query rank rows))"
    by (simp add: price_query_def)
  then show ?thesis by (simp add: sorted_map)
qed

section \<open>The row in effect\<close>

definition pick_price :: "'p price_row_scheme price_map \<Rightarrow> string \<Rightarrow> js_time \<Rightarrow> 'p price_row_scheme option" where
  "pick_price table model when =
     (case table model of Some ps \<Rightarrow> find (\<lambda>p. valid_from p \<le> when) ps | None \<Rightarrow> None)"

lemma pick_price_find: "pick_price table m when = find (\<lambda>p. valid_from p \<le> when) (or_else (table m) [])"
  by (simp add: pick_price_def split: option.splits)

locale price_list =
  fixes pick :: "string \<Rightarrow> js_time \<Rightarrow> stored_price option"
    and stored :: "stored_price set"
  assumes pick_sound: "pick m t = Some p \<Longrightarrow> p \<in> stored \<and> row_model p = m \<and> valid_from p \<le> t"
    and pick_newest: "pick m t = Some p \<Longrightarrow> q \<in> stored \<Longrightarrow> row_model q = m \<Longrightarrow>
       valid_from q \<le> t \<Longrightarrow> valid_from q \<le> valid_from p"
    and pick_complete: "pick m t = None \<Longrightarrow> q \<in> stored \<Longrightarrow> row_model q = m \<Longrightarrow> t < valid_from q"
begin

text \<open>A later clock never goes back to an older price.\<close>

lemma pick_later:
  assumes "pick m t = Some p" "t \<le> t'"
  shows "\<exists>q. pick m t' = Some q \<and> valid_from p \<le> valid_from q"
proof -
  have p: "p \<in> stored" "row_model p = m" "valid_from p \<le> t'" using pick_sound[OF assms(1)] assms(2) by auto
  then obtain q where q: "pick m t' = Some q" using pick_complete[of m t' p] by (cases "pick m t'") auto
  then show ?thesis using pick_newest[OF q p] by blast
qed

text \<open>Between two instants with no row starting in between the price does not move.\<close>

lemma pick_stable:
  assumes "pick m t = Some p" "pick m t' = Some q" "t \<le> t'"
    and "\<And>r. r \<in> stored \<Longrightarrow> row_model r = m \<Longrightarrow> t < valid_from r \<Longrightarrow> t' < valid_from r"
  shows "valid_from q = valid_from p"
proof -
  have q: "q \<in> stored" "row_model q = m" "valid_from q \<le> t'" using pick_sound[OF assms(2)] by auto
  then have "valid_from q \<le> t" using assms(4)[of q] by linarith
  then have "valid_from q \<le> valid_from p" using pick_newest[OF assms(1) q(1,2)] by blast
  moreover have "valid_from p \<le> valid_from q"
    using pick_later[OF assms(1,3)] assms(2) by auto
  ultimately show ?thesis by simp
qed

lemma pick_unique:
  assumes "p \<in> stored" "row_model p = m" "valid_from p \<le> t"
    and "\<And>q. q \<in> stored \<Longrightarrow> row_model q = m \<Longrightarrow> valid_from q \<le> t \<Longrightarrow> q \<noteq> p \<Longrightarrow> valid_from q < valid_from p"
  shows "pick m t = Some p"
proof (cases "pick m t")
  case None
  then show ?thesis using pick_complete[OF None assms(1,2)] assms(3) by simp
next
  case (Some q)
  then have "q \<in> stored \<and> row_model q = m \<and> valid_from q \<le> t" "valid_from p \<le> valid_from q"
    using pick_sound[OF Some] pick_newest[OF Some assms(1-3)] by auto
  then have "q = p" using assms(4)[of q] by force
  then show ?thesis using Some by simp
qed

end

lemma loaded_sorted:
  "sorted_wrt (\<lambda>p q. valid_from q \<le> valid_from p)
     (or_else (load_prices (price_query rank rows) m) [])"
proof -
  have "sorted_wrt (\<lambda>a b. mp_valid_from b \<le> mp_valid_from a)
      (filter (\<lambda>r. mp_model r = m) (price_query rank rows))"
    using sorted_price_query by (rule sorted_wrt_filter)
  then show ?thesis unfolding load_prices_lookup sorted_wrt_map
    by (rule sorted_wrt_mono_rel[rotated]) (simp add: to_stored_def js_date_mono)
qed

lemma loaded_set:
  "set (or_else (load_prices (price_query rank rows) m) []) =
     {p \<in> to_stored ` set rows. row_model p = m}"
  by (auto simp: load_prices_lookup to_stored_def)

text \<open>The loaded table keeps the contract, however the server breaks ties.\<close>

interpretation loaded: price_list
  "pick_price (load_prices (price_query rank rows))" "to_stored ` set rows" for rank rows
proof unfold_locales
  fix m t p q
  let ?ps = "or_else (load_prices (price_query rank rows) m) []"
  {
    assume "pick_price (load_prices (price_query rank rows)) m t = Some p"
    then have f: "find (\<lambda>p. valid_from p \<le> t) ?ps = Some p" by (simp add: pick_price_find)
    show "p \<in> to_stored ` set rows \<and> row_model p = m \<and> valid_from p \<le> t"
      using find_SomeD[OF f] loaded_set by auto
    assume "q \<in> to_stored ` set rows" "row_model q = m" "valid_from q \<le> t"
    then show "valid_from q \<le> valid_from p"
      using find_sorted_first[OF loaded_sorted f, of q] loaded_set[of rank rows m] by auto
  }
  {
    assume "pick_price (load_prices (price_query rank rows)) m t = None"
      and "q \<in> to_stored ` set rows" "row_model q = m"
    then show "t < valid_from q"
      using loaded_set[of rank rows m] by (force simp: pick_price_find find_None_iff_all)
  }
qed

section \<open>Pricing a usage row\<close>

record priced =
  cost_usd :: "js_num option"
  price_id :: "uuid option"

text \<open>A member of \<open>Object.prototype\<close> stands where the catalog entry should be: a function, which has
  none of the rates.  \<open>computeCostUsd\<close> on rates that may be missing, in the arithmetic of numbers
  that may be \<open>NaN\<close>: a missing operand counts as \<open>NaN\<close>.\<close>

fun num_op :: "(rat \<Rightarrow> rat \<Rightarrow> rat) \<Rightarrow> rat option \<Rightarrow> rat option \<Rightarrow> rat option" where
  "num_op f (Some x) (Some y) = Some (f x y)"
| "num_op f _ _ = None"

record loose_rates =
  lr_input :: "rat option"
  lr_output :: "rat option"
  lr_cache_read :: "rat option"
  lr_cache_write :: "rat option"
  lr_per_request :: "rat option"

definition loose_cost :: "loose_rates \<Rightarrow> 'u norm_usage_scheme \<Rightarrow> js_num" where
  "loose_cost r u =
     (let read = (case lr_cache_read r of Some x \<Rightarrow> Some x | None \<Rightarrow> num_op js_mul (lr_input r) (Some (fl (1/10))));
          written = (case lr_cache_write r of Some x \<Rightarrow> Some x | None \<Rightarrow> num_op js_mul (lr_input r) (Some (fl (5/4))));
          tokens = num_op js_add (num_op js_add (num_op js_add
              (num_op js_mul (Some (input_tokens u)) (lr_input r))
              (num_op js_mul (Some (output_tokens u)) (lr_output r)))
              (num_op js_mul (Some (cache_read_tokens u)) read))
              (num_op js_mul (Some (cache_write_tokens u)) written)
      in case num_op js_add (Some (or_else (lr_per_request r) 0)) (num_op js_div tokens (Some 1000000)) of
           Some c \<Rightarrow> Fin c | None \<Rightarrow> NaN)"

definition function_rates :: loose_rates where
  "function_rates = \<lparr>lr_input = None, lr_output = None, lr_cache_read = None, lr_cache_write = None, lr_per_request = None\<rparr>"

text \<open>With all rates there it is the cost below any tier.\<close>

lemma loose_cost_rates:
  assumes "long_context m = None"
  shows "loose_cost \<lparr>lr_input = Some (input_cost_per_mtok_usd m), lr_output = Some (output_cost_per_mtok_usd m),
      lr_cache_read = cache_read_cost_per_mtok_usd m, lr_cache_write = cache_write_cost_per_mtok_usd m,
      lr_per_request = per_request_cost_usd m\<rparr> u = Fin (compute_cost_usd m u)"
  using assms
  by (simp add: loose_cost_def compute_cost_usd_def token_cost_def selected_rates_def read_rate_def write_rate_def
      or_else_def Let_def split: option.split)

definition price_usage ::
  "catalog \<Rightarrow> 'p price_row_scheme price_map \<Rightarrow> string \<Rightarrow> js_time \<Rightarrow> 'u norm_usage_scheme \<Rightarrow> priced" where
  "price_usage models table model when u =
     (case pick_price table model when of
        Some row \<Rightarrow> \<lparr>cost_usd = Some (Fin (compute_cost_usd row u)), price_id = Some (row_id row)\<rparr>
      | None \<Rightarrow>
          (case get_model models model of
             Own entry \<Rightarrow> \<lparr>cost_usd = Some (Fin (compute_cost_usd entry u)), price_id = None\<rparr>
           | Inherited \<Rightarrow> \<lparr>cost_usd = Some (loose_cost function_rates u), price_id = None\<rparr>
           | Absent \<Rightarrow> \<lparr>cost_usd = None, price_id = None\<rparr>))"

section \<open>The cached table\<close>

text \<open>The module's \<open>cache\<close>: the table and when it was loaded.  \<open>Date.now()\<close> is read again
  after the query, so a load takes the rows and the clock after it.\<close>

type_synonym price_cache = "(stored_price price_map \<times> js_time) option"

definition reload_price_table ::
  "price_db_row list \<Rightarrow> js_time \<Rightarrow> stored_price price_map \<times> price_cache" where
  "reload_price_table rows loaded_at =
     (let t = load_prices rows in (t, Some (t, loaded_at)))"

definition price_table ::
  "price_cache \<Rightarrow> js_time \<Rightarrow> price_db_row list \<Rightarrow> js_time \<Rightarrow> stored_price price_map \<times> price_cache" where
  "price_table cache now rows loaded_at =
     (case cache of
        None \<Rightarrow> reload_price_table rows loaded_at
      | Some (t, when) \<Rightarrow> if 30000 < now - when then reload_price_table rows loaded_at else (t, cache))"

definition clear_price_cache :: "price_cache \<Rightarrow> price_cache" where
  "clear_price_cache cache = None"

text \<open>A cache that some past load filled: \<open>history\<close> gives the rows of the table at each
  instant, and the load read one instant before it was stamped.\<close>

definition cache_ok :: "(js_time \<Rightarrow> price_db_row list) \<Rightarrow> price_cache \<Rightarrow> bool" where
  "cache_ok history cache \<longleftrightarrow>
     (\<forall>t when. cache = Some (t, when) \<longrightarrow> (\<exists>s\<le>when. t = load_prices (history s)))"

lemma cache_ok_clear: "cache_ok h (clear_price_cache c)"
  by (simp add: cache_ok_def clear_price_cache_def)

lemma price_table_cache_ok:
  assumes "cache_ok h c" "s \<le> loaded_at" "price_table c now (h s) loaded_at = (t, c')"
  shows "cache_ok h c'"
  using assms
  by (auto simp: price_table_def reload_price_table_def cache_ok_def Let_def split: option.splits if_splits)

lemma price_table_fresh:
  assumes "cache_ok h c" "now \<le> s" "s \<le> loaded_at" "price_table c now (h s) loaded_at = (t, c')"
  shows "\<exists>r when. t = load_prices (h r) \<and> r \<le> when \<and> now - when \<le> 30000 \<and> c' = Some (t, when)"
proof (cases "t = load_prices (h s) \<and> c' = Some (t, loaded_at)")
  case True
  then show ?thesis using assms(2,3) by (intro exI[of _ s] exI[of _ loaded_at]) auto
next
  case False
  then have c: "c = Some (t, snd (the c))" "c' = c" "now - snd (the c) \<le> 30000"
    using assms(4)
    by (auto simp: price_table_def reload_price_table_def Let_def split: option.splits if_splits)
  then obtain r where "r \<le> snd (the c)" "t = load_prices (h r)"
    using assms(1) unfolding cache_ok_def by metis
  then show ?thesis using c by metis
qed

end
