(* ===== verification/Js_Parse.thy ===== *)
theory Js_Parse
  imports Js_Value
begin

text \<open>
  \<open>Number(text)\<close>: the conversion of form fields and query parameters.  Blank text is
  \<open>0\<close>; binary, octal and hexadecimal integers, \<open>Infinity\<close> with a sign and decimal
  literals with a fraction and an exponent are read; anything else is \<open>NaN\<close>.
\<close>

definition is_digit :: "char \<Rightarrow> bool" where
  "is_digit c = (let n = of_char c :: nat in 48 \<le> n \<and> n \<le> 57)"

definition base_value :: "nat \<Rightarrow> string \<Rightarrow> nat" where
  "base_value b s = foldl (\<lambda>a c. a * b + or_else (hex_val c) 0) 0 s"

definition valid_digit :: "nat \<Rightarrow> char \<Rightarrow> bool" where
  "valid_digit b c = (case hex_val c of Some d \<Rightarrow> d < b | None \<Rightarrow> False)"

definition radix_literal :: "nat \<Rightarrow> string \<Rightarrow> js_num" where
  "radix_literal b ds =
     (if ds \<noteq> [] \<and> list_all (valid_digit b) ds then to_num (of_nat (base_value b ds)) else NaN)"

text \<open>An optional exponent part; \<open>None\<close> when the rest of the text is not one.\<close>

definition exponent_part :: "string \<Rightarrow> int option" where
  "exponent_part s =
     (case s of
        [] \<Rightarrow> Some 0
      | c # r \<Rightarrow>
          if c = CHR ''e'' \<or> c = CHR ''E'' then
            (let neg = starts_with ''-'' r;
                 ds = (if neg \<or> starts_with ''+'' r then tl r else r)
             in if ds \<noteq> [] \<and> list_all is_digit ds
                then Some (if neg then - int (base_value 10 ds) else int (base_value 10 ds))
                else None)
          else None)"

definition decimal_literal :: "string \<Rightarrow> rat option" where
  "decimal_literal s =
     (let ip = takeWhile is_digit s;
          r1 = dropWhile is_digit s;
          dotted = starts_with ''.'' r1;
          fp = (if dotted then takeWhile is_digit (tl r1) else []);
          r2 = (if dotted then dropWhile is_digit (tl r1) else r1)
      in if ip = [] \<and> fp = [] then None
         else case exponent_part r2 of
                Some e \<Rightarrow> Some (of_nat (base_value 10 (ip @ fp)) * 10 powi (e - int (length fp)))
              | None \<Rightarrow> None)"

definition js_number :: "string \<Rightarrow> js_num" where
  "js_number text =
     (let s = js_trim text; low = to_lower s in
      if s = [] then Fin 0
      else if starts_with ''0x'' low then radix_literal 16 (drop 2 s)
      else if starts_with ''0o'' low then radix_literal 8 (drop 2 s)
      else if starts_with ''0b'' low then radix_literal 2 (drop 2 s)
      else
        (let neg = starts_with ''-'' s;
             u = (if neg \<or> starts_with ''+'' s then tl s else s)
         in if u = ''Infinity'' then Infinity neg
            else case decimal_literal u of
                   Some x \<Rightarrow> to_num (if neg then - x else x)
                 | None \<Rightarrow> NaN))"

lemma js_number_Nil [simp]: "js_number [] = Fin 0"
  by (simp add: js_number_def)

lemma to_num_double: "to_num x = Fin y \<Longrightarrow> is_double y"
  by (auto simp: to_num_def split: if_splits)

lemma js_number_double: "js_number s = Fin x \<Longrightarrow> is_double x"
  by (auto simp: js_number_def radix_literal_def Let_def
      split: if_splits option.splits dest: to_num_double)

end
