(* ===== verification/Price_List.thy ===== *)
theory Price_List
  imports Price_Table Js_Parse
begin

text \<open>
  \<open>shared/prices.ts\<close>: what ingest charges for a model at a given time, and the
  validation of a new \<open>llm.model_prices\<close> row.
\<close>

section \<open>The effective price\<close>

record full_rates =
  input_rate :: rat
  output_rate :: rat
  cache_read_rate :: rat
  cache_write_rate :: rat
  per_request_rate :: rat

text \<open>\<open>Effective\<close>: a database row, or the catalog with the flag that its cache rates are
  derived.  A catalog \<open>entry\<close> that is an inherited property has \<open>undefined\<close> rates.\<close>

datatype effective =
    Eff_db string bool full_rates stored_price
  | Eff_catalog string bool full_rates bool
  | Eff_undefined string

definition row_rates :: "stored_price \<Rightarrow> full_rates" where
  "row_rates row =
     \<lparr>input_rate = input_cost_per_mtok_usd row, output_rate = output_cost_per_mtok_usd row,
      cache_read_rate = or_else (cache_read_cost_per_mtok_usd row) 0,
      cache_write_rate = or_else (cache_write_cost_per_mtok_usd row) 0,
      per_request_rate = or_else (per_request_cost_usd row) 0\<rparr>"

definition entry_rates :: "'m rates_scheme \<Rightarrow> full_rates" where
  "entry_rates entry =
     \<lparr>input_rate = input_cost_per_mtok_usd entry, output_rate = output_cost_per_mtok_usd entry,
      cache_read_rate = read_rate (token_rates.truncate entry),
      cache_write_rate = write_rate (token_rates.truncate entry),
      per_request_rate = or_else (per_request_cost_usd entry) 0\<rparr>"

text \<open>\<open>None\<close>: the model is in neither place and reading \<open>entry.long_context\<close> throws.\<close>

definition effective_price ::
  "catalog \<Rightarrow> stored_price price_map \<Rightarrow> string \<Rightarrow> js_time \<Rightarrow> effective option" where
  "effective_price models table model when =
     (case get_model models model of
        Absent \<Rightarrow> None
      | Own entry \<Rightarrow>
          Some (case pick_price table model when of
                  Some row \<Rightarrow> Eff_db model (long_context entry \<noteq> None) (row_rates row) row
                | None \<Rightarrow> Eff_catalog model (long_context entry \<noteq> None) (entry_rates entry)
                    (cache_read_cost_per_mtok_usd entry = None \<or> cache_write_cost_per_mtok_usd entry = None))
      | Inherited \<Rightarrow>
          Some (case pick_price table model when of
                  Some row \<Rightarrow> Eff_db model False (row_rates row) row
                | None \<Rightarrow> Eff_undefined model))"

fun effective_rates :: "effective \<Rightarrow> full_rates option" where
  "effective_rates (Eff_db _ _ r _) = Some r"
| "effective_rates (Eff_catalog _ _ r _) = Some r"
| "effective_rates (Eff_undefined _) = None"

text \<open>The price list and ingest agree: what \<open>effectivePrice\<close> shows is what
  \<open>priceUsage\<close> charges for a request below any long-context tier.\<close>

definition rates_of :: "full_rates \<Rightarrow> rates" where
  "rates_of f =
     \<lparr>input_cost_per_mtok_usd = input_rate f, output_cost_per_mtok_usd = output_rate f,
      cache_read_cost_per_mtok_usd = Some (cache_read_rate f),
      cache_write_cost_per_mtok_usd = Some (cache_write_rate f),
      per_request_cost_usd = Some (per_request_rate f), long_context = None\<rparr>"

lemma token_cost_cong:
  assumes "input_cost_per_mtok_usd r = input_cost_per_mtok_usd s"
    "output_cost_per_mtok_usd r = output_cost_per_mtok_usd s"
    "read_rate r = read_rate s" "write_rate r = write_rate s"
  shows "token_cost r u = token_cost s u"
  using assms by (simp add: token_cost_def)

lemma cost_entry_rates:
  assumes "case long_context e of None \<Rightarrow> True | Some t \<Rightarrow> prompt_tokens u \<le> above_prompt_tokens t"
  shows "compute_cost_usd (rates_of (entry_rates e)) u = compute_cost_usd e u"
proof -
  have sel: "selected_rates e (prompt_tokens u) = token_rates.truncate e"
    using assms by (auto simp: selected_rates_def split: option.splits)
  have "token_cost (selected_rates (rates_of (entry_rates e)) (prompt_tokens u)) u =
      token_cost (token_rates.truncate e) u"
    by (rule token_cost_cong)
      (simp_all add: selected_rates_def rates_of_def entry_rates_def read_rate_def write_rate_def)
  then show ?thesis by (simp add: compute_cost_usd_def sel) (simp add: rates_of_def entry_rates_def)
qed

section \<open>Validation of a new row\<close>

record new_price = full_rates +
  np_model :: string
  np_valid_from :: "js_time option"
  np_source :: string
  np_note :: "string option"

datatype price_error =
    Not_catalog_model
  | Long_context_model string
  | Rate_required string
  | Rate_out_of_range string
  | Bad_valid_from
  | Source_required

definition max_rate :: rat where "max_rate = 999999"

definition parse_rate :: "string \<Rightarrow> string \<Rightarrow> price_error + rat" where
  "parse_rate name raw =
     (if raw = [] then Inl (Rate_required name)
      else case js_number raw of
             Fin n \<Rightarrow> if n < 0 \<or> max_rate < n then Inl (Rate_out_of_range name) else Inr n
           | _ \<Rightarrow> Inl (Rate_out_of_range name))"

type_synonym form = "string \<rightharpoonup> string"

definition field :: "form \<Rightarrow> string \<Rightarrow> string" where
  "field form name = js_trim (or_else (form name) [])"

text \<open>\<open>YYYY-MM-DDTHH:MM\<close> with optional seconds: a \<open>datetime-local\<close> value, read as UTC.\<close>

definition datetime_local :: "string \<Rightarrow> bool" where
  "datetime_local s =
     (length s \<in> {16, 19} \<and>
      (\<forall>i\<in>set [0..<length s].
         if i \<in> {4, 7} then s ! i = CHR ''-''
         else if i = 10 then s ! i = CHR ''T''
         else if i \<in> {13, 16} then s ! i = CHR '':''
         else is_digit (s ! i)))"

text \<open>\<open>parse_date\<close> is the \<open>Date\<close> constructor on text, whose accepted formats beyond ISO
  8601 are the engine's; \<open>None\<close> is an invalid date.\<close>

definition parse_valid_from :: "(string \<Rightarrow> js_time option) \<Rightarrow> string \<Rightarrow> price_error + js_time option" where
  "parse_valid_from parse_date raw =
     (if raw = [] then Inr None
      else case parse_date (if datetime_local raw then raw @ ''Z'' else raw) of
             Some d \<Rightarrow> Inr (Some d)
           | None \<Rightarrow> Inl Bad_valid_from)"

definition check_model :: "catalog \<Rightarrow> string \<Rightarrow> price_error option" where
  "check_model models model =
     (case get_model models model of
        Absent \<Rightarrow> Some Not_catalog_model
      | Inherited \<Rightarrow> None
      | Own entry \<Rightarrow> if long_context entry \<noteq> None then Some (Long_context_model model) else None)"

definition parse_price_form ::
  "(string \<Rightarrow> js_time option) \<Rightarrow> catalog \<Rightarrow> form \<Rightarrow> price_error + new_price" where
  "parse_price_form parse_date models form =
     (let model = field form ''model'' in
      case check_model models model of Some e \<Rightarrow> Inl e | None \<Rightarrow>
      case parse_rate ''input_cost_per_mtok_usd'' (field form ''input_cost_per_mtok_usd'') of Inl e \<Rightarrow> Inl e | Inr i \<Rightarrow>
      case parse_rate ''output_cost_per_mtok_usd'' (field form ''output_cost_per_mtok_usd'') of Inl e \<Rightarrow> Inl e | Inr ou \<Rightarrow>
      case parse_rate ''cache_read_cost_per_mtok_usd'' (field form ''cache_read_cost_per_mtok_usd'') of Inl e \<Rightarrow> Inl e | Inr r \<Rightarrow>
      case parse_rate ''cache_write_cost_per_mtok_usd'' (field form ''cache_write_cost_per_mtok_usd'') of Inl e \<Rightarrow> Inl e | Inr w \<Rightarrow>
      case (if field form ''per_request_cost_usd'' = [] then Inr 0
            else parse_rate ''per_request_cost_usd'' (field form ''per_request_cost_usd'')) of Inl e \<Rightarrow> Inl e | Inr p \<Rightarrow>
      case parse_valid_from parse_date (field form ''valid_from'') of Inl e \<Rightarrow> Inl e | Inr vf \<Rightarrow>
      if field form ''source'' = [] then Inl Source_required
      else Inr \<lparr>input_rate = i, output_rate = ou, cache_read_rate = r, cache_write_rate = w,
                per_request_rate = p, np_model = model, np_valid_from = vf,
                np_source = field form ''source'',
                np_note = (if field form ''note'' = [] then None else Some (field form ''note''))\<rparr>)"

definition rate_in_range :: "rat \<Rightarrow> bool" where
  "rate_in_range x \<longleftrightarrow> is_double x \<and> 0 \<le> x \<and> x \<le> max_rate"

definition full_rates_in_range :: "'f full_rates_scheme \<Rightarrow> bool" where
  "full_rates_in_range f \<longleftrightarrow> rate_in_range (input_rate f) \<and> rate_in_range (output_rate f) \<and>
     rate_in_range (cache_read_rate f) \<and> rate_in_range (cache_write_rate f) \<and>
     rate_in_range (per_request_rate f)"

lemma parse_rate_Inr: "parse_rate name raw = Inr x \<Longrightarrow> rate_in_range x"
  by (auto simp: parse_rate_def rate_in_range_def split: if_splits js_num.splits
      dest: js_number_double)

lemma parse_price_form_Inr:
  assumes "parse_price_form parse_date models form = Inr p"
  shows "full_rates_in_range p" "np_source p \<noteq> []" "np_model p = field form ''model''"
    "check_model models (np_model p) = None"
  using assms
  by (auto simp: parse_price_form_def full_rates_in_range_def rate_in_range_def[of 0] max_rate_def
      Let_def split: option.splits sum.splits if_splits dest: parse_rate_Inr)

end
