(* ===== verification/Claims_Pricing.thy ===== *)
theory Claims_Pricing
  imports Cost_Accuracy Price_List
begin

text \<open>
  What pricing guarantees: the cost of a request, the price row it is taken from, the
  age of the cached table, and the price list the admin app and the internal api show.
\<close>

section \<open>Costs\<close>

text \<open>Property C22.  The cost computed on doubles is the exact bill up to a relative error of
  eight roundings, for every price of at least \<open>2^-20\<close> dollars (or zero) and every token
  count a double can hold; the long-context tier is chosen exactly.\<close>

theorem compute_cost_accurate:
  assumes "Cost_Accuracy.priced m" "counted u"
  shows "exact_cost m u * (1 - ulp) ^ 8 \<le> compute_cost_usd m u \<and>
    compute_cost_usd m u \<le> exact_cost m u * (1 + ulp) ^ 8"
  using compute_cost_approx[OF assms] by (simp add: approx_def)

definition sample_rates :: rates where
  "sample_rates = \<lparr>input_cost_per_mtok_usd = 3, output_cost_per_mtok_usd = 15,
     cache_read_cost_per_mtok_usd = None, cache_write_cost_per_mtok_usd = Some (15/4),
     per_request_cost_usd = None, long_context = Some \<lparr>input_cost_per_mtok_usd = 6,
       output_cost_per_mtok_usd = 45/2, cache_read_cost_per_mtok_usd = None,
       cache_write_cost_per_mtok_usd = Some (15/2), above_prompt_tokens = 200000\<rparr>\<rparr>"

definition sample_usage :: "nat \<Rightarrow> norm_usage" where
  "sample_usage n = \<lparr>input_tokens = of_nat n, output_tokens = 500, cache_read_tokens = 0,
     cache_write_tokens = 0\<rparr>"

lemma sample_counted: "n < 2 ^ 53 \<Longrightarrow> counted (sample_usage n)"
  unfolding counted_def sample_usage_def
  by (intro exI[of _ n] exI[of _ 500] exI[of _ 0]) simp

lemma sample_priced: "Cost_Accuracy.priced sample_rates"
  by (simp add: Cost_Accuracy.priced_def priced_rates_def floored_def sample_rates_def power_int_minus)

theorem compute_cost_accurate_witness:
  "exact_cost sample_rates (sample_usage 1000) = 21/2000 \<and>
   21/2000 * (1 - ulp) ^ 8 \<le> compute_cost_usd sample_rates (sample_usage 1000)"
proof -
  have e: "exact_cost sample_rates (sample_usage 1000) = 21/2000"
    by (simp add: exact_cost_def exact_token_cost_def sample_rates_def sample_usage_def)
  have "exact_cost sample_rates (sample_usage 1000) * (1 - ulp) ^ 8 \<le> compute_cost_usd sample_rates (sample_usage 1000)"
    using compute_cost_accurate[OF sample_priced sample_counted[of 1000]] by simp
  then show ?thesis unfolding e by simp
qed

text \<open>With rates that are not negative, and a long-context tier that is not cheaper
  than the base rates, more tokens never cost less, and no cost is negative.\<close>

theorem compute_cost_monotone:
  assumes "rates_ok m" "tier_ok m" "usage_ok u" "usage_le u v"
  shows "0 \<le> compute_cost_usd m u \<and> compute_cost_usd m u \<le> compute_cost_usd m v"
  using compute_cost_nonneg[OF assms(1,3)] compute_cost_mono[OF assms] by simp

theorem compute_cost_monotone_witness:
  "compute_cost_usd sample_rates (sample_usage 1000) \<le>
   compute_cost_usd sample_rates (sample_usage 300000)"
proof -
  have "tier_ok sample_rates" unfolding tier_ok_def effective_le_def sample_rates_def by code_simp
  moreover have "rates_ok sample_rates" by (simp add: rates_ok_def token_rates_ok_def sample_rates_def)
  ultimately show ?thesis
    using compute_cost_monotone[of sample_rates "sample_usage 1000" "sample_usage 300000"]
    by (simp add: usage_ok_def usage_le_def sample_usage_def)
qed

section \<open>The price in effect\<close>

lemma to_stored_simps [simp]:
  "row_model (to_stored r) = mp_model r" "valid_from (to_stored r) = js_date (mp_valid_from r)"
  "row_id (to_stored r) = mp_id r"
  by (simp_all add: to_stored_def)

text \<open>Property C26.  However the server orders rows of equal \<open>valid_from\<close>, the row picked for a model
  at a time is a stored row of that model already in effect, and none in effect is newer;
  nothing is picked only when no row of the model is in effect yet.\<close>

theorem price_in_effect:
  "case pick_price (load_prices (price_query rank rows)) m t of
     Some p \<Rightarrow> \<exists>r\<in>set rows. p = to_stored r \<and> mp_model r = m \<and> js_date (mp_valid_from r) \<le> t \<and>
       (\<forall>q\<in>set rows. mp_model q = m \<longrightarrow> js_date (mp_valid_from q) \<le> t \<longrightarrow>
          js_date (mp_valid_from q) \<le> js_date (mp_valid_from r))
   | None \<Rightarrow> \<forall>q\<in>set rows. mp_model q = m \<longrightarrow> t < js_date (mp_valid_from q)"
proof (cases "pick_price (load_prices (price_query rank rows)) m t")
  case None
  have "t < js_date (mp_valid_from q)" if "q \<in> set rows" "mp_model q = m" for q
    using loaded.pick_complete[OF None imageI[OF that(1)]] that(2) by simp
  then show ?thesis by (simp add: None)
next
  case (Some p)
  obtain r where r: "r \<in> set rows" "p = to_stored r" "mp_model r = m" "js_date (mp_valid_from r) \<le> t"
    using loaded.pick_sound[OF Some] by auto
  have "js_date (mp_valid_from q) \<le> js_date (mp_valid_from r)"
    if "q \<in> set rows" "mp_model q = m" "js_date (mp_valid_from q) \<le> t" for q
    using loaded.pick_newest[OF Some imageI[OF that(1)]] that r(2) by simp
  then show ?thesis using r by (auto simp: Some)
qed

definition sample_row :: "uuid \<Rightarrow> rat \<Rightarrow> pg_time \<Rightarrow> price_db_row" where
  "sample_row i rate from = \<lparr>mp_id = i, mp_model = ''m'', mp_input = rate, mp_output = 2, mp_cache_read = 0,
     mp_cache_write = 0, mp_per_request = 0, mp_valid_from = from, mp_source = ''manual'',
     mp_note = None, mp_created_by = None, mp_created_at = 0\<rparr>"

theorem price_in_effect_witness:
  "\<exists>p. pick_price (load_prices (price_query (\<lambda>_. 0) [sample_row 1 1 1000, sample_row 2 3 9000])) ''m'' 9 = Some p \<and>
     row_id p = 2"
  using price_in_effect[where rank = "\<lambda>_. 0" and rows = "[sample_row 1 1 1000, sample_row 2 3 9000]"
      and m = "''m''" and t = 9]
  by (auto simp: sample_row_def js_date_def split: option.splits)

text \<open>A price table handed to ingest was read from the database no more than 30 seconds
  before the request for it: \<open>history\<close> is the table of rows at each instant, and the cache only ever
  holds what some load stored.\<close>

theorem price_table_staleness:
  assumes "cache_ok history cache" "now \<le> read_at" "read_at \<le> stamped"
    and "price_table cache now (history read_at) stamped = (table, cache')"
  shows "cache_ok history cache' \<and>
    (\<exists>r when. table = load_prices (history r) \<and> r \<le> when \<and> now - when \<le> 30000 \<and> cache' = Some (table, when))"
  using price_table_cache_ok[OF assms(1,3,4)] price_table_fresh[OF assms] by simp

theorem price_table_staleness_witness:
  "\<exists>r when. load_prices [] = load_prices ((\<lambda>t. if t < (5::int) then [] else [sample_row 1 1 0]) r) \<and> r \<le> when \<and>
     20 - when \<le> (30000::int)"
proof -
  let ?h = "\<lambda>t::int. if t < 5 then [] else [sample_row 1 1 0]"
  have "cache_ok ?h (Some (load_prices [], 4))"
    by (auto simp: cache_ok_def intro: exI[of _ 4])
  moreover have "price_table (Some (load_prices [], 4)) 20 (?h 20) 21 =
      (load_prices [], Some (load_prices [], 4))"
    by (simp add: price_table_def)
  ultimately have "\<exists>r when. load_prices [] = load_prices (?h r) \<and> r \<le> when \<and> 20 - when \<le> 30000 \<and>
      Some (load_prices [], 4) = Some (load_prices [], when)"
    using price_table_staleness[of ?h "Some (load_prices [], 4)" 20 20 21 "load_prices []"] by simp
  then show ?thesis by blast
qed

section \<open>Pricing a usage row and showing a price\<close>

text \<open>Property C27.  The price list agrees with ingest: for a model with a catalog entry, the full rates
  \<open>effectivePrice\<close> shows cost exactly what \<open>priceUsage\<close> charges, as long as the prompt is
  not past the entry's long-context tier.\<close>

theorem shown_price_is_charged:
  assumes "get_model models m = Own entry" "effective_price models table m t = Some e" "effective_rates e = Some f"
    and "case long_context entry of None \<Rightarrow> True | Some tier \<Rightarrow> prompt_tokens u \<le> above_prompt_tokens tier"
    and "\<forall>p. pick_price table m t = Some p \<longrightarrow>
      long_context p = None \<and> cache_read_cost_per_mtok_usd p \<noteq> None \<and> cache_write_cost_per_mtok_usd p \<noteq> None"
  shows "cost_usd (price_usage models table m t u) = Some (Fin (compute_cost_usd (rates_of f) u))"
proof (cases "pick_price table m t")
  case None
  then show ?thesis
    using assms cost_entry_rates[where e = entry and u = u] by (auto simp: effective_price_def price_usage_def)
next
  case (Some p)
  have "compute_cost_usd (rates_of (row_rates p)) u = compute_cost_usd p u"
    using assms(5) Some
    by (auto simp: compute_cost_usd_def selected_rates_def rates_of_def row_rates_def
        intro!: arg_cong2[of _ _ _ _ js_add] token_cost_cong) (auto simp: read_rate_def write_rate_def)
  then show ?thesis using assms(1-3) Some by (auto simp: effective_price_def price_usage_def)
qed

definition sample_entry :: model_entry where
  "sample_entry = rates.extend sample_rates
     \<lparr>provider_slug = ''anthropic'', upstream_model_slug = None, request_overrides = None\<rparr>"

theorem shown_price_is_charged_witness:
  "cost_usd (price_usage [(''m'', sample_entry)] (Map.empty :: stored_price price_map) ''m'' 0 (sample_usage 1000)) =
   Some (Fin (compute_cost_usd (rates_of (entry_rates sample_entry)) (sample_usage 1000)))"
proof -
  let ?c = "[(''m'', sample_entry)]"
  have e: "get_model ?c ''m'' = Own sample_entry" by (simp add: get_model_def get_property_def)
  have lc: "long_context sample_entry = long_context sample_rates"
    by (simp add: sample_entry_def rates.extend_def)
  have "prompt_tokens (sample_usage 1000) \<le> 200000"
    unfolding prompt_tokens_exact[OF sample_counted[of 1000, simplified]] by (simp add: sample_usage_def)
  then have tier: "case long_context sample_entry of None \<Rightarrow> True
      | Some tier \<Rightarrow> prompt_tokens (sample_usage 1000) \<le> above_prompt_tokens tier"
    by (simp add: lc) (simp add: sample_rates_def)
  obtain b b' where eff: "effective_price ?c Map.empty ''m'' 0 = Some (Eff_catalog ''m'' b (entry_rates sample_entry) b')"
    by (simp add: effective_price_def e pick_price_def)
  show ?thesis
    using shown_price_is_charged[OF e eff _ tier] by (simp add: pick_price_def)
qed

text \<open>A price form is accepted only with every rate a finite number between 0 and the
  column's limit, a source and a model the catalog check lets through.\<close>

theorem price_form_valid:
  assumes "parse_price_form parse_date models form = Inr p"
  shows "full_rates_in_range p \<and> np_source p \<noteq> [] \<and> np_model p = field form ''model'' \<and>
    (\<forall>e. get_model models (np_model p) = Own e \<longrightarrow> long_context e = None) \<and>
    get_model models (np_model p) \<noteq> Absent"
  using parse_price_form_Inr[OF assms] by (auto simp: check_model_def split: property.splits if_splits)

definition sample_form :: "string \<Rightarrow> form" where
  "sample_form model = [''model'' \<mapsto> model, ''input_cost_per_mtok_usd'' \<mapsto> ''3'',
     ''output_cost_per_mtok_usd'' \<mapsto> ''5'', ''cache_read_cost_per_mtok_usd'' \<mapsto> ''1'',
     ''cache_write_cost_per_mtok_usd'' \<mapsto> '' 4 '', ''source'' \<mapsto> ''manual'']"

lemma js_number_digits: "js_number ''3'' = Fin 3" "js_number ''5'' = Fin 5" "js_number ''1'' = Fin 1" "js_number ''4'' = Fin 4"
  using to_num_small[of 3] to_num_small[of 5] to_num_small[of 1] to_num_small[of 4]
  by (simp_all add: js_number_def Let_def js_trim_def trim_start_def js_space_def to_lower_def lower_char_def
      starts_with_def decimal_literal_def is_digit_def exponent_part_def base_value_def hex_val_def)

lemma sample_form_parses:
  "parse_price_form (\<lambda>_. None) [(''m'', sample_entry\<lparr>long_context := None\<rparr>)] (sample_form ''m'') =
     Inr \<lparr>input_rate = 3, output_rate = 5, cache_read_rate = 1, cache_write_rate = 4,
       per_request_rate = 0, np_model = ''m'', np_valid_from = None, np_source = ''manual'', np_note = None\<rparr>"
  by (simp add: parse_price_form_def Let_def sample_form_def field_def js_trim_def trim_start_def js_space_def
      parse_rate_def js_number_digits max_rate_def parse_valid_from_def check_model_def get_model_def
      get_property_def)

theorem price_form_valid_witness:
  "full_rates_in_range \<lparr>input_rate = 3, output_rate = 5, cache_read_rate = 1, cache_write_rate = 4,
     per_request_rate = 0\<rparr>"
  using price_form_valid[OF sample_form_parses] by (simp add: full_rates_in_range_def)

text \<open>The catalog check reads a plain object, so the name of a member of \<open>Object.prototype\<close>
  passes it, and ingest prices that model as \<open>NaN\<close>, which JSON writes as \<open>null\<close>.\<close>

lemma prototype_name_passes_catalog_check:
  assumes "name \<in> set object_prototype" "map_of models name = None" "pick_price table name t = None"
  shows "check_model models name = None \<and> price_usage models table name t u = \<lparr>cost_usd = Some NaN, price_id = None\<rparr>"
  using assms by (simp add: check_model_def get_model_def get_property_def price_usage_def loose_cost_def function_rates_def)

end
