(* ===== verification/Database.thy ===== *)
theory Database
  imports Price_Table
begin

text \<open>
  The tables of the \<open>llm\<close> schema (\<open>database/migrations\<close>, typed in
  \<open>shared/types.ts\<close>) as lists of rows in insertion order, and the row-level
  security that \<open>withUserContext\<close> (\<open>api/src/config/db.ts\<close>) puts every request under.
  The owner pool (\<open>adminSql\<close>) reads the tables themselves.
\<close>

section \<open>Rows\<close>

datatype key_status = Active | Revoked | Over_budget
datatype key_type = Top | Derived
datatype role = Owner | Admin | Member

record team_row =
  team_id :: uuid
  kamuid_org_id :: string
  team_name :: string
  team_slug :: string
  team_updated_at :: pg_time

record member_row =
  member_team :: uuid
  member_user :: string
  member_role :: role

text \<open>\<open>llm.keys\<close>, the product row.  The hash and the display prefix belong to top-level
  keys; the parent and the root carry the lineage.\<close>

record key_row =
  key_id :: uuid
  key_team :: uuid
  key_label :: string
  key_hash :: "string option"
  key_prefix :: "string option"
  key_kind :: key_type
  key_models :: "string list"
  key_budget :: "rat option"
  key_status :: key_status
  key_parent :: "uuid option"
  key_root :: "uuid option"
  key_metadata :: "json option"
  key_constraints :: "json option"
  key_expires_at :: "pg_time option"
  key_created_at :: pg_time
  key_updated_at :: pg_time
  key_revoked_at :: "pg_time option"
  key_created_by :: "string option"
  key_revoked_by :: "string option"

text \<open>\<open>llm.usage_log\<close>.  Rows from before \<open>usage_id\<close> existed have none; the unique
  index ignores them.\<close>

record usage_row =
  ul_usage_id :: "uuid option"
  ul_machine_id :: "string option"
  ul_key_id :: uuid
  ul_parent :: "uuid option"
  ul_root :: "uuid option"
  ul_model :: "string option"
  ul_cost :: "rat option"
  ul_price_id :: "uuid option"
  ul_tokens_in :: int
  ul_tokens_out :: int
  ul_cache_read :: int
  ul_cache_write :: int
  ul_provider_cost :: "rat option"
  ul_provider_currency :: "string option"
  ul_created_at :: pg_time

record spend_row =
  spent_usd :: rat
  request_count :: int

text \<open>A \<open>NUMERIC\<close> column also holds \<open>NaN\<close>.\<close>

record settings_row =
  disabled_models :: "string list"
  default_budget :: "js_num option"
  settings_updated_at :: pg_time
  settings_updated_by :: "string option"

record db =
  db_teams :: "team_row list"
  db_members :: "member_row list"
  db_keys :: "key_row list"
  db_usage :: "usage_row list"
  db_spend :: "uuid \<rightharpoonup> spend_row"
  db_prices :: "price_db_row list"
  db_settings :: settings_row

section \<open>Lookups\<close>

definition find_key :: "db \<Rightarrow> uuid \<Rightarrow> key_row option" where
  "find_key d i = find (\<lambda>k. key_id k = i) (db_keys d)"

definition find_team :: "db \<Rightarrow> uuid \<Rightarrow> team_row option" where
  "find_team d i = find (\<lambda>t. team_id t = i) (db_teams d)"

definition key_exists :: "db \<Rightarrow> uuid \<Rightarrow> bool" where
  "key_exists d i \<longleftrightarrow> i \<in> set (map key_id (db_keys d))"

lemma find_key_SomeD: "find_key d i = Some k \<Longrightarrow> k \<in> set (db_keys d) \<and> key_id k = i"
  unfolding find_key_def by (rule find_SomeD)

lemma find_key_iff:
  "distinct (map key_id (db_keys d)) \<Longrightarrow>
     find_key d i = Some k \<longleftrightarrow> k \<in> set (db_keys d) \<and> key_id k = i"
proof
  assume "distinct (map key_id (db_keys d))" "k \<in> set (db_keys d) \<and> key_id k = i"
  then show "find_key d i = Some k"
    using find_ex[of k "db_keys d" "\<lambda>k. key_id k = i"] find_key_SomeD[of d i]
    unfolding find_key_def by (metis distinct_map_unique)
qed (rule find_key_SomeD)

section \<open>Row-level security\<close>

definition user_teams :: "db \<Rightarrow> string \<Rightarrow> uuid list" where
  "user_teams d uid = map member_team (filter (\<lambda>m. member_user m = uid) (db_members d))"

text \<open>Policies \<open>teams_select\<close>, \<open>keys_select\<close> / \<open>keys_insert\<close> and \<open>usage_log_select\<close>.\<close>

definition visible_teams :: "db \<Rightarrow> string \<Rightarrow> team_row list" where
  "visible_teams d uid = filter (\<lambda>t. team_id t \<in> set (user_teams d uid)) (db_teams d)"

definition visible_keys :: "db \<Rightarrow> string \<Rightarrow> key_row list" where
  "visible_keys d uid = filter (\<lambda>k. key_team k \<in> set (user_teams d uid)) (db_keys d)"

definition user_keys :: "db \<Rightarrow> string \<Rightarrow> uuid list" where
  "user_keys d uid = map key_id (visible_keys d uid)"

definition visible_usage :: "db \<Rightarrow> string \<Rightarrow> usage_row list" where
  "visible_usage d uid = filter (\<lambda>u. ul_key_id u \<in> set (user_keys d uid)) (db_usage d)"

definition may_insert_key :: "db \<Rightarrow> string \<Rightarrow> key_row \<Rightarrow> bool" where
  "may_insert_key d uid k \<longleftrightarrow> key_team k \<in> set (user_teams d uid)"

lemma visible_keys_iff:
  "k \<in> set (visible_keys d uid) \<longleftrightarrow> k \<in> set (db_keys d) \<and> key_team k \<in> set (user_teams d uid)"
  by (auto simp: visible_keys_def)

section \<open>Well-formed key tables\<close>

text \<open>Depth-one lineage: a top-level key has no parent and no root but itself; a derived key
  hangs off an existing top-level key of the same team, has a limited life and no stored secret.
  A mint inserts its row before it sets the root, in two statements, and the first may stay alone:
  so the root may be missing, and then a key derived meanwhile has none either.\<close>

definition top_ok :: "key_row \<Rightarrow> bool" where
  "top_ok k \<longleftrightarrow> key_parent k = None \<and> (key_root k = None \<or> key_root k = Some (key_id k)) \<and> key_hash k \<noteq> None"

definition derived_ok :: "db \<Rightarrow> key_row \<Rightarrow> bool" where
  "derived_ok d k \<longleftrightarrow> key_hash k = None \<and> key_expires_at k \<noteq> None \<and>
     (\<exists>p\<in>set (db_keys d). key_kind p = Top \<and> key_parent k = Some (key_id p) \<and>
        (key_root k = None \<or> key_root k = Some (key_id p)) \<and> key_team k = key_team p)"

definition keys_ok :: "db \<Rightarrow> bool" where
  "keys_ok d \<longleftrightarrow> distinct (map key_id (db_keys d)) \<and>
     (\<forall>k\<in>set (db_keys d). case key_kind k of Top \<Rightarrow> top_ok k | Derived \<Rightarrow> derived_ok d k)"

lemma keys_okD:
  assumes "keys_ok d"
  shows "distinct (map key_id (db_keys d))"
    and "k \<in> set (db_keys d) \<Longrightarrow> key_kind k = Top \<Longrightarrow> top_ok k"
    and "k \<in> set (db_keys d) \<Longrightarrow> key_kind k = Derived \<Longrightarrow> derived_ok d k"
  using assms by (auto simp: keys_ok_def split: key_type.splits)

text \<open>What a row may become without harm to the lineage: everything but the lineage columns may
  change, and a top-level key without a root may get itself as its root.\<close>

definition keeps_lineage :: "key_row \<Rightarrow> key_row \<Rightarrow> bool" where
  "keeps_lineage a b \<longleftrightarrow> key_id b = key_id a \<and> key_kind b = key_kind a \<and> key_team b = key_team a \<and>
     key_parent b = key_parent a \<and> key_hash b = key_hash a \<and> key_expires_at b = key_expires_at a \<and>
     (key_root b = key_root a \<or> key_kind a = Top \<and> key_root a = None \<and> key_root b = Some (key_id a))"

lemma keeps_lineageD:
  assumes "keeps_lineage a b"
  shows "key_id b = key_id a" "key_kind b = key_kind a" "key_team b = key_team a"
    "key_parent b = key_parent a" "key_hash b = key_hash a" "key_expires_at b = key_expires_at a"
    "key_root b = key_root a \<or> key_kind a = Top \<and> key_root a = None \<and> key_root b = Some (key_id a)"
  using assms by (auto simp: keeps_lineage_def)

lemma keeps_lineage_refl [simp]: "keeps_lineage k k"
  by (simp add: keeps_lineage_def)

lemma keeps_lineage_trans: "keeps_lineage a b \<Longrightarrow> keeps_lineage b c \<Longrightarrow> keeps_lineage a c"
  by (auto simp: keeps_lineage_def)

lemma keys_ok_map:
  assumes ok: "keys_ok d" and f: "\<And>k. k \<in> set (db_keys d) \<Longrightarrow> keeps_lineage k (f k)"
    and d': "db_keys d' = map f (db_keys d)"
  shows "keys_ok d'"
proof -
  have ids: "map key_id (db_keys d') = map key_id (db_keys d)"
    using keeps_lineageD(1)[OF f] by (simp add: d' comp_def)
  have derived: "derived_ok d' (f k)" if k: "k \<in> set (db_keys d)" "key_kind k = Derived" "derived_ok d k" for k
  proof -
    obtain p where "p \<in> set (db_keys d)" "key_kind p = Top" "key_parent k = Some (key_id p)"
      "key_root k = None \<or> key_root k = Some (key_id p)" "key_team k = key_team p"
      using k(3) unfolding derived_ok_def by blast
    then show ?thesis
      using k keeps_lineageD[OF f[of k]] keeps_lineageD[OF f[of p]]
      unfolding derived_ok_def d' by (intro conjI bexI[of _ "f p"]) auto
  qed
  have top: "top_ok (f k)" if "k \<in> set (db_keys d)" "top_ok k" for k
    using that keeps_lineageD[OF f[of k]] by (auto simp: top_ok_def)
  have "case key_kind (f k) of Top \<Rightarrow> top_ok (f k) | Derived \<Rightarrow> derived_ok d' (f k)"
    if "k \<in> set (db_keys d)" for k
    using keys_okD(2,3)[OF ok that] keeps_lineageD(2)[OF f[OF that]] top derived that
    by (auto split: key_type.splits)
  then show ?thesis using keys_okD(1)[OF ok, folded ids] unfolding keys_ok_def by (auto simp del: map_map simp: d')
qed

lemma keys_ok_frame: "keys_ok d \<Longrightarrow> db_keys d' = db_keys d \<Longrightarrow> keys_ok d'"
  using keys_ok_map[of d id d'] by simp

text \<open>Adding a row whose own conditions hold.\<close>

lemma keys_ok_insert_top:
  assumes "keys_ok d" "\<not> key_exists d (key_id k)" "key_kind k = Top" "top_ok k"
    and d': "db_keys d' = db_keys d @ [k]"
  shows "keys_ok d'"
  using assms(1-4) unfolding keys_ok_def derived_ok_def key_exists_def d'
  by (auto split: key_type.splits)

lemma keys_ok_insert_derived:
  assumes "keys_ok d" "\<not> key_exists d (key_id k)" "key_kind k = Derived" "derived_ok d k"
    and d': "db_keys d' = db_keys d @ [k]"
  shows "keys_ok d'"
  using assms(1-4) unfolding keys_ok_def derived_ok_def key_exists_def d'
  by (auto split: key_type.splits)

text \<open>The subtree of a key: itself and every row it is the root of.\<close>

definition in_subtree :: "uuid \<Rightarrow> key_row \<Rightarrow> bool" where
  "in_subtree i k \<longleftrightarrow> key_id k = i \<or> key_root k = Some i"

end
