(* ===== verification/Teams_Sync.thy ===== *)
theory Teams_Sync
  imports Database
begin

text \<open>
  \<open>api/src/lib/kamuid-sync.ts\<close>: the projection of a user's organisations into
  \<open>llm.teams\<close> and \<open>llm.team_members\<close>.  \<open>ensureTeams\<close> only adds, \<open>reconcileTeams\<close> also
  drops what the claim no longer has.  Memberships are what row-level security
  scopes by, so both are stated as equations on \<open>role_in\<close>, a user's role in an
  organisation.
\<close>

section \<open>The organisations claim\<close>

record org_claim =
  oc_id :: string
  oc_slug :: string
  oc_name :: string
  oc_role :: role

definition norm_role :: "json \<Rightarrow> role" where
  "norm_role r = (if r = JStr ''owner'' then Owner else if r = JStr ''admin'' then Admin else Member)"

definition parse_org :: "json \<Rightarrow> org_claim list" where
  "parse_org v =
     (case v of
        JObj fs \<Rightarrow>
          (let get = (\<lambda>n. or_else (map_of (rev fs) n) JNull)
           in case (get ''id'', get ''slug'') of
                (JStr i, JStr s) \<Rightarrow>
                  [\<lparr>oc_id = i, oc_slug = s,
                    oc_name = (case get ''name'' of JStr n \<Rightarrow> n | _ \<Rightarrow> s),
                    oc_role = norm_role (get ''role'')\<rparr>]
              | _ \<Rightarrow> [])
      | _ \<Rightarrow> [])"

text \<open>\<open>json_parse\<close> is \<open>JSON.parse\<close>; \<open>None\<close> stands for its exception.\<close>

definition parse_orgs :: "(string \<Rightarrow> json option) \<Rightarrow> json \<Rightarrow> org_claim list" where
  "parse_orgs json_parse claim =
     (case (case claim of JStr s \<Rightarrow> json_parse s | _ \<Rightarrow> Some claim) of
        Some (JArr vs) \<Rightarrow> concat (map parse_org vs)
      | _ \<Rightarrow> [])"

section \<open>The upserts\<close>

definition upsert_team :: "db \<Rightarrow> pg_time \<Rightarrow> uuid \<Rightarrow> org_claim \<Rightarrow> uuid \<times> db" where
  "upsert_team d now fresh oc =
     (case find (\<lambda>t. kamuid_org_id t = oc_id oc) (db_teams d) of
        Some t \<Rightarrow>
          (team_id t,
           d\<lparr>db_teams := map (\<lambda>t. if kamuid_org_id t = oc_id oc
               then t\<lparr>team_name := oc_name oc, team_slug := oc_slug oc, team_updated_at := now\<rparr>
               else t) (db_teams d)\<rparr>)
      | None \<Rightarrow>
          (fresh,
           d\<lparr>db_teams := db_teams d @
               [\<lparr>team_id = fresh, kamuid_org_id = oc_id oc, team_name = oc_name oc,
                 team_slug = oc_slug oc, team_updated_at = now\<rparr>]\<rparr>))"

definition upsert_member :: "db \<Rightarrow> uuid \<Rightarrow> string \<Rightarrow> role \<Rightarrow> db" where
  "upsert_member d team user r =
     (if \<exists>m\<in>set (db_members d). member_team m = team \<and> member_user m = user
      then d\<lparr>db_members := map (\<lambda>m. if member_team m = team \<and> member_user m = user
               then m\<lparr>member_role := r\<rparr> else m) (db_members d)\<rparr>
      else d\<lparr>db_members := db_members d @
               [\<lparr>member_team = team, member_user = user, member_role = r\<rparr>]\<rparr>)"

text \<open>One round of the loop: the organisation with the id a new team would get.\<close>

definition upsert_org :: "pg_time \<Rightarrow> string \<Rightarrow> db \<Rightarrow> org_claim \<times> uuid \<Rightarrow> uuid \<times> db" where
  "upsert_org now user d p =
     (let (team, d1) = upsert_team d now (snd p) (fst p)
      in (team, upsert_member d1 team user (oc_role (fst p))))"

fun ensure_teams :: "pg_time \<Rightarrow> string \<Rightarrow> db \<Rightarrow> (org_claim \<times> uuid) list \<Rightarrow> db" where
  "ensure_teams now user d [] = d"
| "ensure_teams now user d (p # ps) = ensure_teams now user (snd (upsert_org now user d p)) ps"

fun upsert_orgs :: "pg_time \<Rightarrow> string \<Rightarrow> db \<Rightarrow> (org_claim \<times> uuid) list \<Rightarrow> uuid list \<times> db" where
  "upsert_orgs now user d [] = ([], d)"
| "upsert_orgs now user d (p # ps) =
     (let (team, d1) = upsert_org now user d p; (teams, d2) = upsert_orgs now user d1 ps
      in (team # teams, d2))"

definition reconcile_teams :: "pg_time \<Rightarrow> string \<Rightarrow> db \<Rightarrow> (org_claim \<times> uuid) list \<Rightarrow> db" where
  "reconcile_teams now user d ps =
     (let (team_ids, d1) = upsert_orgs now user d ps
      in if 0 < length team_ids
         then d1\<lparr>db_members := filter (\<lambda>m. \<not> (member_user m = user \<and> member_team m \<notin> set team_ids))
                 (db_members d1)\<rparr>
         else d1\<lparr>db_members := filter (\<lambda>m. member_user m \<noteq> user) (db_members d1)\<rparr>)"

text \<open>Every statement is a transaction of its own, and one of them may fail: what the first \<open>m\<close>
  statements of the loop leave, two for each organisation.  Either caller only logs the failure.
  \<open>stop\<close> is the statement that fails; behind the loop \<open>reconcileTeams\<close> has one more.\<close>

definition ensure_stopped :: "pg_time \<Rightarrow> string \<Rightarrow> db \<Rightarrow> (org_claim \<times> uuid) list \<Rightarrow> nat \<Rightarrow> db" where
  "ensure_stopped now user d ps m =
     (let d1 = ensure_teams now user d (take (m div 2) ps)
      in if odd m \<and> m div 2 < length ps then snd (upsert_team d1 now (snd (ps ! (m div 2))) (fst (ps ! (m div 2)))) else d1)"

definition try_ensure_teams :: "pg_time \<Rightarrow> string \<Rightarrow> db \<Rightarrow> (org_claim \<times> uuid) list \<Rightarrow> nat option \<Rightarrow> db" where
  "try_ensure_teams now user d ps stop =
     (case stop of Some m \<Rightarrow> if m < 2 * length ps then ensure_stopped now user d ps m else ensure_teams now user d ps
      | None \<Rightarrow> ensure_teams now user d ps)"

definition try_reconcile_teams :: "pg_time \<Rightarrow> string \<Rightarrow> db \<Rightarrow> (org_claim \<times> uuid) list \<Rightarrow> nat option \<Rightarrow> db" where
  "try_reconcile_teams now user d ps stop =
     (case stop of Some m \<Rightarrow> if m \<le> 2 * length ps then ensure_stopped now user d ps m else reconcile_teams now user d ps
      | None \<Rightarrow> reconcile_teams now user d ps)"

text \<open>The claims with the ids that \<open>gen_random_uuid\<close> would give to their teams.\<close>

definition with_ids :: "(nat \<Rightarrow> uuid) \<Rightarrow> org_claim list \<Rightarrow> (org_claim \<times> uuid) list" where
  "with_ids ids cs = zip cs (map ids [0..<length cs])"

lemma with_ids_claims: "map fst (with_ids ids cs) = cs"
  by (simp add: with_ids_def)

section \<open>Roles\<close>

definition team_of_org :: "db \<Rightarrow> string \<Rightarrow> uuid option" where
  "team_of_org d org = map_option team_id (find (\<lambda>t. kamuid_org_id t = org) (db_teams d))"

definition role_of :: "db \<Rightarrow> string \<Rightarrow> uuid \<Rightarrow> role option" where
  "role_of d user team =
     map_option member_role (find (\<lambda>m. member_team m = team \<and> member_user m = user) (db_members d))"

definition role_in :: "db \<Rightarrow> string \<Rightarrow> string \<Rightarrow> role option" where
  "role_in d user org =
     (case team_of_org d org of Some t \<Rightarrow> role_of d user t | None \<Rightarrow> None)"

text \<open>The constraints of the two tables: unique team ids, one team per organisation, and
  memberships of existing teams only.\<close>

definition teams_ok :: "db \<Rightarrow> bool" where
  "teams_ok d \<longleftrightarrow> distinct (map team_id (db_teams d)) \<and> distinct (map kamuid_org_id (db_teams d)) \<and>
     (\<forall>m\<in>set (db_members d). member_team m \<in> team_id ` set (db_teams d))"

definition fresh_teams :: "db \<Rightarrow> (org_claim \<times> uuid) list \<Rightarrow> bool" where
  "fresh_teams d ps \<longleftrightarrow> distinct (map snd ps) \<and> set (map snd ps) \<inter> team_id ` set (db_teams d) = {}"

lemma find_map_same:
  "(\<And>x. x \<in> set xs \<Longrightarrow> P (f x) = P x) \<Longrightarrow> find P (map f xs) = map_option f (find P xs)"
  by (induction xs) auto

lemma find_append: "find P (xs @ ys) = (case find P xs of Some x \<Rightarrow> Some x | None \<Rightarrow> find P ys)"
  by (induction xs) auto

lemma find_filter: "find P (filter Q xs) = find (\<lambda>x. Q x \<and> P x) xs"
  by (induction xs) auto

lemma find_not_in: "(\<And>x. x \<in> set xs \<Longrightarrow> \<not> P x) \<Longrightarrow> find P xs = None"
  by (simp add: find_None_iff_all)

lemma role_of_upsert_member:
  "role_of (upsert_member d t u r) v s = (if v = u \<and> s = t then Some r else role_of d v s)"
proof (cases "\<exists>m\<in>set (db_members d). member_team m = t \<and> member_user m = u")
  case True
  let ?f = "\<lambda>m. if member_team m = t \<and> member_user m = u then m\<lparr>member_role := r\<rparr> else m"
  have "find (\<lambda>m. member_team m = s \<and> member_user m = v) (map ?f (db_members d)) =
      map_option ?f (find (\<lambda>m. member_team m = s \<and> member_user m = v) (db_members d))"
    by (rule find_map_same) auto
  moreover obtain m where "find (\<lambda>m. member_team m = t \<and> member_user m = u) (db_members d) = Some m"
    using True find_ex[of _ "db_members d" "\<lambda>m. member_team m = t \<and> member_user m = u"] by blast
  ultimately show ?thesis using True
    by (cases "find (\<lambda>m. member_team m = s \<and> member_user m = v) (db_members d)")
      (auto simp: upsert_member_def role_of_def dest: find_SomeD)
next
  case False
  then have "find (\<lambda>m. member_team m = t \<and> member_user m = u) (db_members d) = None"
    by (auto simp: find_None_iff_all)
  then show ?thesis using False
    by (auto simp: upsert_member_def role_of_def find_append split: option.splits)
qed

lemma team_of_org_upsert_member [simp]: "team_of_org (upsert_member d t u r) org = team_of_org d org"
  by (simp add: upsert_member_def team_of_org_def)

lemma db_teams_upsert_member [simp]: "db_teams (upsert_member d t u r) = db_teams d"
  by (simp add: upsert_member_def)

lemma upsert_team_members [simp]: "db_members (snd (upsert_team d now i oc)) = db_members d"
  by (simp add: upsert_team_def split: option.splits)

lemma role_of_upsert_team [simp]: "role_of (snd (upsert_team d now i oc)) = role_of d"
  by (simp add: role_of_def fun_eq_iff)

text \<open>After the upsert the organisation's team is the returned one; other organisations
  keep theirs.\<close>

lemma team_of_org_upsert_team:
  "team_of_org (snd (upsert_team d now i oc)) org =
     (if org = oc_id oc then Some (fst (upsert_team d now i oc)) else team_of_org d org)"
proof (cases "find (\<lambda>t. kamuid_org_id t = oc_id oc) (db_teams d)")
  case None
  then show ?thesis
    by (auto simp: upsert_team_def team_of_org_def find_append split: option.splits)
next
  case (Some t)
  let ?f = "\<lambda>t. if kamuid_org_id t = oc_id oc
    then t\<lparr>team_name := oc_name oc, team_slug := oc_slug oc, team_updated_at := now\<rparr> else t"
  have "find (\<lambda>t. kamuid_org_id t = org) (map ?f (db_teams d)) =
      map_option ?f (find (\<lambda>t. kamuid_org_id t = org) (db_teams d))"
    by (rule find_map_same) auto
  then show ?thesis using Some
    by (auto simp: upsert_team_def team_of_org_def option.map_comp comp_def intro!: option.map_cong)
qed

lemma upsert_team_ids:
  assumes "teams_ok d" "i \<notin> team_id ` set (db_teams d)"
  shows "teams_ok (snd (upsert_team d now i oc))"
    and "team_id ` set (db_teams (snd (upsert_team d now i oc))) \<subseteq> insert i (team_id ` set (db_teams d))"
    and "fst (upsert_team d now i oc) \<in> team_id ` set (db_teams (snd (upsert_team d now i oc)))"
proof -
  let ?f = "\<lambda>t. if kamuid_org_id t = oc_id oc
    then t\<lparr>team_name := oc_name oc, team_slug := oc_slug oc, team_updated_at := now\<rparr> else t"
  have ids: "map team_id (map ?f ts) = map team_id ts" "map kamuid_org_id (map ?f ts) = map kamuid_org_id ts"
    for ts by (induction ts) auto
  have set_ids: "team_id ` ?f ` set ts = team_id ` set ts" for ts
    using arg_cong[OF ids(1)[of ts], of set] by (simp only: set_map)
  show "teams_ok (snd (upsert_team d now i oc))"
    using assms set_ids[of "db_teams d"] ids[of "db_teams d"]
    by (auto simp: teams_ok_def upsert_team_def find_None_iff_all simp del: map_map
        split: option.splits)
  show "team_id ` set (db_teams (snd (upsert_team d now i oc))) \<subseteq> insert i (team_id ` set (db_teams d))"
    using set_ids[of "db_teams d"]
    by (auto simp: upsert_team_def simp del: image_image split: option.splits)
  show "fst (upsert_team d now i oc) \<in> team_id ` set (db_teams (snd (upsert_team d now i oc)))"
    using set_ids[of "db_teams d"]
    by (auto simp: upsert_team_def simp del: image_image dest!: find_SomeD split: option.splits)
qed

section \<open>One round\<close>

lemma upsert_org_eq:
  "upsert_org now user d p =
     (fst (upsert_team d now (snd p) (fst p)),
      upsert_member (snd (upsert_team d now (snd p) (fst p)))
        (fst (upsert_team d now (snd p) (fst p))) user (oc_role (fst p)))"
  by (simp add: upsert_org_def split_beta)

lemma team_of_org_upsert_org:
  "team_of_org (snd (upsert_org now user d p)) org =
     (if org = oc_id (fst p) then Some (fst (upsert_org now user d p)) else team_of_org d org)"
  by (simp add: upsert_org_eq team_of_org_upsert_team)

lemma role_of_upsert_org:
  "role_of (snd (upsert_org now user d p)) v t =
     (if v = user \<and> t = fst (upsert_org now user d p) then Some (oc_role (fst p)) else role_of d v t)"
  by (simp add: upsert_org_eq role_of_upsert_member)

lemma teams_ok_upsert_member:
  "teams_ok d \<Longrightarrow> t \<in> team_id ` set (db_teams d) \<Longrightarrow> teams_ok (upsert_member d t u r)"
  by (auto simp: teams_ok_def upsert_member_def)

lemma teams_ok_upsert_org [wf_intros]:
  assumes "teams_ok d" "fresh_teams d (p # ps)"
  shows "teams_ok (snd (upsert_org now user d p))" "fresh_teams (snd (upsert_org now user d p)) ps"
proof -
  let ?d = "snd (upsert_team d now (snd p) (fst p))"
  have new: "snd p \<notin> team_id ` set (db_teams d)" using assms(2) by (simp add: fresh_teams_def)
  note * = upsert_team_ids[OF assms(1) new, of now "fst p"]
  show "teams_ok (snd (upsert_org now user d p))"
    using * by (simp add: upsert_org_eq teams_ok_upsert_member)
  have "set (map snd ps) \<inter> insert (snd p) (team_id ` set (db_teams d)) = {}"
    using assms(2) by (auto simp: fresh_teams_def)
  then have "set (map snd ps) \<inter> team_id ` set (db_teams ?d) = {}" using *(2) by blast
  then show "fresh_teams (snd (upsert_org now user d p)) ps"
    using assms(2) by (simp add: upsert_org_eq fresh_teams_def)
qed

text \<open>Different organisations never share a team.\<close>

lemma team_of_org_inj:
  assumes "teams_ok d" "team_of_org d a = Some t" "team_of_org d b = Some t"
  shows "a = b"
proof -
  obtain x y where "x \<in> set (db_teams d)" "kamuid_org_id x = a" "team_id x = t"
    "y \<in> set (db_teams d)" "kamuid_org_id y = b" "team_id y = t"
    using assms(2,3) by (auto simp: team_of_org_def dest!: find_SomeD)
  then show ?thesis
    using assms(1) distinct_map_unique[of team_id "db_teams d" x y] by (auto simp: teams_ok_def)
qed

lemma role_of_known_team:
  "teams_ok d \<Longrightarrow> role_of d u t = Some r \<Longrightarrow> t \<in> team_id ` set (db_teams d)"
  by (auto simp: teams_ok_def role_of_def dest!: find_SomeD)

lemma role_in_upsert_org:
  assumes "teams_ok d" "fresh_teams d (p # ps)"
  shows "role_in (snd (upsert_org now user d p)) v org =
    (if v = user \<and> org = oc_id (fst p) then Some (oc_role (fst p)) else role_in d v org)"
proof (cases "org = oc_id (fst p)")
  case False
  have ok: "teams_ok (snd (upsert_org now user d p))" using teams_ok_upsert_org[OF assms] by simp
  have "team_of_org d org \<noteq> Some (fst (upsert_org now user d p))"
  proof
    assume "team_of_org d org = Some (fst (upsert_org now user d p))"
    then have "team_of_org (snd (upsert_org now user d p)) org = Some (fst (upsert_org now user d p))"
      using False by (simp add: team_of_org_upsert_org)
    moreover have "team_of_org (snd (upsert_org now user d p)) (oc_id (fst p)) =
        Some (fst (upsert_org now user d p))"
      by (simp add: team_of_org_upsert_org)
    ultimately show False using team_of_org_inj[OF ok] False by blast
  qed
  then show ?thesis using False
    by (auto simp: role_in_def team_of_org_upsert_org role_of_upsert_org split: option.splits)
next
  case True
  have new: "role_of d v (snd p) = None"
    using role_of_known_team[OF assms(1), of v "snd p"] assms(2)
    by (cases "role_of d v (snd p)") (auto simp: fresh_teams_def)
  have "team_of_org d org = Some (fst (upsert_org now user d p)) \<or>
      team_of_org d org = None \<and> fst (upsert_org now user d p) = snd p"
    using True by (auto simp: upsert_org_eq upsert_team_def team_of_org_def split: option.splits)
  then show ?thesis using True new
    by (auto simp: role_in_def team_of_org_upsert_org role_of_upsert_org)
qed

section \<open>The loops\<close>

lemma snd_upsert_orgs: "snd (upsert_orgs now user d ps) = ensure_teams now user d ps"
  by (induction ps arbitrary: d) (simp_all add: split_beta)

definition claimed :: "(org_claim \<times> uuid) list \<Rightarrow> string \<Rightarrow> role option" where
  "claimed ps = map_of (rev (map (\<lambda>p. (oc_id (fst p), oc_role (fst p))) ps))"

lemma claimed_simps [simp]:
  "claimed [] = Map.empty"
  "claimed (p # ps) org =
     (case claimed ps org of Some r \<Rightarrow> Some r
      | None \<Rightarrow> if org = oc_id (fst p) then Some (oc_role (fst p)) else None)"
  by (auto simp: claimed_def map_add_def split: option.splits)

lemma ensure_teams_ok:
  "teams_ok d \<Longrightarrow> fresh_teams d ps \<Longrightarrow> teams_ok (ensure_teams now user d ps)"
  by (induction ps arbitrary: d) (auto intro: teams_ok_upsert_org)

lemma ensure_teams_role_in:
  assumes "teams_ok d" "fresh_teams d ps"
  shows "role_in (ensure_teams now user d ps) v org =
    (if v = user then (case claimed ps org of Some r \<Rightarrow> Some r | None \<Rightarrow> role_in d v org)
     else role_in d v org)"
  using assms
proof (induction ps arbitrary: d)
  case (Cons p ps)
  show ?case
    using Cons.IH[OF teams_ok_upsert_org[OF Cons.prems]] role_in_upsert_org[OF Cons.prems]
    by (auto split: option.splits)
qed simp

text \<open>The teams the loop collects are those of the claimed organisations.\<close>

lemma upsert_org_team_stays:
  "team_of_org d org = Some t \<Longrightarrow> team_of_org (snd (upsert_org now user d p)) org = Some t"
  by (auto simp: team_of_org_upsert_org) (auto simp: upsert_org_eq upsert_team_def team_of_org_def)

lemma ensure_team_stays:
  "team_of_org d org = Some t \<Longrightarrow> team_of_org (ensure_teams now user d ps) org = Some t"
  by (induction ps arbitrary: d) (auto simp: upsert_org_team_stays)

lemma upsert_orgs_ids:
  "set (fst (upsert_orgs now user d ps)) =
     {t. \<exists>org. claimed ps org \<noteq> None \<and> team_of_org (ensure_teams now user d ps) org = Some t}"
proof (induction ps arbitrary: d)
  case (Cons p ps)
  let ?d = "snd (upsert_org now user d p)" and ?t = "fst (upsert_org now user d p)"
  have "team_of_org ?d (oc_id (fst p)) = Some ?t" by (simp add: team_of_org_upsert_org)
  then have here: "team_of_org (ensure_teams now user ?d ps) (oc_id (fst p)) = Some ?t"
    by (rule ensure_team_stays)
  have "claimed (p # ps) org \<noteq> None \<longleftrightarrow> org = oc_id (fst p) \<or> claimed ps org \<noteq> None" for org
    by (auto split: option.splits)
  then have "{t. \<exists>org. claimed (p # ps) org \<noteq> None \<and> team_of_org (ensure_teams now user ?d ps) org = Some t} =
      insert ?t {t. \<exists>org. claimed ps org \<noteq> None \<and> team_of_org (ensure_teams now user ?d ps) org = Some t}"
    using here by (auto simp del: claimed_simps)
  then show ?case using Cons.IH[of ?d] by (simp add: split_beta)
qed simp

section \<open>Reconciliation\<close>

lemma reconcile_teams_eq:
  "reconcile_teams now user d ps =
     (let d1 = ensure_teams now user d ps
      in d1\<lparr>db_members := filter (\<lambda>m. \<not> (member_user m = user \<and>
             member_team m \<notin> set (fst (upsert_orgs now user d ps)))) (db_members d1)\<rparr>)"
  by (auto simp: reconcile_teams_def split_beta Let_def snd_upsert_orgs)

lemma role_of_filter:
  "role_of (d\<lparr>db_members := filter Q (db_members d)\<rparr>) v t =
     map_option member_role
       (find (\<lambda>m. Q m \<and> member_team m = t \<and> member_user m = v) (db_members d))"
  by (simp add: role_of_def find_filter)

lemma reconcile_role_of:
  "role_of (reconcile_teams now user d ps) v t =
     (if v = user \<and> t \<notin> set (fst (upsert_orgs now user d ps)) then None
      else role_of (ensure_teams now user d ps) v t)"
proof (cases "v = user \<and> t \<notin> set (fst (upsert_orgs now user d ps))")
  case True
  then show ?thesis
    by (auto simp: reconcile_teams_eq Let_def role_of_filter find_None_iff_all)
next
  case False
  then have "(\<lambda>m. \<not> (member_user m = user \<and> member_team m \<notin> set (fst (upsert_orgs now user d ps))) \<and>
      member_team m = t \<and> member_user m = v) = (\<lambda>m. member_team m = t \<and> member_user m = v)"
    by (auto simp: fun_eq_iff)
  from arg_cong[OF this, of "\<lambda>P. map_option member_role (find P (db_members (ensure_teams now user d ps)))"]
  have "role_of (reconcile_teams now user d ps) v t = role_of (ensure_teams now user d ps) v t"
    unfolding reconcile_teams_eq Let_def role_of_filter by (simp only: role_of_def)
  then show ?thesis using False by auto
qed

lemma team_of_org_reconcile [simp]:
  "team_of_org (reconcile_teams now user d ps) = team_of_org (ensure_teams now user d ps)"
  by (simp add: reconcile_teams_eq Let_def team_of_org_def fun_eq_iff)

lemma reconcile_teams_ok:
  "teams_ok d \<Longrightarrow> fresh_teams d ps \<Longrightarrow> teams_ok (reconcile_teams now user d ps)"
  using ensure_teams_ok[of d ps now user]
  by (auto simp: reconcile_teams_eq Let_def teams_ok_def)

lemma ensure_claimed_team:
  "claimed ps org = Some r \<Longrightarrow> \<exists>t. team_of_org (ensure_teams now user d ps) org = Some t"
proof (induction ps arbitrary: d)
  case (Cons p ps)
  have "team_of_org (snd (upsert_org now user d p)) (oc_id (fst p)) = Some (fst (upsert_org now user d p))"
    by (simp add: team_of_org_upsert_org)
  from ensure_team_stays[OF this] show ?case
    using Cons by (auto split: option.splits if_splits)
qed simp

lemma reconcile_role_in:
  assumes "teams_ok d" "fresh_teams d ps"
  shows "role_in (reconcile_teams now user d ps) v org =
    (if v = user then claimed ps org else role_in d v org)"
proof -
  let ?d = "ensure_teams now user d ps"
  have role: "role_in ?d v org = (if v = user then (case claimed ps org of Some r \<Rightarrow> Some r
      | None \<Rightarrow> role_in d v org) else role_in d v org)"
    by (rule ensure_teams_role_in[OF assms])
  have drop: "t \<notin> set (fst (upsert_orgs now user d ps)) \<longleftrightarrow> claimed ps org = None"
    if "team_of_org ?d org = Some t" for t
  proof -
    have "o' = org" if "team_of_org ?d o' = Some t" for o'
      using team_of_org_inj[OF ensure_teams_ok[OF assms] that \<open>team_of_org ?d org = Some t\<close>] .
    then show ?thesis using that unfolding upsert_orgs_ids mem_Collect_eq by metis
  qed
  show ?thesis
  proof (cases "team_of_org ?d org")
    case None
    then have "claimed ps org = None" using ensure_claimed_team[of ps org _ now user d] by (cases "claimed ps org") auto
    then show ?thesis using None role by (auto simp: role_in_def)
  next
    case (Some t)
    then show ?thesis using role drop[OF Some]
      by (auto simp: role_in_def reconcile_role_of split: option.splits)
  qed
qed

text \<open>What neither of them touches.\<close>

lemma upsert_frame [frame_simps]:
  "db_keys (ensure_teams now user d ps) = db_keys d"
  "db_usage (ensure_teams now user d ps) = db_usage d"
  "db_spend (ensure_teams now user d ps) = db_spend d"
  "db_keys (reconcile_teams now user d ps) = db_keys d"
  "db_usage (reconcile_teams now user d ps) = db_usage d"
  "db_spend (reconcile_teams now user d ps) = db_spend d"
proof -
  have *: "db_keys (snd (upsert_org now user d p)) = db_keys d \<and>
      db_usage (snd (upsert_org now user d p)) = db_usage d \<and>
      db_spend (snd (upsert_org now user d p)) = db_spend d" for d p
    by (auto simp: upsert_org_eq upsert_team_def upsert_member_def split: option.splits)
  have "db_keys (ensure_teams now user d ps) = db_keys d \<and>
      db_usage (ensure_teams now user d ps) = db_usage d \<and>
      db_spend (ensure_teams now user d ps) = db_spend d"
    using * by (induction ps arbitrary: d) simp_all
  then show "db_keys (ensure_teams now user d ps) = db_keys d"
    "db_usage (ensure_teams now user d ps) = db_usage d"
    "db_spend (ensure_teams now user d ps) = db_spend d"
    "db_keys (reconcile_teams now user d ps) = db_keys d"
    "db_usage (reconcile_teams now user d ps) = db_usage d"
    "db_spend (reconcile_teams now user d ps) = db_spend d"
    by (simp_all add: reconcile_teams_eq Let_def)
qed

section \<open>The single statements\<close>

text \<open>What each of the two loops leaves, stopped or not, is reached statement by statement.\<close>

inductive sync_statement :: "string \<Rightarrow> db \<Rightarrow> db \<Rightarrow> bool" for user where
  upserts_team: "sync_statement user d (snd (upsert_team d now i oc))"
| upserts_member: "sync_statement user d (upsert_member d team user r)"
| drops_members: "sync_statement user d (d\<lparr>db_members := filter (\<lambda>m. \<not> (member_user m = user \<and> member_team m \<notin> set teams)) (db_members d)\<rparr>)"

lemma upsert_org_run: "(sync_statement user)\<^sup>*\<^sup>* d (snd (upsert_org now user d p))"
  unfolding upsert_org_eq snd_conv
  by (meson sync_statement.upserts_team sync_statement.upserts_member rtranclp.rtrancl_into_rtrancl rtranclp.rtrancl_refl)

lemma ensure_teams_run: "(sync_statement user)\<^sup>*\<^sup>* d (ensure_teams now user d ps)"
proof (induction ps arbitrary: d)
  case (Cons p ps)
  then show ?case using upsert_org_run rtranclp_trans by (metis ensure_teams.simps(2))
qed simp

lemma ensure_stopped_run: "(sync_statement user)\<^sup>*\<^sup>* d (ensure_stopped now user d ps m)"
  using ensure_teams_run[of user d now "take (m div 2) ps"] sync_statement.upserts_team
  by (auto simp: ensure_stopped_def Let_def intro: rtranclp.rtrancl_into_rtrancl)

lemma reconcile_teams_run: "(sync_statement user)\<^sup>*\<^sup>* d (reconcile_teams now user d ps)"
  unfolding reconcile_teams_eq Let_def
  by (rule rtranclp.rtrancl_into_rtrancl[OF ensure_teams_run sync_statement.drops_members])

lemma try_sync_run:
  "(sync_statement user)\<^sup>*\<^sup>* d (try_ensure_teams now user d ps stop)"
  "(sync_statement user)\<^sup>*\<^sup>* d (try_reconcile_teams now user d ps stop)"
  by (auto simp: try_ensure_teams_def try_reconcile_teams_def ensure_teams_run ensure_stopped_run reconcile_teams_run
      split: option.splits)

text \<open>All statements keep every table but the two.\<close>

lemma sync_statement_frame:
  assumes "sync_statement user d d'"
  shows "db_keys d' = db_keys d" "db_usage d' = db_usage d" "db_spend d' = db_spend d"
    "db_prices d' = db_prices d" "db_settings d' = db_settings d"
  using assms by (cases; simp add: upsert_team_def upsert_member_def split: option.splits)+

lemma sync_run_frame:
  assumes "(sync_statement user)\<^sup>*\<^sup>* d d'"
  shows "db_keys d' = db_keys d \<and> db_usage d' = db_usage d \<and> db_spend d' = db_spend d \<and>
    db_prices d' = db_prices d \<and> db_settings d' = db_settings d"
  using assms by (induction rule: rtranclp_induct) (simp_all add: sync_statement_frame)

text \<open>A projection that stops early takes no membership away.\<close>

lemma role_of_ensure_stopped:
  "role_of d v t \<noteq> None \<Longrightarrow> role_of (ensure_stopped now user d ps m) v t \<noteq> None"
proof -
  have "role_of d v t \<noteq> None \<Longrightarrow> role_of (ensure_teams now user d qs) v t \<noteq> None" for qs
    by (induction qs arbitrary: d) (auto simp: role_of_upsert_org)
  then show "role_of d v t \<noteq> None \<Longrightarrow> role_of (ensure_stopped now user d ps m) v t \<noteq> None"
    by (auto simp: ensure_stopped_def Let_def)
qed

end
