(* ===== verification/Auth.thy ===== *)
theory Auth
  imports Teams_Sync "HOL-Library.AList"
begin

text \<open>
  \<open>api/src/lib/platform-context.ts\<close>, \<open>api/src/middleware/auth.ts\<close> and
  \<open>api/src/middleware/grants.ts\<close>: who is admitted, as which principal, and which
  grants the request carries.  \<open>verify_jwt\<close> is \<open>jwtVerify\<close> of the jose library on
  a token with the key source named, \<open>fetch\<close> is KamuID's userinfo endpoint.
\<close>

section \<open>The platform context\<close>

record context_org =
  co_id :: string
  co_kamuid_org_id :: "string option"
  co_slug :: string
  co_name :: string
  co_role :: string
  co_grants :: "string list"

record platform_context =
  ctx_sub :: "string option"
  ctx_email :: "string option"
  ctx_name :: "string option"
  ctx_orgs :: "context_org list"

text \<open>A verified payload: the organisations are \<open>None\<close> when the claim is not an array.\<close>

record context_payload =
  pc_sub :: "string option"
  pc_email :: "string option"
  pc_name :: "string option"
  pc_orgs :: "context_org list option"

datatype key_source = Dev_key string | Remote_jwks string

type_synonym jwt_verifier = "key_source \<Rightarrow> string \<Rightarrow> context_payload option"

text \<open>\<open>import_jwk\<close> is the import of the dev key: \<open>None\<close> when the text is no Ed25519 public
  JWK.\<close>

record auth_env =
  jwks_url :: string
  dev_jwk :: string

definition dev_verify_key :: "(string \<Rightarrow> string option) \<Rightarrow> auth_env \<Rightarrow> string option" where
  "dev_verify_key import_jwk e = (if dev_jwk e = [] then None else import_jwk (dev_jwk e))"

definition verify_platform_context ::
  "(string \<Rightarrow> string option) \<Rightarrow> jwt_verifier \<Rightarrow> auth_env \<Rightarrow> string \<Rightarrow> platform_context option" where
  "verify_platform_context import_jwk verify_jwt e token =
     (case (if jwks_url e = ''dev''
            then (case dev_verify_key import_jwk e of
                    None \<Rightarrow> None
                  | Some dk \<Rightarrow> verify_jwt (Dev_key dk) token)
            else verify_jwt (Remote_jwks (jwks_url e)) token) of
        None \<Rightarrow> None
      | Some payload \<Rightarrow>
          (case pc_orgs payload of
             None \<Rightarrow> None
           | Some orgs \<Rightarrow>
               Some \<lparr>ctx_sub = pc_sub payload, ctx_email = pc_email payload,
                     ctx_name = pc_name payload, ctx_orgs = orgs\<rparr>))"

lemma dev_without_key_fails_closed:
  "jwks_url e = ''dev'' \<Longrightarrow> dev_jwk e = [] \<Longrightarrow>
     verify_platform_context import_jwk verify_jwt e token = None"
  by (simp add: verify_platform_context_def dev_verify_key_def)

section \<open>The principal\<close>

record auth_user =
  user_id :: string
  user_email :: string
  user_name :: string

record user_info =
  ui_sub :: "string option"
  ui_email :: "string option"
  ui_name :: "string option"
  ui_email_verified :: "bool option"

definition js_or :: "string \<Rightarrow> string \<Rightarrow> string" where
  "js_or a b = (if a = [] then b else a)"

definition provision_user :: "string \<Rightarrow> string option \<Rightarrow> string option \<Rightarrow> auth_user" where
  "provision_user sub email name =
     (let e = or_else email []
      in \<lparr>user_id = sub, user_email = e, user_name = or_else name (js_or e sub)\<rparr>)"

definition context_role :: "string \<Rightarrow> role" where
  "context_role r = (if r = ''owner'' then Owner else if r = ''admin'' then Admin else Member)"

definition context_to_org_claims :: "context_org list \<Rightarrow> org_claim list" where
  "context_to_org_claims orgs =
     concat (map (\<lambda>c. if or_else (co_kamuid_org_id c) [] = [] then []
        else [\<lparr>oc_id = the (co_kamuid_org_id c), oc_slug = co_slug c,
               oc_name = js_or (co_name c) (co_slug c), oc_role = context_role (co_role c)\<rparr>]) orgs)"

lemma provision_user_id [simp]: "user_id (provision_user s e n) = s"
  by (simp add: provision_user_def Let_def)

section \<open>The middleware\<close>

text \<open>The bearer token of an \<open>Authorization\<close> header; empty when there is none.\<close>

definition bearer_token :: "string option \<Rightarrow> string" where
  "bearer_token header =
     (let h = or_else header []
      in if starts_with ''bearer '' (to_lower h) then js_trim (drop 7 h) else [])"

record cache_entry =
  ce_user :: auth_user
  ce_sub :: string
  ce_exp :: js_time

type_synonym auth_cache = "(string \<times> cache_entry) list"

definition resync_ms :: js_time where
  "resync_ms = 5 * 60 * 1000"

record admitted =
  ad_user :: auth_user
  ad_context :: "platform_context option"

datatype auth_error = Unauthorized | Userinfo_failed

record auth_services =
  verify_context :: "string \<Rightarrow> platform_context option"
  fetch_user_info :: "string \<Rightarrow> user_info option option"

text \<open>Setting an entry; the crude cap drops every entry first.\<close>

definition cache_set :: "auth_cache \<Rightarrow> string \<Rightarrow> cache_entry \<Rightarrow> auth_cache" where
  "cache_set cache token e = AList.update token e (if 2000 < length cache then [] else cache)"

text \<open>The opaque-token path once the context is verified and nothing usable is cached.
  \<open>fetch_user_info\<close> is \<open>None\<close> when the call throws and \<open>Some None\<close> for an answer that is
  not \<open>ok\<close>; \<open>email_verified === false\<close> is the only value refused.\<close>

definition admit_fresh ::
  "auth_services \<Rightarrow> js_time \<Rightarrow> pg_time \<Rightarrow> (nat \<Rightarrow> uuid) \<Rightarrow> nat option \<Rightarrow> db \<Rightarrow> auth_cache \<Rightarrow> string \<Rightarrow>
     platform_context \<Rightarrow> (auth_error, admitted) reply \<times> db \<times> auth_cache" where
  "admit_fresh sv now pg_now ids stop d cache token ctx =
     (case fetch_user_info sv token of
        None \<Rightarrow> (Failure 500 Userinfo_failed, d, cache)
      | Some None \<Rightarrow> (Failure 401 Unauthorized, d, cache)
      | Some (Some info) \<Rightarrow>
          if or_else (ui_sub info) [] = [] then (Failure 401 Unauthorized, d, cache)
          else if ui_email_verified info = Some False then (Failure 401 Unauthorized, d, cache)
          else if ui_sub info \<noteq> ctx_sub ctx then (Failure 401 Unauthorized, d, cache)
          else
            (let user = provision_user (the (ui_sub info)) (ui_email info) (ui_name info)
             in (Answer 200 \<lparr>ad_user = user, ad_context = None\<rparr>,
                 try_reconcile_teams pg_now (user_id user) d
                   (with_ids ids (context_to_org_claims (ctx_orgs ctx))) stop,
                 cache_set cache token
                   \<lparr>ce_user = user, ce_sub = the (ui_sub info), ce_exp = now + resync_ms\<rparr>)))"

text \<open>One request through \<open>authMiddleware\<close>: \<open>now\<close> and \<open>now'\<close> are the two readings of the clock,
  the second behind the reconcile; \<open>pg_now\<close> is the database's, \<open>ids\<close> what \<open>gen_random_uuid\<close>
  gives to teams that do not exist yet, \<open>stop\<close> the statement of the projection that fails, if one
  does: the failure is logged and the request goes on.\<close>

definition auth_middleware ::
  "auth_services \<Rightarrow> js_time \<Rightarrow> js_time \<Rightarrow> pg_time \<Rightarrow> (nat \<Rightarrow> uuid) \<Rightarrow> nat option \<Rightarrow> db \<Rightarrow> auth_cache \<Rightarrow>
     string option \<Rightarrow> string option \<Rightarrow> (auth_error, admitted) reply \<times> db \<times> auth_cache" where
  "auth_middleware sv now now' pg_now ids stop d cache authorization authz =
     (let token = bearer_token authorization;
          key_ctx = verify_context sv token
      in if token = [] then (Failure 401 Unauthorized, d, cache)
         else if key_ctx \<noteq> None \<and> or_else (ctx_sub (the key_ctx)) [] \<noteq> [] then
           (let c = the key_ctx;
                user = provision_user (the (ctx_sub c)) (ctx_email c) (ctx_name c)
            in (Answer 200 \<lparr>ad_user = user, ad_context = Some c\<rparr>,
                try_ensure_teams pg_now (user_id user) d
                  (with_ids ids (context_to_org_claims (ctx_orgs c))) stop,
                cache))
         else
           (let h = or_else authz []
            in case (if h \<noteq> [] then verify_context sv h else None) of
                 None \<Rightarrow> (Failure 401 Unauthorized, d, cache)
               | Some ctx \<Rightarrow>
                   (case map_of cache token of
                      None \<Rightarrow> admit_fresh sv now' pg_now ids stop d cache token ctx
                    | Some hit \<Rightarrow>
                        if now < ce_exp hit then
                          (if Some (ce_sub hit) \<noteq> ctx_sub ctx
                           then (Failure 401 Unauthorized, d, cache)
                           else (Answer 200 \<lparr>ad_user = ce_user hit, ad_context = None\<rparr>, d, cache))
                        else admit_fresh sv now' pg_now ids stop d cache token ctx)))"

section \<open>What the cache may hold\<close>

text \<open>\<open>vouched token sub t\<close>: the request that stamped its entry at \<open>t\<close>, behind its reconcile, had
  been told by userinfo that \<open>sub\<close> owns \<open>token\<close>.  Every entry stems from such a request and lives
  for the resync window from its stamp.\<close>

definition cache_vouched :: "(string \<Rightarrow> string \<Rightarrow> js_time \<Rightarrow> bool) \<Rightarrow> auth_cache \<Rightarrow> bool" where
  "cache_vouched vouched cache \<longleftrightarrow>
     (\<forall>token e. map_of cache token = Some e \<longrightarrow> user_id (ce_user e) = ce_sub e \<and>
        vouched token (ce_sub e) (ce_exp e - resync_ms))"

definition userinfo_vouches ::
  "auth_services \<Rightarrow> js_time \<Rightarrow> (string \<Rightarrow> string \<Rightarrow> js_time \<Rightarrow> bool) \<Rightarrow> bool" where
  "userinfo_vouches sv now vouched \<longleftrightarrow>
     (\<forall>token info s. fetch_user_info sv token = Some (Some info) \<longrightarrow> ui_sub info = Some s \<longrightarrow>
        vouched token s now)"

lemma cache_vouched_set:
  assumes "cache_vouched V cache" "user_id (ce_user e) = ce_sub e" "V token (ce_sub e) (ce_exp e - resync_ms)"
  shows "cache_vouched V (cache_set cache token e)"
  using assms unfolding cache_vouched_def cache_set_def
  by (auto simp: update_conv')

lemma admit_fresh_cases:
  assumes "admit_fresh sv now pg_now ids stop d cache token ctx = (r, d', cache')"
  obtains st e where "r = Failure st e" "d' = d" "cache' = cache"
  | info s where "fetch_user_info sv token = Some (Some info)" "ui_sub info = Some s" "ctx_sub ctx = Some s"
    "r = Answer 200 \<lparr>ad_user = provision_user s (ui_email info) (ui_name info), ad_context = None\<rparr>"
    "cache' = cache_set cache token \<lparr>ce_user = provision_user s (ui_email info) (ui_name info),
       ce_sub = s, ce_exp = now + resync_ms\<rparr>"
  using assms
  by (cases "fetch_user_info sv token"; cases "the (fetch_user_info sv token)";
      cases "ui_sub (the (the (fetch_user_info sv token)))"; cases "ctx_sub ctx")
    (auto simp: admit_fresh_def Let_def split: if_splits)

lemma admit_fresh_vouched:
  assumes "cache_vouched V cache" "userinfo_vouches sv now V"
    and "admit_fresh sv now pg_now ids stop d cache token ctx = (r, d', cache')"
  shows "cache_vouched V cache'"
  using assms(3)
proof (cases rule: admit_fresh_cases)
  case (2 info s)
  then show ?thesis using assms(1,2)
    by (auto simp: userinfo_vouches_def intro!: cache_vouched_set)
qed (use assms(1) in simp)

lemma auth_middleware_vouched:
  assumes "cache_vouched V cache" "userinfo_vouches sv now' V"
    and "auth_middleware sv now now' pg_now ids stop d cache a z = (r, d', cache')"
  shows "cache_vouched V cache'"
  using assms admit_fresh_vouched[OF assms(1,2)]
  by (auto simp: auth_middleware_def Let_def split: option.splits if_splits)

definition by_access_key :: "auth_services \<Rightarrow> string option \<Rightarrow> admitted \<Rightarrow> bool" where
  "by_access_key sv authorization a \<longleftrightarrow>
     (\<exists>c. verify_context sv (bearer_token authorization) = Some c \<and> ad_context a = Some c \<and>
        ctx_sub c = Some (user_id (ad_user a)))"

definition by_opaque_token ::
  "auth_services \<Rightarrow> (string \<Rightarrow> string \<Rightarrow> js_time \<Rightarrow> bool) \<Rightarrow> js_time \<Rightarrow> js_time \<Rightarrow> string option \<Rightarrow>
     string option \<Rightarrow> admitted \<Rightarrow> bool" where
  "by_opaque_token sv vouched now now' authorization authz a \<longleftrightarrow> ad_context a = None \<and>
     (\<exists>h c. authz = Some h \<and> verify_context sv h = Some c \<and> ctx_sub c = Some (user_id (ad_user a))) \<and>
     (\<exists>t. vouched (bearer_token authorization) (user_id (ad_user a)) t \<and>
        (now - t < resync_ms \<or> t = now'))"

lemma admit_fresh_Answer:
  assumes "userinfo_vouches sv now V"
    and "admit_fresh sv now pg_now ids stop d cache token ctx = (Answer st a, d', cache')"
  shows "ad_context a = None" "ctx_sub ctx = Some (user_id (ad_user a))"
    "V token (user_id (ad_user a)) now"
proof -
  from assms(2) show "ad_context a = None" "ctx_sub ctx = Some (user_id (ad_user a))"
    by (cases rule: admit_fresh_cases; simp)+
  from assms(2) show "V token (user_id (ad_user a)) now"
    using assms(1) by (cases rule: admit_fresh_cases) (auto simp: userinfo_vouches_def)
qed

lemma auth_middleware_admits:
  assumes V: "cache_vouched V cache" "userinfo_vouches sv now' V"
    and run: "auth_middleware sv now now' pg_now ids stop d cache authorization authz = (Answer st a, d', cache')"
  shows "by_access_key sv authorization a \<or> by_opaque_token sv V now now' authorization authz a"
proof -
  let ?tok = "bearer_token authorization"
  consider (key) c where "verify_context sv ?tok = Some c" "ad_context a = Some c"
      "ctx_sub c = Some (user_id (ad_user a))"
    | (fresh) h c where "authz = Some h" "verify_context sv h = Some c"
      "admit_fresh sv now' pg_now ids stop d cache ?tok c = (Answer st a, d', cache')"
    | (hit) h c e where "authz = Some h" "verify_context sv h = Some c" "map_of cache ?tok = Some e"
      "now < ce_exp e" "ctx_sub c = Some (ce_sub e)" "ad_user a = ce_user e" "ad_context a = None"
    using run
    by (auto simp: auth_middleware_def Let_def or_else_def split: option.splits if_splits)
  then show ?thesis
  proof cases
    case key
    then show ?thesis by (auto simp: by_access_key_def)
  next
    case fresh
    then show ?thesis using admit_fresh_Answer[OF V(2) fresh(3)] by (auto simp: by_opaque_token_def)
  next
    case hit
    have "user_id (ce_user e) = ce_sub e \<and> V ?tok (ce_sub e) (ce_exp e - resync_ms)"
      using V(1) hit(3) by (auto simp: cache_vouched_def)
    then show ?thesis using hit by (auto simp: by_opaque_token_def)
  qed
qed

section \<open>Grants\<close>

text \<open>\<open>requireGrant\<close>: the stashed context of the access-key path or the one in the header
  must grant the permission in the organisation the request resolves to.  Resolving may
  itself fail; it happens only once there is a context.\<close>

datatype 'e grant_error = Authorization_required | Missing_grant string | Resolve_failed 'e

fun grant_status :: "'e grant_error \<Rightarrow> nat" where
  "grant_status Authorization_required = 403"
| "grant_status (Missing_grant _) = 403"
| "grant_status (Resolve_failed _) = 500"

definition grant_context ::
  "(string \<Rightarrow> platform_context option) \<Rightarrow> platform_context option \<Rightarrow> string option \<Rightarrow>
     platform_context option" where
  "grant_context verify stashed authz =
     (case stashed of
        Some c \<Rightarrow> Some c
      | None \<Rightarrow> (let h = or_else authz [] in if h \<noteq> [] then verify h else None))"

definition require_grant ::
  "(string \<Rightarrow> platform_context option) \<Rightarrow> string \<Rightarrow> platform_context option \<Rightarrow> string option \<Rightarrow>
     'e + string option \<Rightarrow> 'e grant_error option" where
  "require_grant verify permission stashed authz resolved =
     (case grant_context verify stashed authz of
        None \<Rightarrow> Some Authorization_required
      | Some ctx \<Rightarrow>
          (case resolved of
             Inl e \<Rightarrow> Some (Resolve_failed e)
           | Inr org_id \<Rightarrow>
               (case find (\<lambda>c. co_kamuid_org_id c = org_id) (ctx_orgs ctx) of
                  None \<Rightarrow> Some (Missing_grant permission)
                | Some org \<Rightarrow>
                    if permission \<in> set (co_grants org) then None
                    else Some (Missing_grant permission))))"

definition grants :: "platform_context \<Rightarrow> string option \<Rightarrow> string \<Rightarrow> bool" where
  "grants ctx org permission \<longleftrightarrow>
     (\<exists>c \<in> set (ctx_orgs ctx). co_kamuid_org_id c = org \<and> permission \<in> set (co_grants c))"

lemma require_grant_None:
  assumes "require_grant verify permission stashed authz resolved = None"
  obtains ctx org where "resolved = Inr org" "grants ctx org permission"
    "stashed = Some ctx \<or> stashed = None \<and> (\<exists>h. authz = Some h \<and> verify h = Some ctx)"
  using assms
  by (auto simp: require_grant_def grant_context_def grants_def Let_def or_else_def
      dest: find_SomeD split: option.splits if_splits sum.splits)

text \<open>Both gates together: the grant that lets a request through is signed for the very
  principal the request runs as.\<close>

lemma admitted_grant:
  assumes "cache_vouched V cache" "userinfo_vouches sv now' V"
    and "auth_middleware sv now now' pg_now ids stop d cache authorization authz = (Answer st a, d', cache')"
    and "require_grant (verify_context sv) permission (ad_context a) authz resolved = None"
  shows "\<exists>ctx token org. verify_context sv token = Some ctx \<and>
      (token = bearer_token authorization \<or> Some token = authz) \<and>
      ctx_sub ctx = Some (user_id (ad_user a)) \<and> resolved = Inr org \<and> grants ctx org permission"
proof -
  obtain ctx org where ctx: "ad_context a = Some ctx \<or>
      ad_context a = None \<and> (\<exists>h. authz = Some h \<and> verify_context sv h = Some ctx)"
    "resolved = Inr org" "grants ctx org permission"
    using require_grant_None[OF assms(4)] by blast
  from auth_middleware_admits[OF assms(1-3)] show ?thesis
    using ctx by (intro exI[of _ ctx]) (auto simp: by_access_key_def by_opaque_token_def)
qed

end
