(* ===== verification/Key_Material.thy ===== *)
theory Key_Material
  imports Database
begin

text \<open>
  \<open>api/src/lib/keys.ts\<close>: generating a top-level secret, the claims of a derived
  sub-key, and the check of a presented gateway credential.  SHA-256, the
  EdDSA signature and its verification are parameters.
\<close>

section \<open>Top-level secrets\<close>

type_synonym bytes = "8 word list"

definition prefix_live :: string where
  "prefix_live = ''sk_live_''"

definition byte_hex :: "8 word \<Rightarrow> string" where
  "byte_hex b = pad_start 2 (CHR ''0'') (to_hex (unat b))"

definition bytes_hex :: "bytes \<Rightarrow> string" where
  "bytes_hex bs = concat (map byte_hex bs)"

text \<open>\<open>TextEncoder\<close>: UTF-8 of code units up to \<open>U+00FF\<close>.\<close>

definition utf8_char :: "char \<Rightarrow> bytes" where
  "utf8_char c =
     (let n = of_char c :: nat
      in if n < 128 then [of_nat n] else [of_nat (192 + n div 64), of_nat (128 + n mod 64)])"

definition text_encode :: "string \<Rightarrow> bytes" where
  "text_encode s = concat (map utf8_char s)"

record generated_key =
  gen_secret :: string
  gen_hash :: string
  gen_prefix :: string

definition hash_key :: "(bytes \<Rightarrow> bytes) \<Rightarrow> string \<Rightarrow> string" where
  "hash_key sha256 s = bytes_hex (sha256 (text_encode s))"

definition generate_top_level_key :: "(bytes \<Rightarrow> bytes) \<Rightarrow> bytes \<Rightarrow> generated_key" where
  "generate_top_level_key sha256 random =
     (let secret = prefix_live @ bytes_hex random
      in \<lparr>gen_secret = secret, gen_hash = hash_key sha256 secret, gen_prefix = slice 0 12 secret\<rparr>)"

lemma byte_hex_digits: "byte_hex b = hex_digits 2 (unat b)"
proof -
  have "unat b < 16 ^ 2" using unsigned_less[of b] by simp
  then show ?thesis by (simp add: byte_hex_def pad_to_hex)
qed

lemma length_byte_hex [simp]: "length (byte_hex b) = 2"
  by (simp add: byte_hex_digits)

lemma byte_hex_inj: "byte_hex a = byte_hex b \<Longrightarrow> a = b"
proof -
  assume "byte_hex a = byte_hex b"
  then have "unat a mod 256 = unat b mod 256"
    using hex_value_hex_digits[of 2 "unat a"] hex_value_hex_digits[of 2 "unat b"]
    by (simp add: byte_hex_digits)
  moreover have "unat a < 256" "unat b < 256" using unsigned_less[of a] unsigned_less[of b] by simp_all
  ultimately show "a = b" by (simp add: word_unat_eq_iff)
qed

lemma length_bytes_hex [simp]: "length (bytes_hex bs) = 2 * length bs"
  by (induction bs) (auto simp: bytes_hex_def)

text \<open>The hexadecimal text determines the bytes: secrets collide only when the random
  bytes do, hashes only when the digests do.\<close>

lemma bytes_hex_inj: "bytes_hex as = bytes_hex bs \<Longrightarrow> as = bs"
proof (induction as arbitrary: bs)
  case Nil
  then have "2 * length bs = 0" by (metis length_bytes_hex list.size(3) mult_0_right)
  then show ?case by simp
next
  case (Cons a as)
  then obtain b cs where bs: "bs = b # cs"
    using arg_cong[OF Cons.prems, of length] unfolding length_bytes_hex by (cases bs) auto
  have "byte_hex a @ bytes_hex as = byte_hex b @ bytes_hex cs"
    using Cons.prems by (simp add: bs bytes_hex_def)
  then have "byte_hex a = byte_hex b" "bytes_hex as = bytes_hex cs"
    by (simp_all add: append_eq_append_conv)
  then show ?case using Cons.IH byte_hex_inj bs by blast
qed

lemma generated_secret:
  "gen_secret (generate_top_level_key sha256 r) = prefix_live @ bytes_hex r"
  "gen_hash (generate_top_level_key sha256 r) = hash_key sha256 (prefix_live @ bytes_hex r)"
  by (simp_all add: generate_top_level_key_def Let_def)

lemma generated_prefix:
  "2 \<le> length r \<Longrightarrow> gen_prefix (generate_top_level_key sha256 r) = prefix_live @ bytes_hex (take 2 r)"
  by (cases r; cases "tl r")
    (auto simp: generate_top_level_key_def Let_def slice_def prefix_live_def bytes_hex_def
      take_Cons')

section \<open>Derived sub-keys\<close>

record sub_key_payload =
  pl_jti :: uuid
  pl_sub :: "uuid option"
  pl_models :: "string list"
  pl_budget_usd :: "rat option"
  pl_metadata :: "json option"

text \<open>A \<open>NUMERIC\<close> column comes back from the driver as text, and that is what the
  token carries.  Claims whose value is \<open>undefined\<close> are left out of the token.\<close>

definition sub_key_claims :: "sub_key_payload \<Rightarrow> rat \<Rightarrow> rat \<Rightarrow> json" where
  "sub_key_claims p expiry iat =
     JObj ([(''jti'', JStr (uuid_text (pl_jti p))),
       (''sub'', case pl_sub p of Some r \<Rightarrow> JStr (uuid_text r) | None \<Rightarrow> JNull),
       (''models'', JArr (map JStr (pl_models p))),
       (''budget_usd'', case pl_budget_usd p of Some b \<Rightarrow> JStr (numeric_text 4 b) | None \<Rightarrow> JNull)] @
       (case pl_metadata p of Some m \<Rightarrow> [(''metadata'', m)] | None \<Rightarrow> []) @
       [(''iat'', JNum (Fin iat)), (''exp'', JNum (Fin expiry))])"

text \<open>\<open>sign\<close> is \<open>None\<close> when importing the signing key or signing throws.\<close>

definition sign_sub_key_jwt ::
  "(json \<Rightarrow> json \<Rightarrow> string option) \<Rightarrow> string \<Rightarrow> sub_key_payload \<Rightarrow> rat \<Rightarrow> rat \<Rightarrow> string option" where
  "sign_sub_key_jwt sign kid p expiry iat =
     sign (JObj [(''alg'', JStr ''EdDSA''), (''kid'', JStr kid)]) (sub_key_claims p expiry iat)"

section \<open>Checking a credential\<close>

definition strip_bearer :: "string \<Rightarrow> string" where
  "strip_bearer s =
     (if starts_with ''bearer'' (to_lower s) \<and> (case drop 6 s of c # _ \<Rightarrow> js_space c | [] \<Rightarrow> False)
      then dropWhile js_space (drop 6 s) else s)"

definition extract_credential :: "(string \<Rightarrow> string option) \<Rightarrow> string" where
  "extract_credential headers =
     or_else (headers ''x-api-key'') (strip_bearer (or_else (headers ''authorization'') []))"

record usage_scope =
  scope_key :: uuid
  scope_type :: key_type

datatype credential_where = By_hash string | By_id string

text \<open>The lookup that the presented text selects; \<open>verify_jwt\<close> is \<open>jwtVerify\<close> against the
  gateway's own public key, \<open>None\<close> when it throws.\<close>

definition credential_lookup ::
  "(bytes \<Rightarrow> bytes) \<Rightarrow> (string \<Rightarrow> json option) \<Rightarrow> string \<Rightarrow> credential_where option" where
  "credential_lookup sha256 verify_jwt presented =
     (if starts_with prefix_live presented then Some (By_hash (hash_key sha256 presented))
      else if length (split_on (CHR ''.'') presented) = 3 then
        (case verify_jwt presented of
           None \<Rightarrow> None
         | Some payload \<Rightarrow>
             (case js_get payload ''jti'' of Some (JStr i) \<Rightarrow> Some (By_id i) | _ \<Rightarrow> None))
      else None)"

definition usable :: "pg_time \<Rightarrow> key_row \<Rightarrow> bool" where
  "usable now k \<longleftrightarrow> key_status k \<in> {Active, Over_budget} \<and>
     (case key_expires_at k of None \<Rightarrow> True | Some t \<Rightarrow> now < t)"

definition root_of :: "key_row \<Rightarrow> uuid" where
  "root_of k = or_else (key_root k) (key_id k)"

definition root_usable :: "pg_time \<Rightarrow> db \<Rightarrow> key_row \<Rightarrow> bool" where
  "root_usable now d k = (case find_key d (root_of k) of Some r \<Rightarrow> usable now r | None \<Rightarrow> False)"

text \<open>The row of the query, \<open>None\<close> for no row.  \<open>Inl ()\<close>: the id is not a \<open>uuid\<close> and the
  statement fails.\<close>

definition find_credential :: "pg_time \<Rightarrow> db \<Rightarrow> (key_row \<Rightarrow> bool) \<Rightarrow> usage_scope option" where
  "find_credential now d P =
     map_option (\<lambda>k. \<lparr>scope_key = key_id k, scope_type = key_kind k\<rparr>)
       (find (\<lambda>k. P k \<and> usable now k \<and> root_usable now d k) (db_keys d))"

definition verify_gateway_credential ::
  "(bytes \<Rightarrow> bytes) \<Rightarrow> (string \<Rightarrow> json option) \<Rightarrow> pg_time \<Rightarrow> db \<Rightarrow> string \<Rightarrow>
     unit + usage_scope option" where
  "verify_gateway_credential sha256 verify_jwt now d presented =
     (case credential_lookup sha256 verify_jwt presented of
        None \<Rightarrow> Inr None
      | Some (By_hash h) \<Rightarrow> Inr (find_credential now d (\<lambda>k. key_hash k = Some h \<and> key_kind k = Top))
      | Some (By_id i) \<Rightarrow>
          (case pg_uuid i of
             None \<Rightarrow> Inl ()
           | Some u \<Rightarrow> Inr (find_credential now d (\<lambda>k. key_id k = u \<and> key_kind k = Derived))))"

lemma find_credential_Some:
  assumes "find_credential now d P = Some sc"
  obtains k where "k \<in> set (db_keys d)" "scope_key sc = key_id k" "scope_type sc = key_kind k"
    "P k" "usable now k" "root_usable now d k"
  using assms by (auto simp: find_credential_def dest!: find_SomeD)

text \<open>What a granted scope is worth: the key exists, it and its root are usable now, and
  the presented text is its secret or a token signed for its id.\<close>

lemma verify_sound:
  assumes "verify_gateway_credential sha256 verify_jwt now d presented = Inr (Some sc)"
  obtains k where "k \<in> set (db_keys d)" "scope_key sc = key_id k" "scope_type sc = key_kind k"
    "usable now k" "root_usable now d k"
    "key_kind k = Top \<and> key_hash k = Some (hash_key sha256 presented) \<or>
     key_kind k = Derived \<and> (\<exists>p i. verify_jwt presented = Some p \<and>
       js_get p ''jti'' = Some (JStr i) \<and> pg_uuid i = Some (key_id k))"
  using assms
  by (auto simp: verify_gateway_credential_def credential_lookup_def
      elim!: find_credential_Some
      split: option.splits credential_where.splits if_splits json.splits)

lemma root_usableD:
  assumes "root_usable now d k"
  obtains r where "r \<in> set (db_keys d)" "key_id r = root_of k" "usable now r"
  using assms by (auto simp: root_usable_def split: option.splits dest: find_key_SomeD)

text \<open>The row a unique condition picks is the one found.\<close>

lemma find_unique:
  assumes "x \<in> set xs" "P x" "\<And>y. y \<in> set xs \<Longrightarrow> P y \<Longrightarrow> y = x"
  shows "find P xs = Some x"
proof -
  obtain y where y: "find P xs = Some y" using find_ex[of x xs P] assms(1,2) by blast
  then show ?thesis using assms(3) find_SomeD[OF y] by blast
qed

lemma find_credential_unique:
  assumes "k \<in> set (db_keys d)" "P k" "usable now k" "root_usable now d k"
    and "\<And>j. j \<in> set (db_keys d) \<Longrightarrow> P j \<Longrightarrow> j = k"
  shows "find_credential now d P = Some \<lparr>scope_key = key_id k, scope_type = key_kind k\<rparr>"
proof -
  have "find (\<lambda>k. P k \<and> usable now k \<and> root_usable now d k) (db_keys d) = Some k"
    using assms by (intro find_unique) blast+
  then show ?thesis by (simp add: find_credential_def)
qed

text \<open>What the signing library promises of a compact token with a row id as its \<open>jti\<close> and a number
  as its \<open>exp\<close>, if it signs at all: three parts, no look of a secret, and a verifier whose clock
  reads \<open>clock\<close> seconds gives a payload with that \<open>jti\<close> before \<open>exp\<close> and throws from then on.\<close>

definition jwt_round_trip :: "(json \<Rightarrow> json \<Rightarrow> string option) \<Rightarrow> (string \<Rightarrow> json option) \<Rightarrow> int \<Rightarrow> bool" where
  "jwt_round_trip sign verify clock \<longleftrightarrow>
     (\<forall>h c u x t. js_get c ''jti'' = Some (JStr (uuid_text u)) \<longrightarrow> js_get c ''exp'' = Some (JNum (Fin x)) \<longrightarrow>
        sign h c = Some t \<longrightarrow> length (split_on (CHR ''.'') t) = 3 \<and> \<not> starts_with prefix_live t \<and>
        (if of_int clock < x then \<exists>p. verify t = Some p \<and> js_get p ''jti'' = Some (JStr (uuid_text u))
         else verify t = None))"

lemma claims_jti:
  "js_get (sub_key_claims p x y) ''jti'' = Some (JStr (uuid_text (pl_jti p)))"
  "js_get (sub_key_claims p x y) ''exp'' = Some (JNum (Fin x))"
  by (simp_all add: js_get_def sub_key_claims_def map_of_append split: option.splits)

lemma lookup_signed:
  assumes "jwt_round_trip sign verify clock" "sign_sub_key_jwt sign kid p x y = Some t"
  shows "credential_lookup sha256 verify t = (if of_int clock < x then Some (By_id (uuid_text (pl_jti p))) else None)"
proof -
  have "length (split_on (CHR ''.'') t) = 3" "\<not> starts_with prefix_live t"
    "if of_int clock < x then \<exists>q. verify t = Some q \<and> js_get q ''jti'' = Some (JStr (uuid_text (pl_jti p))) else verify t = None"
    using assms claims_jti[of p x y] unfolding jwt_round_trip_def sign_sub_key_jwt_def by blast+
  then show ?thesis by (auto simp: credential_lookup_def)
qed

end
