(* ===== verification/Keys_Routes.thy ===== *)
theory Keys_Routes
  imports Auth Key_Material
begin

text \<open>
  \<open>api/src/routes/keys.ts\<close> up to and including revoke: resolving the organisation a
  request targets, the model allowlist check, and the handlers that list, mint,
  show and revoke keys.  How the driver binds a parameter that is not text or a
  number of the model is the record \<open>driver\<close>; \<open>None\<close> stands for a statement that the
  server refuses, which ends the request with status 500.
\<close>

section \<open>Parameters\<close>

text \<open>\<open>bind_jsonb v\<close> is what the column holds after \<open>JSON.stringify(v)\<close> was bound to a
  parameter cast to \<open>jsonb\<close>.\<close>

record driver =
  bind_uuid :: "json \<Rightarrow> uuid option"
  bind_budget :: "json \<Rightarrow> rat option"
  bind_time :: "json \<Rightarrow> pg_time option"
  bind_date :: "js_time \<Rightarrow> pg_time option"
  bind_jsonb :: "json \<Rightarrow> json option"

datatype keys_error =
    Bad_json
  | Type_error
  | Sql_error
  | Row_level_security
  | Team_id_required
  | Label_required
  | Models_not_strings
  | Team_not_found
  | Key_not_found
  | Not_granted "keys_error grant_error"

text \<open>\<open>x ?? null\<close> bound as a parameter: \<open>NULL\<close> for nothing.\<close>

definition bind_opt :: "(json \<Rightarrow> 'a option) \<Rightarrow> json \<Rightarrow> 'a option option" where
  "bind_opt bind v = (if v = JNull then Some None else map_option Some (bind v))"

text \<open>A property of a body that is not \<open>null\<close>; absent and \<open>null\<close> are the same.\<close>

definition field_of :: "json \<Rightarrow> string \<Rightarrow> json" where
  "field_of v name = or_else (js_get v name) JNull"

section \<open>The organisation of a request\<close>

definition team_org :: "db \<Rightarrow> uuid \<Rightarrow> string option" where
  "team_org d t = map_option kamuid_org_id (find_team d t)"

text \<open>\<open>teamOrgIdFromCreate\<close>: an unreadable body counts as \<open>{}\<close>; a body \<open>null\<close> cannot be
  destructured.\<close>

definition team_org_id_from_create :: "driver \<Rightarrow> db \<Rightarrow> json option \<Rightarrow> keys_error + string option" where
  "team_org_id_from_create dr d body =
     (let b = or_else body (JObj []) in
      if b = JNull then Inl Type_error
      else if \<not> js_truthy (field_of b ''team_id'') then Inr None
      else case bind_uuid dr (field_of b ''team_id'') of
             None \<Rightarrow> Inl Sql_error
           | Some t \<Rightarrow> Inr (team_org d t))"

definition team_org_id_from_key :: "db \<Rightarrow> string \<Rightarrow> keys_error + string option" where
  "team_org_id_from_key d id_text =
     (case pg_uuid id_text of
        None \<Rightarrow> Inl Sql_error
      | Some i \<Rightarrow>
          (case find_key d i of
             None \<Rightarrow> Inr None
           | Some k \<Rightarrow> Inr (team_org d (key_team k))))"

section \<open>Model allowlists\<close>

definition models_subset :: "string list \<Rightarrow> string list \<Rightarrow> bool" where
  "models_subset child parent =
     (let parent_has_all = ''*'' \<in> set parent in
      if ''*'' \<in> set child then parent_has_all
      else if parent_has_all then True
      else list_all (\<lambda>m. m \<in> set parent) child)"

text \<open>What an allowlist admits.\<close>

definition allows :: "string list \<Rightarrow> string \<Rightarrow> bool" where
  "allows ms m \<longleftrightarrow> ''*'' \<in> set ms \<or> m \<in> set ms"

lemma fresh_name: "\<exists>m::string. m \<notin> set ms"
  using ex_new_if_finite[OF infinite_UNIV_listI finite_set] .

lemma models_subset_iff: "models_subset child parent \<longleftrightarrow> (\<forall>m. allows child m \<longrightarrow> allows parent m)"
  using fresh_name[of parent]
  by (auto simp: models_subset_def allows_def Let_def list_all_iff)

section \<open>Listing\<close>

text \<open>The join with \<open>llm.teams\<close> runs under the same row-level security.  The order of rows
  with equal \<open>created_at\<close> is any \<open>rank\<close>.\<close>

definition list_keys :: "(key_row \<Rightarrow> int) \<Rightarrow> db \<Rightarrow> string \<Rightarrow> (key_row \<times> string) list" where
  "list_keys rank d uid =
     concat (map (\<lambda>k. map (\<lambda>t. (k, kamuid_org_id t))
         (filter (\<lambda>t. team_id t = key_team k) (visible_teams d uid)))
       (sort_key (\<lambda>k. - key_created_at k) (sort_key rank (visible_keys d uid))))"

section \<open>Minting\<close>

definition insert_key :: "db \<Rightarrow> key_row \<Rightarrow> db" where
  "insert_key d k = d\<lparr>db_keys := db_keys d @ [k]\<rparr>"

definition update_keys :: "(key_row \<Rightarrow> bool) \<Rightarrow> (key_row \<Rightarrow> key_row) \<Rightarrow> db \<Rightarrow> db" where
  "update_keys P f d = d\<lparr>db_keys := map (\<lambda>k. if P k then f k else k) (db_keys d)\<rparr>"

text \<open>The label of a body: \<open>body.label?.trim()\<close> throws on anything but text.\<close>

definition body_label :: "json \<Rightarrow> keys_error + string" where
  "body_label b =
     (case field_of b ''label'' of JNull \<Rightarrow> Inr [] | JStr s \<Rightarrow> Inr (js_trim s) | _ \<Rightarrow> Inl Type_error)"

definition body_models :: "json \<Rightarrow> string list option" where
  "body_models b =
     (case field_of b ''models'' of JNull \<Rightarrow> Some [''*''] | v \<Rightarrow> string_array v)"

definition top_key_row ::
  "uuid \<Rightarrow> uuid \<Rightarrow> string \<Rightarrow> generated_key \<Rightarrow> string list \<Rightarrow> rat option \<Rightarrow> pg_time option \<Rightarrow>
     json option \<Rightarrow> string \<Rightarrow> pg_time \<Rightarrow> key_row" where
  "top_key_row i team label g ms budget expires meta user now =
     \<lparr>key_id = i, key_team = team, key_label = label, key_hash = Some (gen_hash g),
      key_prefix = Some (gen_prefix g), key_kind = Top, key_models = ms, key_budget = budget,
      key_status = Active, key_parent = None, key_root = None, key_metadata = meta,
      key_constraints = None, key_expires_at = expires, key_created_at = now,
      key_updated_at = now, key_revoked_at = None, key_created_by = Some user,
      key_revoked_by = None\<rparr>"

text \<open>\<open>POST /keys\<close> up to the insert, a transaction of its own that runs as the user.  \<open>i\<close> is the
  generated id, \<open>random\<close> the 32 random bytes.\<close>

definition create_insert ::
  "driver \<Rightarrow> (bytes \<Rightarrow> bytes) \<Rightarrow> bytes \<Rightarrow> uuid \<Rightarrow> pg_time \<Rightarrow> string \<Rightarrow> db \<Rightarrow> json option \<Rightarrow>
     (keys_error, key_row \<times> string) reply \<times> db" where
  "create_insert dr sha256 random i now user d body =
     (case body of None \<Rightarrow> (Failure 500 Bad_json, d) | Some b \<Rightarrow>
      if b = JNull then (Failure 500 Type_error, d) else
      case body_label b of Inl e \<Rightarrow> (Failure 500 e, d) | Inr label \<Rightarrow>
      if \<not> js_truthy (field_of b ''team_id'') then (Failure 400 Team_id_required, d)
      else if label = [] then (Failure 400 Label_required, d) else
      case body_models b of None \<Rightarrow> (Failure 400 Models_not_strings, d) | Some ms \<Rightarrow>
      case bind_uuid dr (field_of b ''team_id'') of None \<Rightarrow> (Failure 500 Sql_error, d) | Some team \<Rightarrow>
      if find_team d team = None then (Failure 404 Team_not_found, d) else
      let g = generate_top_level_key sha256 random in
      case (bind_opt (bind_budget dr) (field_of b ''budget_usd''),
            bind_opt (bind_time dr) (field_of b ''expires_at''),
            bind_opt (bind_jsonb dr) (field_of b ''metadata'')) of
        (Some budget, Some expires, Some meta) \<Rightarrow>
          (let k = top_key_row i team label g ms budget expires meta user now in
           if \<not> may_insert_key d user k then (Failure 500 Row_level_security, d)
           else (Answer 201 (k, gen_secret g), insert_key d k))
      | _ \<Rightarrow> (Failure 500 Sql_error, d))"

text \<open>The second statement, on the owner pool, makes the key its own root.\<close>

definition set_root :: "pg_time \<Rightarrow> uuid \<Rightarrow> db \<Rightarrow> db" where
  "set_root now i = update_keys (\<lambda>r. key_id r = i) (\<lambda>r. r\<lparr>key_root := Some (key_id r), key_updated_at := now\<rparr>)"

text \<open>The handler.  \<open>second\<close> is what becomes of the second statement: \<open>None\<close> when it fails, and the
  inserted row stays; otherwise its time and what others commit between the two.  The reply
  carries the inserted row with its root filled in, whatever has become of the row meanwhile.\<close>

definition create_key ::
  "driver \<Rightarrow> (bytes \<Rightarrow> bytes) \<Rightarrow> bytes \<Rightarrow> uuid \<Rightarrow> pg_time \<Rightarrow> (pg_time \<times> (db \<Rightarrow> db)) option \<Rightarrow> string \<Rightarrow> db \<Rightarrow>
     json option \<Rightarrow> (keys_error, key_row \<times> string) reply \<times> db" where
  "create_key dr sha256 random i now second user d body =
     (case create_insert dr sha256 random i now user d body of
        (Failure st e, d1) \<Rightarrow> (Failure st e, d1)
      | (Answer st (k, secret), d1) \<Rightarrow>
          (case second of
             None \<Rightarrow> (Failure 500 Sql_error, d1)
           | Some (now', others) \<Rightarrow>
               (Answer st (k\<lparr>key_root := Some (key_id k)\<rparr>, secret), set_root now' (key_id k) (others d1))))"

abbreviation at_once :: "pg_time \<Rightarrow> (pg_time \<times> (db \<Rightarrow> db)) option" where
  "at_once now' \<equiv> Some (now', \<lambda>d. d)"

text \<open>The route: the grant gate in front of the handler.\<close>

definition post_keys ::
  "auth_services \<Rightarrow> driver \<Rightarrow> (bytes \<Rightarrow> bytes) \<Rightarrow> bytes \<Rightarrow> uuid \<Rightarrow> pg_time \<Rightarrow> (pg_time \<times> (db \<Rightarrow> db)) option \<Rightarrow>
     admitted \<Rightarrow> string option \<Rightarrow> db \<Rightarrow> json option \<Rightarrow> (keys_error, key_row \<times> string) reply \<times> db" where
  "post_keys sv dr sha256 random i now second a authz d body =
     (case require_grant (verify_context sv) ''llm.keys.create'' (ad_context a) authz
             (team_org_id_from_create dr d body) of
        Some e \<Rightarrow> (Failure (grant_status e) (Not_granted e), d)
      | None \<Rightarrow> create_key dr sha256 random i now second (user_id (ad_user a)) d body)"

section \<open>Detail\<close>

record usage_totals =
  total_cost_usd :: rat
  total_tokens_in :: int
  total_tokens_out :: int
  total_requests :: int

definition cost_of :: "usage_row \<Rightarrow> rat" where
  "cost_of u = or_else (ul_cost u) 0"

definition totals_of :: "usage_row list \<Rightarrow> usage_totals" where
  "totals_of us =
     \<lparr>total_cost_usd = sum_list (map cost_of us), total_tokens_in = sum_list (map ul_tokens_in us),
      total_tokens_out = sum_list (map ul_tokens_out us), total_requests = int (length us)\<rparr>"

text \<open>The casts to \<open>int\<close> fail on overflow.\<close>

definition int4 :: "int \<Rightarrow> bool" where
  "int4 n \<longleftrightarrow> - (2 ^ 31) \<le> n \<and> n < 2 ^ 31"

definition totals_fit :: "usage_totals \<Rightarrow> bool" where
  "totals_fit t \<longleftrightarrow> int4 (total_tokens_in t) \<and> int4 (total_tokens_out t) \<and> int4 (total_requests t)"

definition of_subtree :: "uuid \<Rightarrow> usage_row \<Rightarrow> bool" where
  "of_subtree i u \<longleftrightarrow> ul_key_id u = i \<or> ul_root u = Some i"

definition key_detail ::
  "db \<Rightarrow> string \<Rightarrow> string \<Rightarrow> (keys_error, (key_row \<times> string) \<times> usage_totals) reply" where
  "key_detail d uid id_text =
     (case pg_uuid id_text of None \<Rightarrow> Failure 500 Sql_error | Some i \<Rightarrow>
      case find (\<lambda>r. key_id (fst r) = i) (list_keys (\<lambda>_. 0) d uid) of
        None \<Rightarrow> Failure 404 Key_not_found
      | Some row \<Rightarrow>
          (let t = totals_of (filter (of_subtree i) (visible_usage d uid))
           in if totals_fit t then Answer 200 (row, t) else Failure 500 Sql_error))"

section \<open>Revoking\<close>

definition revoke_key ::
  "pg_time \<Rightarrow> string \<Rightarrow> db \<Rightarrow> string \<Rightarrow> (keys_error, nat) reply \<times> db" where
  "revoke_key now user d id_text =
     (case pg_uuid id_text of None \<Rightarrow> (Failure 500 Sql_error, d) | Some i \<Rightarrow>
      if find (\<lambda>k. key_id k = i) (visible_keys d user) = None then (Failure 404 Key_not_found, d)
      else
        (let n = length (filter (in_subtree i) (db_keys d)) in
         if n = 0 then (Failure 404 Key_not_found, d)
         else (Answer 200 n,
               update_keys (in_subtree i)
                 (\<lambda>k. k\<lparr>key_status := Revoked, key_revoked_at := Some now,
                        key_revoked_by := Some user, key_updated_at := now\<rparr>) d)))"

definition post_revoke ::
  "auth_services \<Rightarrow> pg_time \<Rightarrow> admitted \<Rightarrow> string option \<Rightarrow> db \<Rightarrow> string \<Rightarrow> (keys_error, nat) reply \<times> db" where
  "post_revoke sv now a authz d id_text =
     (case require_grant (verify_context sv) ''llm.keys.revoke'' (ad_context a) authz
             (team_org_id_from_key d id_text) of
        Some e \<Rightarrow> (Failure (grant_status e) (Not_granted e), d)
      | None \<Rightarrow> revoke_key now (user_id (ad_user a)) d id_text)"

section \<open>What minting and revoking keep\<close>

lemma update_keys_frame [frame_simps]:
  "db_members (update_keys P f d) = db_members d" "db_teams (update_keys P f d) = db_teams d"
  "db_usage (update_keys P f d) = db_usage d" "db_spend (update_keys P f d) = db_spend d"
  "db_members (insert_key d k) = db_members d" "db_teams (insert_key d k) = db_teams d"
  "db_usage (insert_key d k) = db_usage d" "db_spend (insert_key d k) = db_spend d"
  by (simp_all add: update_keys_def insert_key_def)

lemma set_update_keys:
  "k \<in> set (db_keys (update_keys P f d)) \<longleftrightarrow>
     (\<exists>k0\<in>set (db_keys d). k = (if P k0 then f k0 else k0))"
  by (auto simp: update_keys_def)

lemma keys_ok_update:
  "keys_ok d \<Longrightarrow> (\<And>k. k \<in> set (db_keys d) \<Longrightarrow> P k \<Longrightarrow> keeps_lineage k (f k)) \<Longrightarrow> keys_ok (update_keys P f d)"
  by (rule keys_ok_map[of d "\<lambda>k. if P k then f k else k"]) (auto simp: update_keys_def)

lemma root_keeps_lineage:
  "keys_ok d \<Longrightarrow> k \<in> set (db_keys d) \<Longrightarrow> key_kind k = Top \<Longrightarrow>
     keeps_lineage k (k\<lparr>key_root := Some (key_id k), key_updated_at := now\<rparr>)"
  using keys_okD(2)[of d k] by (auto simp: keeps_lineage_def top_ok_def)

lemma keys_ok_set_root [wf_intros]:
  "keys_ok d \<Longrightarrow> (\<And>k. k \<in> set (db_keys d) \<Longrightarrow> key_id k = i \<Longrightarrow> key_kind k = Top) \<Longrightarrow> keys_ok (set_root now i d)"
  unfolding set_root_def by (rule keys_ok_update) (use root_keeps_lineage in blast)+

lemma find_key_update:
  "(\<And>k. key_id (f k) = key_id k) \<Longrightarrow>
     find_key (update_keys P f d) i = map_option (\<lambda>k. if P k then f k else k) (find_key d i)"
  unfolding find_key_def update_keys_def by (simp add: find_map_same)

text \<open>The stored row of a mint: one new top-level key, without a root until the second statement.\<close>

lemma create_insert_Answer:
  assumes "create_insert dr sha256 random i now user d body = (Answer st (k, s), d1)"
  shows "st = 201" "s = prefix_live @ bytes_hex random"
    "key_id k = i" "key_kind k = Top" "key_status k = Active" "key_parent k = None" "key_root k = None"
    "key_hash k = Some (hash_key sha256 s)" "key_team k \<in> set (user_teams d user)"
    "find_team d (key_team k) \<noteq> None" "key_label k \<noteq> []" "d1 = insert_key d k" "key_created_by k = Some user"
  using assms
  by (auto simp: create_insert_def Let_def top_key_row_def generated_secret may_insert_key_def
      split: option.splits sum.splits if_splits)

lemma create_insert_Failure:
  "create_insert dr sha256 random i now user d body = (Failure st e, d1) \<Longrightarrow> d1 = d"
  by (auto simp: create_insert_def Let_def split: option.splits sum.splits if_splits)

lemma create_insert_ok [wf_intros]:
  assumes "create_insert dr sha256 random i now user d body = (r, d1)" "keys_ok d" "\<not> key_exists d i"
  shows "keys_ok d1"
proof (cases r)
  case (Answer st p)
  then obtain k s where "create_insert dr sha256 random i now user d body = (Answer st (k, s), d1)"
    using assms(1) by (cases p) auto
  note k = create_insert_Answer[OF this]
  show ?thesis
    by (rule keys_ok_insert_top[OF assms(2), of k]) (use assms(3) k in \<open>auto simp: top_ok_def insert_key_def\<close>)
next
  case (Failure st e)
  then show ?thesis using create_insert_Failure assms(1,2) by blast
qed

text \<open>The three ways a mint ends.\<close>

lemma create_key_cases:
  assumes "create_key dr sha256 random i now second user d body = (r, d')"
  obtains (refused) st e where "create_insert dr sha256 random i now user d body = (Failure st e, d)"
      "r = Failure st e" "d' = d"
    | (rootless) k s where "create_insert dr sha256 random i now user d body = (Answer 201 (k, s), insert_key d k)"
      "second = None" "r = Failure 500 Sql_error" "d' = insert_key d k"
    | (minted) k s now' others where "create_insert dr sha256 random i now user d body = (Answer 201 (k, s), insert_key d k)"
      "second = Some (now', others)" "r = Answer 201 (k\<lparr>key_root := Some i\<rparr>, s)" "d' = set_root now' i (others (insert_key d k))"
proof (cases "create_insert dr sha256 random i now user d body")
  case (Pair x d1)
  show ?thesis
  proof (cases x)
    case (Answer st p)
    obtain k s where p: "p = (k, s)" by (cases p)
    note run = Pair[unfolded Answer p] and k = create_insert_Answer[OF Pair[unfolded Answer p]]
    have ins: "create_insert dr sha256 random i now user d body = (Answer 201 (k, s), insert_key d k)"
      using run k(1,12) by simp
    show ?thesis
    proof (cases second)
      case None
      then have "r = Failure 500 Sql_error" "d' = insert_key d k" using assms by (simp_all add: create_key_def ins)
      with None show ?thesis by (rule rootless[OF ins])
    next
      case (Some x)
      obtain now' others where x: "x = (now', others)" by (cases x)
      have "r = Answer 201 (k\<lparr>key_root := Some i\<rparr>, s)" "d' = set_root now' i (others (insert_key d k))"
        using assms k(3) by (simp_all add: create_key_def ins Some x)
      then show ?thesis by (rule minted[OF ins Some[unfolded x]])
    qed
  next
    case (Failure st e)
    then have run: "create_insert dr sha256 random i now user d body = (Failure st e, d)"
      using create_insert_Failure Pair by blast
    then have "r = Failure st e" "d' = d" using assms by (simp_all add: create_key_def)
    with run show ?thesis by (rule refused)
  qed
qed

lemma create_key_Answer:
  assumes "create_key dr sha256 random i now second user d body = (Answer st (k, s), d')"
  obtains k0 now' others where "create_insert dr sha256 random i now user d body = (Answer 201 (k0, s), insert_key d k0)"
    "st = 201" "second = Some (now', others)" "k = k0\<lparr>key_root := Some i\<rparr>" "d' = set_root now' i (others (insert_key d k0))"
  using assms by (cases rule: create_key_cases) auto

text \<open>With nothing in between, the key table has one row more.\<close>

lemma set_root_inserted:
  assumes "key_id k = i" "\<not> key_exists d i"
  shows "set_root now i (insert_key d k) = insert_key d (k\<lparr>key_root := Some i, key_updated_at := now\<rparr>)"
proof -
  have "map (\<lambda>r. if key_id r = i then r\<lparr>key_root := Some (key_id r), key_updated_at := now\<rparr> else r) (db_keys d) = db_keys d"
    by (rule map_idI) (use assms(2) in \<open>auto simp: key_exists_def\<close>)
  then show ?thesis using assms(1) by (simp add: set_root_def update_keys_def insert_key_def)
qed

text \<open>A revocation reaches the key and everything under it, and nothing else.\<close>

lemma revoke_key_Answer:
  assumes "revoke_key now user d id_text = (Answer st n, d')"
  obtains i where "pg_uuid id_text = Some i" "st = 200"
    "\<exists>k\<in>set (visible_keys d user). key_id k = i"
    "n = length (filter (in_subtree i) (db_keys d))"
    "d' = update_keys (in_subtree i)
       (\<lambda>k. k\<lparr>key_status := Revoked, key_revoked_at := Some now,
              key_revoked_by := Some user, key_updated_at := now\<rparr>) d"
  using assms
  by (auto simp: revoke_key_def Let_def dest!: find_SomeD split: option.splits if_splits)

lemma revoke_key_ok [wf_intros]:
  assumes "revoke_key now user d id_text = (r, d')" "keys_ok d"
  shows "keys_ok d'"
  using assms
  by (auto simp: revoke_key_def Let_def keeps_lineage_def intro!: keys_ok_update
      split: option.splits if_splits)

text \<open>A key is dead when it or its root is revoked: no credential of it is accepted.\<close>

definition dead :: "db \<Rightarrow> uuid \<Rightarrow> bool" where
  "dead d i \<longleftrightarrow> (\<forall>k\<in>set (db_keys d). key_id k = i \<longrightarrow>
     key_status k = Revoked \<or> (\<exists>r. find_key d (root_of k) = Some r \<and> key_status r = Revoked))"

lemma verify_not_dead:
  assumes "verify_gateway_credential sha256 verify_jwt now d presented = Inr (Some sc)"
  shows "\<not> dead d (scope_key sc)"
proof -
  obtain k where k: "k \<in> set (db_keys d)" "scope_key sc = key_id k" "usable now k" "root_usable now d k"
    using verify_sound[OF assms] by metis
  then show ?thesis by (auto simp: dead_def usable_def root_usable_def split: option.splits)
qed

lemma revoke_key_dead:
  assumes "revoke_key now user d id_text = (Answer st n, d')" "pg_uuid id_text = Some i"
    and "keys_ok d" "k \<in> set (db_keys d)" "in_subtree i k"
  shows "dead d' (key_id k)"
proof -
  have d': "d' = update_keys (in_subtree i)
       (\<lambda>k. k\<lparr>key_status := Revoked, key_revoked_at := Some now,
              key_revoked_by := Some user, key_updated_at := now\<rparr>) d"
    using revoke_key_Answer[OF assms(1)] assms(2) by auto
  have "key_status j = Revoked" if j: "j \<in> set (db_keys d')" "key_id j = key_id k" for j
  proof -
    obtain j0 where j0: "j0 \<in> set (db_keys d)"
      "j = (if in_subtree i j0 then j0\<lparr>key_status := Revoked, key_revoked_at := Some now,
              key_revoked_by := Some user, key_updated_at := now\<rparr> else j0)"
      using j(1) unfolding d' set_update_keys by blast
    then have "key_id j0 = key_id k" using j(2) by (simp split: if_splits)
    then have "j0 = k"
      using distinct_map_unique[OF keys_okD(1)[OF assms(3)] j0(1) assms(4)] by blast
    then show ?thesis using j0(2) assms(5) by simp
  qed
  then show ?thesis by (auto simp: dead_def)
qed

section \<open>Secrets that work, and grants that fit\<close>

text \<open>The secret of a mint opens the gateway as the new row, whatever other writers commit between its
  two statements, as long as they leave the row alone.\<close>

lemma minted_verifies:
  assumes ans: "create_key dr sha256 random i now (Some (now', others)) user d body = (Answer st (k, s), d')"
    and d1: "d1 = others (insert_key d (k\<lparr>key_root := None\<rparr>))" and ok: "keys_ok d1"
    and kept: "k\<lparr>key_root := None\<rparr> \<in> set (db_keys d1)"
    and unique: "\<forall>j\<in>set (db_keys d1). key_hash j = key_hash k \<longrightarrow> key_id j = i"
    and live: "case key_expires_at k of None \<Rightarrow> True | Some t \<Rightarrow> later < t"
  shows "verify_gateway_credential sha256 verify later d' s = Inr (Some \<lparr>scope_key = i, scope_type = Top\<rparr>)"
proof -
  obtain k0 where ins: "create_insert dr sha256 random i now user d body = (Answer 201 (k0, s), insert_key d k0)"
    and k0: "k = k0\<lparr>key_root := Some i\<rparr>" "d' = set_root now' i (others (insert_key d k0))"
    using create_key_Answer[OF ans] by (metis option.inject prod.inject)
  note c = create_insert_Answer[OF ins]
  have plain: "k\<lparr>key_root := None\<rparr> = k0" using c(7) by (simp add: k0(1))
  have d': "d' = set_root now' i d1" by (simp add: k0(2) d1 plain)
  have k0_in: "k0 \<in> set (db_keys d1)" using kept plain by simp
  have only: "j = k0" if "j \<in> set (db_keys d1)" "key_id j = i" for j
    using distinct_map_unique[OF keys_okD(1)[OF ok] that(1) k0_in] that(2) c(3) by simp
  let ?k = "k\<lparr>key_updated_at := now'\<rparr>"
  have k: "key_id ?k = i" "key_kind ?k = Top" "key_status ?k = Active" "key_root ?k = Some i"
    "key_hash ?k = Some (hash_key sha256 s)" using c by (simp_all add: k0(1))
  have ok': "keys_ok d'" unfolding d'
    by (rule keys_ok_set_root[OF ok]) (use only c(4) in blast)
  have upd: "(if key_id j0 = i then j0\<lparr>key_root := Some (key_id j0), key_updated_at := now'\<rparr> else j0) =
      (if j0 = k0 then ?k else j0)" if "j0 \<in> set (db_keys d1)" for j0
  proof (cases "j0 = k0")
    case True
    then show ?thesis using c(3) by (simp add: k0(1))
  next
    case False
    then have "key_id j0 \<noteq> i" using only that by blast
    with False show ?thesis by simp
  qed
  have rows: "j \<in> set (db_keys d') \<longleftrightarrow> (\<exists>j0\<in>set (db_keys d1). j = (if j0 = k0 then ?k else j0))" for j
    unfolding d' set_root_def set_update_keys by (rule bex_cong) (simp_all only: upd)
  have mem: "?k \<in> set (db_keys d')" using rows k0_in by auto
  have "find_key d' (root_of ?k) = Some ?k"
    using mem k(1,4) by (simp add: find_key_iff[OF keys_okD(1)[OF ok']] root_of_def)
  moreover have "usable later ?k" using k(3) live by (simp add: usable_def)
  ultimately have u: "usable later ?k" "root_usable later d' ?k" by (simp_all add: root_usable_def)
  have "find_credential later d' (\<lambda>j. key_hash j = Some (hash_key sha256 s) \<and> key_kind j = Top) =
      Some \<lparr>scope_key = key_id ?k, scope_type = key_kind ?k\<rparr>"
  proof (rule find_credential_unique[OF mem _ u])
    show "key_hash ?k = Some (hash_key sha256 s) \<and> key_kind ?k = Top" using k(2,5) by blast
    show "j = ?k" if "j \<in> set (db_keys d')" "key_hash j = Some (hash_key sha256 s) \<and> key_kind j = Top" for j
    proof -
      from iffD1[OF rows that(1)] obtain j0 where j0: "j0 \<in> set (db_keys d1)" "j = (if j0 = k0 then ?k else j0)" by (rule bexE)
      have "j0 = k0"
      proof (rule ccontr)
        assume "j0 \<noteq> k0"
        then have "key_hash j0 = key_hash k" using that(2) j0(2) k(5) by simp
        then have "key_id j0 = i" using unique j0(1) by blast
        then show False using only[OF j0(1)] \<open>j0 \<noteq> k0\<close> by simp
      qed
      then show ?thesis using j0(2) by simp
    qed
  qed
  moreover have "credential_lookup sha256 verify s = Some (By_hash (hash_key sha256 s))"
    by (simp add: credential_lookup_def c(2) starts_with_def)
  ultimately show ?thesis using k(1,2) by (simp add: verify_gateway_credential_def)
qed

text \<open>The organisation the gate looks up is that of the team the row is for.\<close>

lemma create_insert_org:
  assumes "create_insert dr sha256 random i now user d body = (Answer st (k, s), d1)"
  shows "team_org_id_from_create dr d0 body = Inr org \<Longrightarrow> org = team_org d0 (key_team k)"
    "team_org_id_from_create dr d body = Inr (team_org d (key_team k))"
  using assms
  by (auto simp: create_insert_def team_org_id_from_create_def Let_def top_key_row_def
      split: option.splits sum.splits if_splits)

lemma post_keys_insert:
  assumes "post_keys sv dr sha256 random i now second a authz d body = (r, d')" "d' \<noteq> d \<or> (\<exists>st x. r = Answer st x)"
  obtains org k s where
    "require_grant (verify_context sv) ''llm.keys.create'' (ad_context a) authz
       (team_org_id_from_create dr d body) = None"
    "team_org_id_from_create dr d body = Inr (Some org)" "team_org d (key_team k) = Some org"
    "key_team k \<in> set (user_teams d (user_id (ad_user a)))"
    "create_insert dr sha256 random i now (user_id (ad_user a)) d body = (Answer 201 (k, s), insert_key d k)"
    "create_key dr sha256 random i now second (user_id (ad_user a)) d body = (r, d')"
proof -
  have gate: "require_grant (verify_context sv) ''llm.keys.create'' (ad_context a) authz
       (team_org_id_from_create dr d body) = None"
    and create: "create_key dr sha256 random i now second (user_id (ad_user a)) d body = (r, d')"
    using assms by (auto simp: post_keys_def split: option.splits)
  obtain k s where ins: "create_insert dr sha256 random i now (user_id (ad_user a)) d body = (Answer 201 (k, s), insert_key d k)"
    using create assms(2) by (cases rule: create_key_cases) auto
  obtain t where t: "find_team d (key_team k) = Some t" using create_insert_Answer(10)[OF ins] by blast
  show ?thesis
    using that[of "kamuid_org_id t", OF gate _ _ create_insert_Answer(9)[OF ins] ins create] create_insert_org(2)[OF ins] t
    by (simp add: team_org_def)
qed

lemma post_revoke_Answer:
  assumes "post_revoke sv now a authz d id_text = (Answer st n, d')"
  obtains i k where "pg_uuid id_text = Some i" "find_key d i = Some k"
    "require_grant (verify_context sv) ''llm.keys.revoke'' (ad_context a) authz
       (Inr (team_org d (key_team k)) :: keys_error + string option) = None"
    "\<exists>k\<in>set (visible_keys d (user_id (ad_user a))). key_id k = i"
    "revoke_key now (user_id (ad_user a)) d id_text = (Answer st n, d')"
proof -
  have gate: "require_grant (verify_context sv) ''llm.keys.revoke'' (ad_context a) authz
       (team_org_id_from_key d id_text) = None"
    and revoke: "revoke_key now (user_id (ad_user a)) d id_text = (Answer st n, d')"
    using assms by (auto simp: post_revoke_def split: option.splits)
  obtain i where i: "pg_uuid id_text = Some i"
    "\<exists>k\<in>set (visible_keys d (user_id (ad_user a))). key_id k = i"
    using revoke_key_Answer[OF revoke] by metis
  then obtain k0 where "k0 \<in> set (db_keys d)" "key_id k0 = i" by (auto simp: visible_keys_iff)
  then obtain k where k: "find_key d i = Some k"
    using find_ex[of k0 "db_keys d" "\<lambda>k. key_id k = i"] by (auto simp: find_key_def)
  then show ?thesis using that[OF i(1) k] i gate revoke by (simp add: team_org_id_from_key_def)
qed

end
