(* ===== verification/Key_Derive.thy ===== *)
theory Key_Derive
  imports Keys_Routes
begin

text \<open>
  \<open>POST /keys/derive\<close> (\<open>api/src/routes/keys.ts\<close>): a top-level key mints a
  short-lived sub-key.  \<open>derive_parent\<close> finds the parent, \<open>derive_request\<close> checks the
  body against it, \<open>derive_tx\<close> is the transaction under the parent's advisory lock
  and \<open>derive\<close> the whole handler.  \<open>Derive_Lock\<close> interleaves many of them.
\<close>

section \<open>Finding the parent\<close>

record derive_env =
  default_ttl :: int
  max_ttl :: int
  rate_per_min :: nat
  max_active :: nat
  signing_kid :: string

datatype derive_error =
    No_token
  | Not_top_level
  | Unknown_parent
  | Cannot_mint
  | Bad_models
  | Models_not_enclosed
  | Bad_ttl
  | Ttl_over_maximum
  | Outlives_parent
  | Body_type_error
  | Date_range_error
  | Statement_failed
  | Rate_limited
  | Too_many_active
  | Signing_failed

type_synonym 'a derive_step = "(nat \<times> derive_error) + 'a"

definition derive_parent :: "(bytes \<Rightarrow> bytes) \<Rightarrow> db \<Rightarrow> string option \<Rightarrow> key_row derive_step" where
  "derive_parent sha256 d authorization =
     (let token = bearer_token authorization in
      if token = [] then Inl (401, No_token)
      else if \<not> starts_with prefix_live token then Inl (401, Not_top_level)
      else case find (\<lambda>k. key_hash k = Some (hash_key sha256 token) \<and> key_kind k = Top) (db_keys d) of
             None \<Rightarrow> Inl (401, Unknown_parent)
           | Some p \<Rightarrow>
               if key_status p \<noteq> Active then Inl (401, Unknown_parent)
               else if key_parent p \<noteq> None then Inl (403, Cannot_mint)
               else Inr p)"

section \<open>Checking the request\<close>

record derive_terms =
  rq_label :: string
  rq_models :: "string list"
  rq_expiry :: rat
  rq_expires_ms :: js_time
  rq_budget :: json
  rq_metadata :: json

text \<open>\<open>Math.floor(ms / 1000)\<close>; exact for every time below \<open>2^53\<close> ms, where the quotient stays
  further from the next integer than half a unit in the last place.\<close>

definition seconds :: "js_time \<Rightarrow> int" where
  "seconds ms = ms div 1000"

definition derive_label :: "json \<Rightarrow> string derive_step" where
  "derive_label b =
     (case field_of b ''label'' of
        JNull \<Rightarrow> Inr ''derived''
      | JStr s \<Rightarrow> Inr (if js_trim s = [] then ''derived'' else js_trim s)
      | _ \<Rightarrow> Inl (500, Body_type_error))"

definition derive_models :: "json \<Rightarrow> string list \<Rightarrow> string list derive_step" where
  "derive_models b parent =
     (case (case field_of b ''models'' of JNull \<Rightarrow> Some [''*''] | v \<Rightarrow> string_array v) of
        None \<Rightarrow> Inl (400, Bad_models)
      | Some ms \<Rightarrow>
          if ms = [] then Inl (400, Bad_models)
          else if \<not> models_subset ms parent then Inl (400, Models_not_enclosed)
          else Inr ms)"

text \<open>The lifetime checks; the result is the expiry in seconds.\<close>

definition derive_expiry :: "derive_env \<Rightarrow> js_time \<Rightarrow> json \<Rightarrow> pg_time option \<Rightarrow> rat derive_step" where
  "derive_expiry e now b parent_expires =
     (case (case field_of b ''expires_in_seconds'' of JNull \<Rightarrow> Some (of_int (default_ttl e))
            | JNum (Fin x) \<Rightarrow> Some x | _ \<Rightarrow> None) of
        None \<Rightarrow> Inl (400, Bad_ttl)
      | Some ttl \<Rightarrow>
          if ttl \<le> 0 then Inl (400, Bad_ttl)
          else if of_int (max_ttl e) < ttl then Inl (400, Ttl_over_maximum)
          else
            (let expiry = js_add (of_int (seconds now)) ttl in
             case parent_expires of
               None \<Rightarrow> Inr expiry
             | Some pe \<Rightarrow>
                 if of_int (seconds (js_date pe)) < expiry then Inl (400, Outlives_parent)
                 else Inr expiry))"

definition derive_request ::
  "derive_env \<Rightarrow> js_time \<Rightarrow> key_row \<Rightarrow> json option \<Rightarrow> derive_terms derive_step" where
  "derive_request e now parent body =
     (let b = or_else body (JObj []) in
      if b = JNull then Inl (500, Body_type_error) else
      case derive_label b of Inl x \<Rightarrow> Inl x | Inr label \<Rightarrow>
      case derive_models b (key_models parent) of Inl x \<Rightarrow> Inl x | Inr ms \<Rightarrow>
      case derive_expiry e now b (key_expires_at parent) of Inl x \<Rightarrow> Inl x | Inr expiry \<Rightarrow>
      (let ms_expiry = js_mul expiry 1000 in
       if 8640000000000000 < \<bar>ms_expiry\<bar> then Inl (500, Date_range_error)
       else Inr \<lparr>rq_label = label, rq_models = ms, rq_expiry = expiry,
                 rq_expires_ms = js_trunc ms_expiry, rq_budget = field_of b ''budget_usd'',
                 rq_metadata = field_of b ''metadata''\<rparr>))"

section \<open>The transaction\<close>

definition recent_children :: "db \<Rightarrow> uuid \<Rightarrow> pg_time \<Rightarrow> nat" where
  "recent_children d p now =
     length (filter (\<lambda>k. key_parent k = Some p \<and> now - 60000000 < key_created_at k) (db_keys d))"

definition unexpired :: "pg_time \<Rightarrow> key_row \<Rightarrow> bool" where
  "unexpired now k = (case key_expires_at k of None \<Rightarrow> True | Some t \<Rightarrow> now < t)"

definition active_children :: "db \<Rightarrow> uuid \<Rightarrow> pg_time \<Rightarrow> nat" where
  "active_children d p now =
     length (filter (\<lambda>k. key_parent k = Some p \<and> key_status k = Active \<and> unexpired now k) (db_keys d))"

text \<open>The inserted row; \<open>None\<close> when a parameter cannot be bound.\<close>

definition child_row :: "driver \<Rightarrow> uuid \<Rightarrow> pg_time \<Rightarrow> key_row \<Rightarrow> derive_terms \<Rightarrow> key_row option" where
  "child_row dr i now parent rq =
     (case (bind_opt (bind_budget dr) (rq_budget rq), bind_opt (bind_jsonb dr) (rq_metadata rq),
            bind_date dr (rq_expires_ms rq)) of
        (Some budget, Some meta, Some expires) \<Rightarrow>
          Some \<lparr>key_id = i, key_team = key_team parent, key_label = rq_label rq, key_hash = None,
            key_prefix = None, key_kind = Derived, key_models = rq_models rq, key_budget = budget,
            key_status = Active, key_parent = Some (key_id parent), key_root = key_root parent,
            key_metadata = meta, key_constraints = None, key_expires_at = Some expires,
            key_created_at = now, key_updated_at = now, key_revoked_at = None,
            key_created_by = None, key_revoked_by = None\<rparr>
      | _ \<Rightarrow> None)"

definition derive_tx ::
  "derive_env \<Rightarrow> driver \<Rightarrow> uuid \<Rightarrow> pg_time \<Rightarrow> key_row \<Rightarrow> derive_terms \<Rightarrow> db \<Rightarrow>
     key_row derive_step \<times> db" where
  "derive_tx e dr i now parent rq d =
     (if rate_per_min e \<le> recent_children d (key_id parent) now then (Inl (429, Rate_limited), d)
      else if max_active e \<le> active_children d (key_id parent) now
      then (Inl (429, Too_many_active), d)
      else case child_row dr i now parent rq of
             None \<Rightarrow> (Inl (500, Statement_failed), d)
           | Some k \<Rightarrow> (Inr k, insert_key d k))"

section \<open>The handler\<close>

definition child_payload :: "key_row \<Rightarrow> key_row \<Rightarrow> sub_key_payload" where
  "child_payload parent k =
     \<lparr>pl_jti = key_id k, pl_sub = key_root parent, pl_models = key_models k,
      pl_budget_usd = key_budget k,
      pl_metadata = (if key_metadata k = Some JNull then None else key_metadata k)\<rparr>"

text \<open>\<open>now\<close> is \<open>Date.now()\<close> at the lifetime check and \<open>now'\<close> when the token is stamped,
  \<open>pg_now\<close> the start of the transaction.  The token is signed after the commit: when that fails
  the row stays, without a token for it.\<close>

definition derive ::
  "derive_env \<Rightarrow> driver \<Rightarrow> (bytes \<Rightarrow> bytes) \<Rightarrow> (json \<Rightarrow> json \<Rightarrow> string option) \<Rightarrow> uuid \<Rightarrow> js_time \<Rightarrow> js_time \<Rightarrow>
     pg_time \<Rightarrow> db \<Rightarrow> string option \<Rightarrow> json option \<Rightarrow>
     (derive_error, key_row \<times> string) reply \<times> db" where
  "derive e dr sha256 sign i now now' pg_now d authorization body =
     (case derive_parent sha256 d authorization of Inl (st, x) \<Rightarrow> (Failure st x, d) | Inr parent \<Rightarrow>
      case derive_request e now parent body of Inl (st, x) \<Rightarrow> (Failure st x, d) | Inr rq \<Rightarrow>
      case derive_tx e dr i pg_now parent rq d of
        (Inl (st, x), d') \<Rightarrow> (Failure st x, d')
      | (Inr k, d') \<Rightarrow>
          (case sign_sub_key_jwt sign (signing_kid e) (child_payload parent k) (rq_expiry rq) (of_int (seconds now')) of
             None \<Rightarrow> (Failure 500 Signing_failed, d')
           | Some token \<Rightarrow> (Answer 201 (k, token), d')))"

section \<open>Facts\<close>

lemma derive_parent_Inr:
  assumes "derive_parent sha256 d authorization = Inr p"
  shows "p \<in> set (db_keys d)" "key_kind p = Top" "key_status p = Active" "key_parent p = None"
    "key_hash p = Some (hash_key sha256 (bearer_token authorization))"
  using assms
  by (auto simp: derive_parent_def Let_def split: if_splits option.splits dest!: find_SomeD)

lemma derive_label_nonempty: "derive_label b = Inr l \<Longrightarrow> l \<noteq> []"
  by (auto simp: derive_label_def split: json.splits if_splits)

lemma derive_models_Inr:
  "derive_models b parent = Inr ms \<Longrightarrow> ms \<noteq> [] \<and> (\<forall>m. allows ms m \<longrightarrow> allows parent m)"
  by (auto simp: derive_models_def models_subset_iff split: option.splits if_splits)

lemma derive_expiry_Inr:
  assumes "derive_expiry e now b pe = Inr x"
  obtains ttl where "0 < ttl" "ttl \<le> of_int (max_ttl e)" "x = js_add (of_int (seconds now)) ttl"
    "case pe of None \<Rightarrow> True | Some t \<Rightarrow> x \<le> of_int (seconds (js_date t))"
  using assms
  by (auto simp: derive_expiry_def Let_def not_less not_le
      split: option.splits if_splits json.splits js_num.splits)

lemma derive_request_Inr:
  assumes "derive_request e now p body = Inr rq"
  shows "rq_label rq \<noteq> []" "rq_models rq \<noteq> []"
    "allows (rq_models rq) m \<Longrightarrow> allows (key_models p) m"
    "\<exists>b. derive_expiry e now b (key_expires_at p) = Inr (rq_expiry rq)"
    "rq_expires_ms rq = js_trunc (js_mul (rq_expiry rq) 1000)"
    "\<bar>js_mul (rq_expiry rq) 1000\<bar> \<le> 8640000000000000"
  using assms
  by (auto simp: derive_request_def Let_def split: if_splits sum.splits
      dest: derive_label_nonempty derive_models_Inr)

lemma child_row_Some:
  assumes "child_row dr i now p rq = Some k"
  shows "key_id k = i" "key_team k = key_team p" "key_label k = rq_label rq" "key_hash k = None"
    "key_kind k = Derived" "key_models k = rq_models rq" "key_status k = Active"
    "key_parent k = Some (key_id p)" "key_root k = key_root p" "key_created_at k = now"
    "key_expires_at k = bind_date dr (rq_expires_ms rq)" "key_expires_at k \<noteq> None"
  using assms by (auto simp: child_row_def split: option.splits)

lemma derive_tx_Inr:
  assumes "derive_tx e dr i now p rq d = (Inr k, d')"
  shows "child_row dr i now p rq = Some k" "d' = insert_key d k"
    "recent_children d (key_id p) now < rate_per_min e"
    "active_children d (key_id p) now < max_active e"
  using assms by (auto simp: derive_tx_def split: if_splits option.splits)

lemma derive_tx_Inl: "derive_tx e dr i now p rq d = (Inl x, d') \<Longrightarrow> d' = d"
  by (auto simp: derive_tx_def split: if_splits option.splits)

lemma derive_label_Inl: "derive_label b = Inl (st, x) \<Longrightarrow> x \<noteq> Signing_failed"
  by (auto simp: derive_label_def split: json.splits if_splits)

lemma derive_models_Inl: "derive_models b ms = Inl (st, x) \<Longrightarrow> x \<noteq> Signing_failed"
  unfolding derive_models_def by (auto split: option.splits if_splits)

lemma derive_expiry_Inl: "derive_expiry e now b pe = Inl (st, x) \<Longrightarrow> x \<noteq> Signing_failed"
  unfolding derive_expiry_def Let_def by (auto split: option.splits if_splits)

lemma derive_request_Inl: "derive_request e now p body = Inl (st, x) \<Longrightarrow> x \<noteq> Signing_failed"
  using derive_label_Inl derive_models_Inl derive_expiry_Inl
  by (auto simp: derive_request_def Let_def split: if_splits sum.splits)

text \<open>The three ways a request ends: refused, a child and its token, a child without one.\<close>

lemma derive_cases:
  assumes "derive e dr sha256 sign i now now' pg_now d authorization body = (r, d')"
  obtains (refused) st x where "r = Failure st x" "d' = d" "x \<noteq> Signing_failed"
    | (derived) p rq k t where "derive_parent sha256 d authorization = Inr p" "derive_request e now p body = Inr rq"
      "derive_tx e dr i pg_now p rq d = (Inr k, d')" "r = Answer 201 (k, t)"
      "sign_sub_key_jwt sign (signing_kid e) (child_payload p k) (rq_expiry rq) (of_int (seconds now')) = Some t"
    | (unsigned) p rq k where "derive_parent sha256 d authorization = Inr p" "derive_request e now p body = Inr rq"
      "derive_tx e dr i pg_now p rq d = (Inr k, d')" "r = Failure 500 Signing_failed"
      "sign_sub_key_jwt sign (signing_kid e) (child_payload p k) (rq_expiry rq) (of_int (seconds now')) = None"
proof (cases "derive_parent sha256 d authorization")
  case (Inl x)
  obtain st er where x: "x = (st, er)" by (cases x)
  have "er \<noteq> Signing_failed" using Inl x by (auto simp: derive_parent_def Let_def split: if_splits option.splits)
  then show ?thesis using assms refused[of st er] by (simp add: derive_def Inl x)
next
  case p: (Inr p)
  show ?thesis
  proof (cases "derive_request e now p body")
    case (Inl x)
    obtain st er where x: "x = (st, er)" by (cases x)
    have "er \<noteq> Signing_failed" using Inl x by (auto dest: derive_request_Inl)
    then show ?thesis using assms refused[of st er] by (simp add: derive_def p Inl x)
  next
    case rq: (Inr rq)
    obtain out d1 where tx: "derive_tx e dr i pg_now p rq d = (out, d1)" by fastforce
    show ?thesis
    proof (cases out)
      case (Inl x)
      obtain st er where x: "x = (st, er)" by (cases x)
      have "er \<noteq> Signing_failed" "d1 = d"
        using tx Inl x by (auto simp: derive_tx_def split: if_splits option.splits)
      then show ?thesis using assms refused[of st er] by (simp add: derive_def p rq tx Inl x)
    next
      case k: (Inr k)
      note run = tx[unfolded k]
      show ?thesis
      proof (cases "sign_sub_key_jwt sign (signing_kid e) (child_payload p k) (rq_expiry rq) (of_int (seconds now'))")
        case None
        have "r = Failure 500 Signing_failed" "d' = d1" using assms by (simp_all add: derive_def p rq run None)
        then show ?thesis using unsigned[OF p rq _ _ None] run by simp
      next
        case (Some t)
        have "r = Answer 201 (k, t)" "d' = d1" using assms by (simp_all add: derive_def p rq run Some)
        then show ?thesis using derived[OF p rq _ _ Some] run by simp
      qed
    qed
  qed
qed

lemma derive_Answer:
  assumes "derive e dr sha256 sign i now now' pg_now d authorization body = (Answer st (k, t), d')"
  obtains p rq where "st = 201" "derive_parent sha256 d authorization = Inr p"
    "derive_request e now p body = Inr rq" "derive_tx e dr i pg_now p rq d = (Inr k, d')"
    "sign_sub_key_jwt sign (signing_kid e) (child_payload p k) (rq_expiry rq) (of_int (seconds now')) = Some t"
  using assms by (cases rule: derive_cases) auto

text \<open>What a child of a presented parent is.\<close>

lemma derive_tx_child:
  assumes p: "derive_parent sha256 d authorization = Inr p" and tx: "derive_tx e dr i pg_now p rq d = (Inr k, d')"
    and ok: "keys_ok d"
  shows "derived_ok d k" "key_root k = key_root p" "key_root p = None \<or> key_root p = Some (key_id p)"
proof -
  note p = derive_parent_Inr[OF p] and k = child_row_Some[OF derive_tx_Inr(1)[OF tx]]
  show root: "key_root p = None \<or> key_root p = Some (key_id p)" "key_root k = key_root p"
    using keys_okD(2)[OF ok p(1,2)] k(9) by (simp_all add: top_ok_def)
  then show "derived_ok d k" using p k by (auto simp: derived_ok_def)
qed

lemma derive_ok [wf_intros]:
  assumes "derive e dr sha256 sign i now now' pg_now d authorization body = (r, d')"
    and "keys_ok d" "\<not> key_exists d i"
  shows "keys_ok d'"
proof -
  have child: "keys_ok d'" if p: "derive_parent sha256 d authorization = Inr p" and tx: "derive_tx e dr i pg_now p rq d = (Inr k, d')"
    for p rq k
    by (intro keys_ok_insert_derived[OF assms(2), of k])
      (use assms(3) child_row_Some[OF derive_tx_Inr(1)[OF tx]] derive_tx_Inr(2)[OF tx] derive_tx_child(1)[OF p tx assms(2)]
        in \<open>auto simp: insert_key_def\<close>)
  from assms(1) show ?thesis
  proof (cases rule: derive_cases)
    case refused
    then show ?thesis using assms(2) by simp
  qed (use child in blast)+
qed

section \<open>The lifetime of a child\<close>

lemma js_trunc_le: "x \<le> of_int n \<Longrightarrow> 0 \<le> x \<Longrightarrow> js_trunc x \<le> n"
  by (simp add: js_trunc_def floor_le_iff)

lemma is_double_int: "\<bar>n\<bar> \<le> 2 ^ 53 \<Longrightarrow> is_double (of_int n)"
  using fl_of_int by blast

text \<open>An expiry not after a whole second gives a date not after that second.\<close>

lemma expiry_ms_le:
  assumes "x \<le> of_int s" "0 \<le> x" "\<bar>js_mul x 1000\<bar> \<le> 8640000000000000"
  shows "js_trunc (js_mul x 1000) \<le> s * 1000"
proof -
  have pos: "0 \<le> js_mul x 1000" using assms(2) by (simp add: js_mul_nonneg)
  show ?thesis
  proof (cases "\<bar>s * 1000\<bar> \<le> 2 ^ 53")
    case True
    have "js_mul x 1000 \<le> of_int (s * 1000)"
      unfolding js_mul_def by (rule fl_le_double) (use is_double_int[OF True] assms(1) in auto)
    then show ?thesis using pos by (rule js_trunc_le)
  next
    case False
    have "0 \<le> s" using assms(1,2) by linarith
    then have "8640000000000000 \<le> s * 1000" using False by simp
    moreover have "js_trunc (js_mul x 1000) \<le> 8640000000000000"
      by (rule js_trunc_le) (use assms(3) pos in auto)
    ultimately show ?thesis by linarith
  qed
qed

lemma seconds_le: "seconds t * 1000 \<le> t"
  using div_mult_mod_eq[of t 1000] by (simp add: seconds_def)

lemma derive_expiry_bounds:
  assumes "derive_expiry e now b pe = Inr x" "0 \<le> now"
    and ms: "\<bar>js_mul x 1000\<bar> \<le> 8640000000000000"
  shows "case pe of None \<Rightarrow> True | Some t \<Rightarrow> js_trunc (js_mul x 1000) \<le> js_date t"
    and "now \<le> 2 ^ 52 \<Longrightarrow> max_ttl e \<le> 2 ^ 52 \<Longrightarrow>
      js_trunc (js_mul x 1000) \<le> now + max_ttl e * 1000"
proof -
  obtain ttl where ttl: "0 < ttl" "ttl \<le> of_int (max_ttl e)" "x = js_add (of_int (seconds now)) ttl"
    "case pe of None \<Rightarrow> True | Some t \<Rightarrow> x \<le> of_int (seconds (js_date t))"
    using derive_expiry_Inr[OF assms(1)] .
  have sec: "0 \<le> seconds now" "seconds now \<le> now"
    using assms(2) by (auto simp: seconds_def intro: order.trans[OF zdiv_mono2])
  have x0: "0 \<le> x" unfolding ttl(3) using sec ttl(1) by (intro js_add_nonneg) auto
  show "case pe of None \<Rightarrow> True | Some t \<Rightarrow> js_trunc (js_mul x 1000) \<le> js_date t"
    using ttl(4) expiry_ms_le[OF _ x0 ms] order.trans[OF _ seconds_le] by (auto split: option.splits)
  assume "now \<le> 2 ^ 52" "max_ttl e \<le> 2 ^ 52"
  moreover have "0 \<le> max_ttl e" using ttl(1,2) by linarith
  ultimately have "\<bar>seconds now + max_ttl e\<bar> \<le> 2 ^ 53" using sec by simp
  then have "x \<le> of_int (seconds now + max_ttl e)"
    unfolding ttl(3) js_add_def by (intro fl_le_double is_double_int) (use ttl(2) in auto)
  from expiry_ms_le[OF this x0 ms] show "js_trunc (js_mul x 1000) \<le> now + max_ttl e * 1000"
    using seconds_le[of now] by (simp add: distrib_right)
qed

text \<open>How the driver writes a date: the text of \<open>toISOString\<close> is read back exactly.\<close>

definition dates_exact :: "driver \<Rightarrow> bool" where
  "dates_exact dr \<longleftrightarrow> (\<forall>ms t. bind_date dr ms = Some t \<longrightarrow> t = pg_of_date ms)"

lemma derive_child:
  assumes ans: "derive e dr sha256 sign i now now' pg_now d authorization body = (Answer st (k, t), d')"
    and ok: "keys_ok d"
  obtains p where "p \<in> set (db_keys d)" "key_kind p = Top" "key_status p = Active"
    "key_hash p = Some (hash_key sha256 (bearer_token authorization))"
    "key_id k = i" "key_kind k = Derived" "key_status k = Active" "key_hash k = None"
    "key_parent k = Some (key_id p)" "key_root k = key_root p" "key_root p = None \<or> key_root p = Some (key_id p)"
    "key_team k = key_team p"
    "\<forall>m. allows (key_models k) m \<longrightarrow> allows (key_models p) m"
    "d' = insert_key d k"
proof -
  obtain p rq where p: "derive_parent sha256 d authorization = Inr p"
    and rq: "derive_request e now p body = Inr rq"
    and tx: "derive_tx e dr i pg_now p rq d = (Inr k, d')"
    using derive_Answer[OF ans] .
  note root = derive_tx_child(2,3)[OF p tx ok]
  note p = derive_parent_Inr[OF p] and k = child_row_Some[OF derive_tx_Inr(1)[OF tx]]
  show ?thesis
    using that[of p] p k root derive_request_Inr(3)[OF rq] derive_tx_Inr(2)[OF tx] by simp
qed

lemma derive_lifetime:
  assumes ans: "derive e dr sha256 sign i now now' pg_now d authorization body = (Answer st (k, t), d')"
    and "dates_exact dr" "0 \<le> now"
  obtains p x where "p \<in> set (db_keys d)" "key_parent k = Some (key_id p)" "key_expires_at k = Some x"
    "case key_expires_at p of None \<Rightarrow> True | Some y \<Rightarrow> x \<le> y"
    "now \<le> 2 ^ 52 \<Longrightarrow> max_ttl e \<le> 2 ^ 52 \<Longrightarrow> x \<le> pg_of_date (now + max_ttl e * 1000)"
proof -
  obtain p rq where p: "derive_parent sha256 d authorization = Inr p"
    and rq: "derive_request e now p body = Inr rq"
    and tx: "derive_tx e dr i pg_now p rq d = (Inr k, d')"
    using derive_Answer[OF ans] .
  note p = derive_parent_Inr[OF p] and k = child_row_Some[OF derive_tx_Inr(1)[OF tx]]
    and r = derive_request_Inr[OF rq]
  obtain b where b: "derive_expiry e now b (key_expires_at p) = Inr (rq_expiry rq)" using r(4) by blast
  obtain x where x: "key_expires_at k = Some x" "bind_date dr (rq_expires_ms rq) = Some x"
    using k(11,12) by auto
  have "x = pg_of_date (js_trunc (js_mul (rq_expiry rq) 1000))"
    using assms(2) x(2) r(5) by (simp add: dates_exact_def)
  then show ?thesis
    using that[of p x] p(1) k(8) x(1) derive_expiry_bounds[OF b assms(3) r(6)]
    by (auto simp: pg_of_date_le_iff split: option.splits)
qed

text \<open>A date before the row expires is a whole number of seconds before the \<open>exp\<close> of its token: the
  product that makes milliseconds of the expiry is rounded, but by less than one.\<close>

lemma before_expiry:
  assumes x: "0 \<le> x" "\<bar>js_mul x 1000\<bar> \<le> 8640000000000000" and t: "t < pg_of_date (js_trunc (js_mul x 1000))"
  shows "of_int (seconds (js_date t)) < x"
proof -
  define y where "y = x * 1000"
  have y: "0 \<le> y" "js_mul x 1000 = fl y" using x(1) by (simp_all add: y_def js_mul_def)
  have small: "\<lceil>y\<rceil> \<le> 2 ^ 53"
  proof (rule ccontr)
    assume "\<not> \<lceil>y\<rceil> \<le> 2 ^ 53"
    then have "of_int (2 ^ 53) \<le> y" by linarith
    then have "of_int (2 ^ 53) \<le> fl y" using double_le_fl is_double_int[of "2 ^ 53"] by simp
    then show False using x(2) y(2) by simp
  qed
  have "fl y \<le> of_int \<lceil>y\<rceil>"
    by (rule fl_le_double) (use small y(1) in \<open>auto intro!: is_double_int\<close>)
  then have "js_trunc (fl y) \<le> \<lceil>y\<rceil>" using fl_nonneg[OF y(1)] by (simp add: js_trunc_le)
  moreover have "js_date t < js_trunc (fl y)"
    using t y(2) pg_of_date_le_iff[of "js_trunc (fl y)" t] by (simp add: not_le[symmetric])
  ultimately have "of_int (js_date t) < y" by linarith
  moreover have "seconds (js_date t) * 1000 \<le> js_date t" by (rule seconds_le)
  then have "(of_int (seconds (js_date t)) :: rat) * 1000 \<le> of_int (js_date t)"
    by (metis of_int_le_iff of_int_mult of_int_numeral)
  ultimately show ?thesis by (simp add: y_def)
qed

text \<open>The token that is handed out opens the gateway for exactly the new row, as long as that
  row has not expired, and not after.\<close>

lemma derive_verifies:
  assumes ans: "derive e dr sha256 sign i now now' pg_now d authorization body = (Answer st (k, t), d')"
    and ok: "keys_ok d" "\<not> key_exists d i" and dr: "dates_exact dr" "0 \<le> now"
    and jwt: "jwt_round_trip sign verify (seconds (js_date later))"
  shows "verify_gateway_credential sha256 verify later d' t =
    Inr (if unexpired later k then Some \<lparr>scope_key = i, scope_type = Derived\<rparr> else None)"
proof -
  obtain p rq where par: "derive_parent sha256 d authorization = Inr p" and rq: "derive_request e now p body = Inr rq"
    and tx: "derive_tx e dr i pg_now p rq d = (Inr k, d')"
    and sg: "sign_sub_key_jwt sign (signing_kid e) (child_payload p k) (rq_expiry rq) (of_int (seconds now')) = Some t"
    using derive_Answer[OF ans] .
  note p = derive_parent_Inr[OF par] and k = child_row_Some[OF derive_tx_Inr(1)[OF tx]] and r = derive_request_Inr[OF rq]
    and root = derive_tx_child(2,3)[OF par tx ok(1)] and d' = derive_tx_Inr(2)[OF tx]
  have ok': "keys_ok d'" using derive_ok[OF ans ok] .
  note unique = distinct_map_unique[OF keys_okD(1)[OF ok']]
  have pk: "p \<in> set (db_keys d')" "k \<in> set (db_keys d')" using p(1) by (auto simp: d' insert_key_def)
  have only: "j = k" if "j \<in> set (db_keys d')" "key_id j = i \<and> key_kind j = Derived" for j
    using unique[OF that(1) pk(2)] that(2) k(1) by simp
  have lookup: "credential_lookup sha256 verify t =
      (if of_int (seconds (js_date later)) < rq_expiry rq then Some (By_id (uuid_text i)) else None)"
    using lookup_signed[OF jwt sg] k(1) by (simp add: child_payload_def)
  obtain b where b: "derive_expiry e now b (key_expires_at p) = Inr (rq_expiry rq)" using r(4) by blast
  have x: "key_expires_at k = Some (pg_of_date (js_trunc (js_mul (rq_expiry rq) 1000)))"
    using k(11,12) dr(1) r(5) by (auto simp: dates_exact_def)
  show ?thesis
  proof (cases "unexpired later k")
    case True
    have pos: "0 \<le> rq_expiry rq"
    proof -
      obtain ttl where "0 < ttl" "rq_expiry rq = js_add (of_int (seconds now)) ttl" using derive_expiry_Inr[OF b] .
      moreover have "0 \<le> seconds now" using dr(2) by (simp add: seconds_def pos_imp_zdiv_nonneg_iff)
      ultimately show ?thesis by (simp add: js_add_nonneg)
    qed
    have exp: "of_int (seconds (js_date later)) < rq_expiry rq"
      using before_expiry[OF pos r(6)] True x by (simp add: unexpired_def)
    obtain q y where q: "q \<in> set (db_keys d)" "key_parent k = Some (key_id q)" "key_expires_at k = Some y"
      "case key_expires_at q of None \<Rightarrow> True | Some z \<Rightarrow> y \<le> z"
      using derive_lifetime[OF ans dr] by metis
    have "q \<in> set (db_keys d')" "key_id q = key_id p" using q(1,2) k(8) by (simp_all add: d' insert_key_def)
    then have "q = p" by (rule unique[OF _ pk(1)])
    then have use: "usable later p" "usable later k"
      using True q(3,4) p(3) k(7) by (auto simp: usable_def unexpired_def split: option.splits)
    have "find_key d' (root_of k) = Some k \<or> find_key d' (root_of k) = Some p"
      using pk root by (auto simp: find_key_iff[OF keys_okD(1)[OF ok']] root_of_def)
    then have "root_usable later d' k" using use by (auto simp: root_usable_def)
    then have "find_credential later d' (\<lambda>j. key_id j = i \<and> key_kind j = Derived) =
        Some \<lparr>scope_key = key_id k, scope_type = key_kind k\<rparr>"
      by (intro find_credential_unique[OF pk(2) _ use(2)]) (use k(1,5) only in auto)
    then show ?thesis using True lookup exp k(1,5) by (simp add: verify_gateway_credential_def pg_uuid_uuid_text)
  next
    case False
    have "find (\<lambda>j. (key_id j = i \<and> key_kind j = Derived) \<and> usable later j \<and> root_usable later d' j) (db_keys d') = None"
    proof (rule find_not_in)
      fix j assume "j \<in> set (db_keys d')"
      then show "\<not> ((key_id j = i \<and> key_kind j = Derived) \<and> usable later j \<and> root_usable later d' j)"
        using only[of j] False by (auto simp: usable_def unexpired_def split: option.splits)
    qed
    then show ?thesis using False lookup
      by (simp add: verify_gateway_credential_def pg_uuid_uuid_text find_credential_def)
  qed
qed

end
