(* ===== verification/Derive_Lock.thy ===== *)
theory Derive_Lock
  imports Key_Derive
begin

text \<open>
  Concurrent \<open>POST /keys/derive\<close> requests on one database, statement by statement: the
  advisory lock of the parent, the two counts, the insert and commit.  Between any
  two statements other requests and other writers of \<open>llm.keys\<close> may run.  The limit on
  mints per minute holds in every reachable state whatever the others write to existing rows, the
  limit on active children as long as they bring no row back to active.
\<close>

section \<open>The machine\<close>

record job =
  jb_now :: pg_time
  jb_id :: uuid
  jb_parent :: key_row
  jb_request :: derive_terms

abbreviation jb_pid :: "job \<Rightarrow> uuid" where
  "jb_pid j \<equiv> key_id (jb_parent j)"

datatype phase =
    Idle
  | Waiting job
  | Locked job
  | Rate_ok job
  | Active_ok job
  | Finished "key_row derive_step"

record lock_state =
  ls_db :: db
  ls_lock :: "int \<Rightarrow> nat option"
  ls_phase :: "nat \<Rightarrow> phase"

text \<open>Other writers.  A steady one may change anything in a row but its parent and its dates, and adds
  top-level keys only: so do all transactions of the program but derive, and the writes of budgets
  whose trigger brings rows back to active.  A quiet one brings no row back to active.\<close>

definition steady_row :: "key_row \<Rightarrow> key_row \<Rightarrow> bool" where
  "steady_row a b \<longleftrightarrow> key_parent b = key_parent a \<and> key_created_at b = key_created_at a \<and>
     key_expires_at b = key_expires_at a"

definition quiet_row :: "key_row \<Rightarrow> key_row \<Rightarrow> bool" where
  "quiet_row a b \<longleftrightarrow> steady_row a b \<and> (key_status b = Active \<longrightarrow> key_status a = Active)"

definition rows_by :: "(key_row \<Rightarrow> key_row \<Rightarrow> bool) \<Rightarrow> db \<Rightarrow> db \<Rightarrow> bool" where
  "rows_by R d d' \<longleftrightarrow> (\<exists>bs tops. db_keys d' = bs @ tops \<and> list_all2 R (db_keys d) bs \<and>
     (\<forall>k\<in>set tops. key_parent k = None))"

abbreviation steady :: "db \<Rightarrow> db \<Rightarrow> bool" where
  "steady \<equiv> rows_by steady_row"

abbreviation quiet :: "db \<Rightarrow> db \<Rightarrow> bool" where
  "quiet \<equiv> rows_by quiet_row"

lemma quiet_steady: "quiet d d' \<Longrightarrow> steady d d'"
  unfolding rows_by_def by (metis (mono_tags, lifting) list_all2_mono quiet_row_def)

definition finish :: "lock_state \<Rightarrow> int \<Rightarrow> nat \<Rightarrow> key_row derive_step \<Rightarrow> lock_state" where
  "finish s l r out = s\<lparr>ls_lock := (ls_lock s)(l := None), ls_phase := (ls_phase s)(r := Finished out)\<rparr>"

text \<open>\<open>W\<close> is what the other writers may do, \<open>h\<close> is \<open>hashtextextended\<close> of the parent's id, the key of
  the lock.  \<open>now()\<close> is fixed when the transaction begins, before it waits for the lock.\<close>

inductive lock_step :: "(db \<Rightarrow> db \<Rightarrow> bool) \<Rightarrow> derive_env \<Rightarrow> driver \<Rightarrow> (uuid \<Rightarrow> int) \<Rightarrow> lock_state \<Rightarrow> lock_state \<Rightarrow> bool"
  for W :: "db \<Rightarrow> db \<Rightarrow> bool" and e :: derive_env and dr :: driver and h :: "uuid \<Rightarrow> int" where
  begin_tx: "ls_phase s r = Idle \<Longrightarrow>
    lock_step W e dr h s (s\<lparr>ls_phase := (ls_phase s)(r := Waiting j)\<rparr>)"
| acquire: "ls_phase s r = Waiting j \<Longrightarrow> ls_lock s (h (jb_pid j)) = None \<Longrightarrow>
    lock_step W e dr h s (s\<lparr>ls_lock := (ls_lock s)(h (jb_pid j) := Some r),
                          ls_phase := (ls_phase s)(r := Locked j)\<rparr>)"
| rate_full: "ls_phase s r = Locked j \<Longrightarrow>
    rate_per_min e \<le> recent_children (ls_db s) (jb_pid j) (jb_now j) \<Longrightarrow>
    lock_step W e dr h s (finish s (h (jb_pid j)) r (Inl (429, Rate_limited)))"
| rate_free: "ls_phase s r = Locked j \<Longrightarrow>
    recent_children (ls_db s) (jb_pid j) (jb_now j) < rate_per_min e \<Longrightarrow>
    lock_step W e dr h s (s\<lparr>ls_phase := (ls_phase s)(r := Rate_ok j)\<rparr>)"
| active_full: "ls_phase s r = Rate_ok j \<Longrightarrow>
    max_active e \<le> active_children (ls_db s) (jb_pid j) (jb_now j) \<Longrightarrow>
    lock_step W e dr h s (finish s (h (jb_pid j)) r (Inl (429, Too_many_active)))"
| active_free: "ls_phase s r = Rate_ok j \<Longrightarrow>
    active_children (ls_db s) (jb_pid j) (jb_now j) < max_active e \<Longrightarrow>
    lock_step W e dr h s (s\<lparr>ls_phase := (ls_phase s)(r := Active_ok j)\<rparr>)"
| insert_row: "ls_phase s r = Active_ok j \<Longrightarrow>
    child_row dr (jb_id j) (jb_now j) (jb_parent j) (jb_request j) = Some k \<Longrightarrow>
    lock_step W e dr h s (finish (s\<lparr>ls_db := insert_key (ls_db s) k\<rparr>) (h (jb_pid j)) r (Inr k))"
| roll_back: "ls_phase s r \<in> {Locked j, Rate_ok j, Active_ok j} \<Longrightarrow>
    lock_step W e dr h s (finish s (h (jb_pid j)) r (Inl (500, Statement_failed)))"
| other: "W (ls_db s) d' \<Longrightarrow> lock_step W e dr h s (s\<lparr>ls_db := d'\<rparr>)"

definition lock_start :: "db \<Rightarrow> lock_state" where
  "lock_start d = \<lparr>ls_db = d, ls_lock = (\<lambda>_. None), ls_phase = (\<lambda>_. Idle)\<rparr>"

definition lock_reach :: "(db \<Rightarrow> db \<Rightarrow> bool) \<Rightarrow> derive_env \<Rightarrow> driver \<Rightarrow> (uuid \<Rightarrow> int) \<Rightarrow> db \<Rightarrow> lock_state \<Rightarrow> bool" where
  "lock_reach W e dr h d s \<longleftrightarrow> (lock_step W e dr h)\<^sup>*\<^sup>* (lock_start d) s"

inductive_cases lock_stepE: "lock_step W e dr h s s'"

section \<open>Counting children\<close>

text \<open>The children created in the minute up to \<open>t\<close>.\<close>

definition window :: "db \<Rightarrow> uuid \<Rightarrow> pg_time \<Rightarrow> nat" where
  "window d p t = length (filter (\<lambda>k. key_parent k = Some p \<and> t - 60000000 < key_created_at k \<and>
     key_created_at k \<le> t) (db_keys d))"

definition all_created_by :: "db \<Rightarrow> uuid \<Rightarrow> pg_time \<Rightarrow> bool" where
  "all_created_by d p t \<longleftrightarrow> (\<forall>k\<in>set (db_keys d). key_parent k = Some p \<longrightarrow> key_created_at k \<le> t)"

lemma length_filter_by:
  assumes "rows_by R d d'" and P: "\<And>a b. R a b \<Longrightarrow> P b \<Longrightarrow> P a" and tops: "\<And>k. P k \<Longrightarrow> key_parent k \<noteq> None"
  shows "length (filter P (db_keys d')) \<le> length (filter P (db_keys d))"
proof -
  obtain bs ts where d': "db_keys d' = bs @ ts" and bs: "list_all2 R (db_keys d) bs"
    and ts: "\<forall>k\<in>set ts. key_parent k = None"
    using assms(1) by (auto simp: rows_by_def)
  have "filter P ts = []" using ts tops unfolding filter_empty_conv by blast
  moreover have "length (filter P bs) \<le> length (filter P (db_keys d))"
    using bs by (induction rule: list_all2_induct) (auto dest: P)
  ultimately show ?thesis by (simp add: d')
qed

lemma steady_counts:
  assumes "steady d d'"
  shows "recent_children d' p t \<le> recent_children d p t" "window d' p t \<le> window d p t"
  unfolding recent_children_def window_def
  by (rule length_filter_by[OF assms]; auto simp: steady_row_def)+

lemma quiet_active: "quiet d d' \<Longrightarrow> active_children d' p t \<le> active_children d p t"
  unfolding active_children_def
  by (rule length_filter_by[of quiet_row]) (auto simp: quiet_row_def steady_row_def unexpired_def)

lemma quiet_created:
  assumes "quiet d d'" "all_created_by d' p t"
  shows "all_created_by d p t"
proof -
  obtain bs ts where d': "db_keys d' = bs @ ts" and bs: "list_all2 quiet_row (db_keys d) bs"
    using assms(1) by (auto simp: rows_by_def)
  have "\<forall>k\<in>set bs. key_parent k = Some p \<longrightarrow> key_created_at k \<le> t"
    using assms(2) by (simp add: all_created_by_def d')
  with bs have "\<forall>k\<in>set (db_keys d). key_parent k = Some p \<longrightarrow> key_created_at k \<le> t"
    by (induction rule: list_all2_induct) (auto simp: quiet_row_def steady_row_def)
  then show ?thesis by (simp add: all_created_by_def)
qed

lemma insert_counts:
  "recent_children (insert_key d k) p t =
     recent_children d p t + (if key_parent k = Some p \<and> t - 60000000 < key_created_at k then 1 else 0)"
  "active_children (insert_key d k) p t = active_children d p t +
     (if key_parent k = Some p \<and> key_status k = Active \<and> unexpired t k then 1 else 0)"
  "window (insert_key d k) p t = window d p t +
     (if key_parent k = Some p \<and> t - 60000000 < key_created_at k \<and> key_created_at k \<le> t then 1 else 0)"
  by (simp_all add: recent_children_def active_children_def window_def insert_key_def)

lemma window_le_recent: "t \<le> u \<Longrightarrow> window d p u \<le> recent_children d p t"
  unfolding window_def recent_children_def length_filter_conv_card
  by (intro card_mono) auto

lemma active_children_antimono: "t \<le> u \<Longrightarrow> active_children d p u \<le> active_children d p t"
  unfolding active_children_def length_filter_conv_card
  by (intro card_mono) (auto simp: unexpired_def split: option.splits)

section \<open>The invariant\<close>

text \<open>The jobs past the lock, and those past each count.\<close>

fun holding :: "phase \<Rightarrow> job option" where
  "holding (Locked j) = Some j"
| "holding (Rate_ok j) = Some j"
| "holding (Active_ok j) = Some j"
| "holding _ = None"

fun counted_rate :: "phase \<Rightarrow> job option" where
  "counted_rate (Rate_ok j) = Some j"
| "counted_rate (Active_ok j) = Some j"
| "counted_rate _ = None"

fun counted_active :: "phase \<Rightarrow> job option" where
  "counted_active (Active_ok j) = Some j"
| "counted_active _ = None"

lemma counted_holding:
  "counted_active ph = Some j \<Longrightarrow> counted_rate ph = Some j"
  "counted_rate ph = Some j \<Longrightarrow> holding ph = Some j"
  by (cases ph; simp)+

definition lock_ok :: "(uuid \<Rightarrow> int) \<Rightarrow> lock_state \<Rightarrow> bool" where
  "lock_ok h s \<longleftrightarrow> (\<forall>r j. holding (ls_phase s r) = Some j \<longrightarrow> ls_lock s (h (jb_pid j)) = Some r)"

definition rates_ok_now :: "derive_env \<Rightarrow> lock_state \<Rightarrow> bool" where
  "rates_ok_now e s \<longleftrightarrow> (\<forall>r j. counted_rate (ls_phase s r) = Some j \<longrightarrow>
     recent_children (ls_db s) (jb_pid j) (jb_now j) < rate_per_min e)"

definition actives_ok_now :: "derive_env \<Rightarrow> lock_state \<Rightarrow> bool" where
  "actives_ok_now e s \<longleftrightarrow> (\<forall>r j. counted_active (ls_phase s r) = Some j \<longrightarrow>
     active_children (ls_db s) (jb_pid j) (jb_now j) < max_active e)"

definition rate_held :: "derive_env \<Rightarrow> db \<Rightarrow> bool" where
  "rate_held e d \<longleftrightarrow> (\<forall>p t. window d p t \<le> rate_per_min e)"

definition cap_held :: "derive_env \<Rightarrow> db \<Rightarrow> bool" where
  "cap_held e d \<longleftrightarrow> (\<forall>p t. all_created_by d p t \<longrightarrow> active_children d p t \<le> max_active e)"

text \<open>At most one request per lock is past it.\<close>

lemma lock_exclusive:
  assumes "lock_ok h s" "holding (ls_phase s r) = Some i" "holding (ls_phase s q) = Some j"
    "h (jb_pid i) = h (jb_pid j)"
  shows "r = q"
  using assms unfolding lock_ok_def by (metis option.inject)

lemma lock_ok_finish:
  assumes "lock_ok h s" "holding (ls_phase s r) = Some j"
  shows "lock_ok h (finish (s\<lparr>ls_db := d\<rparr>) (h (jb_pid j)) r out)"
  unfolding lock_ok_def
proof (intro allI impI)
  fix q i
  assume "holding (ls_phase (finish (s\<lparr>ls_db := d\<rparr>) (h (jb_pid j)) r out) q) = Some i"
  then have q: "q \<noteq> r" "holding (ls_phase s q) = Some i"
    by (auto simp: finish_def split: if_splits)
  then have "h (jb_pid i) \<noteq> h (jb_pid j)" using lock_exclusive[OF assms(1) q(2) assms(2)] by auto
  then show "ls_lock (finish (s\<lparr>ls_db := d\<rparr>) (h (jb_pid j)) r out) (h (jb_pid i)) = Some q"
    using assms(1) q(2) by (simp add: lock_ok_def finish_def)
qed

lemma lock_ok_step:
  assumes "lock_step W e dr h s s'" "lock_ok h s"
  shows "lock_ok h s'"
  using assms(1)
proof cases
  case (acquire r j)
  then show ?thesis using assms(2) by (fastforce simp: lock_ok_def)
next
  case (rate_full r j)
  then show ?thesis using lock_ok_finish[OF assms(2), of r j "ls_db s"] by simp
next
  case (active_full r j)
  then show ?thesis using lock_ok_finish[OF assms(2), of r j "ls_db s"] by simp
next
  case (insert_row r j k)
  then show ?thesis using lock_ok_finish[OF assms(2), of r j] by simp
next
  case (roll_back r j)
  then show ?thesis using lock_ok_finish[OF assms(2), of r j "ls_db s"] by auto
qed (use assms(2) in \<open>auto simp: lock_ok_def\<close>)

text \<open>Only the holder of the parent's lock adds a child, so a count that passed still
  passes when the row is inserted.\<close>

lemma other_parent:
  assumes "lock_ok h s" "ls_phase s r = Active_ok j" "q \<noteq> r" "counted_rate (ls_phase s q) = Some i"
  shows "jb_pid i \<noteq> jb_pid j"
  using lock_exclusive[OF assms(1) counted_holding(2)[OF assms(4)], of r j] assms(2,3) by auto

lemma rates_ok_step:
  assumes step: "lock_step W e dr h s s'" and lock: "lock_ok h s" and ok: "rates_ok_now e s"
    and W: "\<And>a b. W a b \<Longrightarrow> steady a b"
  shows "rates_ok_now e s'"
  using step
proof cases
  case (insert_row r j k)
  have k: "key_parent k = Some (jb_pid j)" using child_row_Some(8)[OF insert_row(3)] .
  show ?thesis
    unfolding rates_ok_now_def
  proof (intro allI impI)
    fix q i
    assume "counted_rate (ls_phase s' q) = Some i"
    then have q: "q \<noteq> r" "counted_rate (ls_phase s q) = Some i"
      by (auto simp: insert_row(1) finish_def split: if_splits)
    show "recent_children (ls_db s') (jb_pid i) (jb_now i) < rate_per_min e"
      using ok q(2) k other_parent[OF lock insert_row(2) q]
      by (simp add: rates_ok_now_def insert_row(1) finish_def insert_counts)
  qed
next
  case (other d')
  then show ?thesis using ok steady_counts(1)[OF W[OF other(2)]]
    by (auto simp: rates_ok_now_def) (meson le_less_trans)
next
  case (active_free r j)
  then have "recent_children (ls_db s) (jb_pid j) (jb_now j) < rate_per_min e"
    using ok unfolding rates_ok_now_def by (metis counted_rate.simps(1))
  then show ?thesis using active_free ok by (auto simp: rates_ok_now_def)
qed (use ok in \<open>auto simp: rates_ok_now_def finish_def\<close>)

lemma actives_ok_step:
  assumes step: "lock_step W e dr h s s'" and lock: "lock_ok h s" and ok: "actives_ok_now e s"
    and W: "\<And>a b. W a b \<Longrightarrow> quiet a b"
  shows "actives_ok_now e s'"
  using step
proof cases
  case (insert_row r j k)
  have k: "key_parent k = Some (jb_pid j)" using child_row_Some(8)[OF insert_row(3)] .
  show ?thesis
    unfolding actives_ok_now_def
  proof (intro allI impI)
    fix q i
    assume "counted_active (ls_phase s' q) = Some i"
    then have q: "q \<noteq> r" "counted_active (ls_phase s q) = Some i"
      by (auto simp: insert_row(1) finish_def split: if_splits)
    show "active_children (ls_db s') (jb_pid i) (jb_now i) < max_active e"
      using ok q(2) k other_parent[OF lock insert_row(2) q(1) counted_holding(1)[OF q(2)]]
      by (simp add: actives_ok_now_def insert_row(1) finish_def insert_counts)
  qed
next
  case (other d')
  then show ?thesis using ok quiet_active[OF W[OF other(2)]]
    by (auto simp: actives_ok_now_def) (meson le_less_trans)
qed (use ok in \<open>auto simp: actives_ok_now_def finish_def\<close>)

lemma rate_held_step:
  assumes step: "lock_step W e dr h s s'" and ok: "rates_ok_now e s" and held: "rate_held e (ls_db s)"
    and W: "\<And>a b. W a b \<Longrightarrow> steady a b"
  shows "rate_held e (ls_db s')"
  using step
proof cases
  case (insert_row r j k)
  note k = child_row_Some(8,10)[OF insert_row(3)]
  have rate: "recent_children (ls_db s) (jb_pid j) (jb_now j) < rate_per_min e"
    using ok insert_row(2) unfolding rates_ok_now_def by (metis counted_rate.simps(2))
  have "window (insert_key (ls_db s) k) q t \<le> rate_per_min e" for q t
  proof -
    have "window (ls_db s) (jb_pid j) t + 1 \<le> rate_per_min e" if "jb_now j \<le> t"
      using window_le_recent[OF that, of "ls_db s" "jb_pid j"] rate by simp
    then show ?thesis using held k by (auto simp: insert_counts rate_held_def)
  qed
  then show ?thesis by (simp add: rate_held_def insert_row(1) finish_def)
next
  case (other d')
  then show ?thesis using held steady_counts(2)[OF W[OF other(2)]] by (auto simp: rate_held_def) (meson le_trans)
qed (use held in \<open>auto simp: finish_def\<close>)

lemma cap_held_step:
  assumes step: "lock_step W e dr h s s'" and ok: "actives_ok_now e s" and held: "cap_held e (ls_db s)"
    and W: "\<And>a b. W a b \<Longrightarrow> quiet a b"
  shows "cap_held e (ls_db s')"
  using step
proof cases
  case (insert_row r j k)
  note k = child_row_Some(8,10)[OF insert_row(3)]
  have act: "active_children (ls_db s) (jb_pid j) (jb_now j) < max_active e"
    using ok insert_row(2) unfolding actives_ok_now_def by (metis counted_active.simps(1))
  have "active_children (insert_key (ls_db s) k) q t \<le> max_active e" if all: "all_created_by (insert_key (ls_db s) k) q t" for q t
  proof -
    have t: "all_created_by (ls_db s) q t" "q = jb_pid j \<Longrightarrow> jb_now j \<le> t"
      using all k by (auto simp: all_created_by_def insert_key_def)
    have "active_children (ls_db s) (jb_pid j) t + 1 \<le> max_active e" if "jb_now j \<le> t"
      using active_children_antimono[OF that, of "ls_db s" "jb_pid j"] act by simp
    then show ?thesis using held k t by (auto simp: insert_counts cap_held_def)
  qed
  then show ?thesis by (simp add: cap_held_def insert_row(1) finish_def)
next
  case (other d')
  then show ?thesis using held quiet_active[OF W[OF other(2)]] quiet_created[OF W[OF other(2)]]
    by (simp add: cap_held_def) (meson le_trans)
qed (use held in \<open>auto simp: finish_def\<close>)

text \<open>Two invariants, one for each kind of other writers.\<close>

definition only :: "(db \<Rightarrow> db \<Rightarrow> bool) \<Rightarrow> (db \<Rightarrow> db \<Rightarrow> bool) \<Rightarrow> db \<Rightarrow> db \<Rightarrow> bool" where
  "only K W a b \<longleftrightarrow> W a b \<and> K a b"

interpretation rate_lock: step_system "lock_step (only steady W) e dr h"
    "\<lambda>s. lock_ok h s \<and> rates_ok_now e s \<and> rate_held e (ls_db s)" for W e dr h
  using lock_ok_step rates_ok_step rate_held_step by unfold_locales (metis only_def)

interpretation cap_lock: step_system "lock_step (only quiet W) e dr h"
    "\<lambda>s. lock_ok h s \<and> actives_ok_now e s \<and> cap_held e (ls_db s)" for W e dr h
  using lock_ok_step actives_ok_step cap_held_step by unfold_locales (metis only_def)

lemma only_self: "(\<And>a b. W a b \<Longrightarrow> K a b) \<Longrightarrow> only K W = W"
  by (auto simp: only_def fun_eq_iff)

lemma lock_reach_rate:
  assumes "lock_reach W e dr h d s" "rate_held e d" "\<And>a b. W a b \<Longrightarrow> steady a b"
  shows "rate_held e (ls_db s)"
  using rate_lock.run_ok[of W e dr h "lock_start d" s] assms
  by (simp add: lock_reach_def only_self lock_start_def lock_ok_def rates_ok_now_def)

lemma lock_reach_cap:
  assumes "lock_reach W e dr h d s" "cap_held e d" "\<And>a b. W a b \<Longrightarrow> quiet a b"
  shows "cap_held e (ls_db s)"
  using cap_lock.run_ok[of W e dr h "lock_start d" s] assms
  by (simp add: lock_reach_def only_self lock_start_def lock_ok_def actives_ok_now_def)

section \<open>The other writers, and a request alone\<close>

lemma rows_by_update:
  assumes "\<And>k. R k k" "\<And>k. R k (f k)"
  shows "rows_by R d (update_keys P f d)"
  unfolding rows_by_def update_keys_def
  using assms by (intro exI[of _ "map (\<lambda>k. if P k then f k else k) (db_keys d)"] exI[of _ "[]"])
    (auto simp: list_all2_map2 intro!: list_all2_refl)

lemma quiet_row_refl: "quiet_row k k"
  by (simp add: quiet_row_def steady_row_def)

lemmas quiet_update = rows_by_update[of quiet_row, OF quiet_row_refl]

lemma quiet_same: "db_keys d' = db_keys d \<Longrightarrow> quiet d d'"
  unfolding rows_by_def by (intro exI[of _ "db_keys d"] exI[of _ "[]"]) (auto simp: quiet_row_refl intro!: list_all2_refl)

lemma quiet_insert_top: "key_parent k = None \<Longrightarrow> quiet d (insert_key d k)"
  unfolding rows_by_def insert_key_def
  by (intro exI[of _ "db_keys d"] exI[of _ "[k]"]) (auto simp: quiet_row_refl intro!: list_all2_refl)

lemma revoke_quiet: "revoke_key now user d t = (r, d') \<Longrightarrow> quiet d d'"
  by (auto simp: revoke_key_def Let_def quiet_row_def steady_row_def intro: quiet_same intro!: quiet_update
      split: option.splits if_splits)

lemma create_quiet:
  assumes "create_insert dr sha256 random i now user d body = (r, d')"
  shows "quiet d d'"
proof (cases r)
  case (Answer st x)
  then obtain k s where "create_insert dr sha256 random i now user d body = (Answer st (k, s), d')"
    using assms by (cases x) auto
  then show ?thesis using create_insert_Answer(6,12) quiet_insert_top by metis
qed (use assms create_insert_Failure quiet_same in blast)

lemma set_root_quiet: "quiet d (set_root now i d)"
  unfolding set_root_def by (rule quiet_update) (simp add: quiet_row_def steady_row_def)

text \<open>A request that runs without interference gives the result of \<open>derive_tx\<close>.\<close>

lemma lock_runs_derive_tx:
  assumes ph: "ls_phase s r = Waiting j" and free: "ls_lock s (h (jb_pid j)) = None"
    and tx: "derive_tx e dr (jb_id j) (jb_now j) (jb_parent j) (jb_request j) (ls_db s) = (out, d')"
  shows "(lock_step W e dr h)\<^sup>*\<^sup>* s
     (s\<lparr>ls_db := d', ls_phase := (ls_phase s)(r := Finished out)\<rparr>)"
proof -
  let ?l = "h (jb_pid j)"
  let ?at = "\<lambda>ph. s\<lparr>ls_lock := (ls_lock s)(?l := Some r), ls_phase := (ls_phase s)(r := ph)\<rparr>"
  let ?S = "lock_step W e dr h"
  have lock: "(ls_lock s)(?l := None) = ls_lock s" using free by auto
  have acq: "?S\<^sup>*\<^sup>* s (?at (Locked j))"
    by (rule r_into_rtranclp) (rule acquire[of s r j h W e dr, OF ph free])
  have fin: "?S\<^sup>*\<^sup>* s (s\<lparr>ls_db := d', ls_phase := (ls_phase s)(r := Finished out)\<rparr>)"
    if "?S\<^sup>*\<^sup>* s (?at ph)" "?S (?at ph) (finish ((?at ph)\<lparr>ls_db := d'\<rparr>) ?l r out)" for ph
  proof -
    have "finish ((?at ph)\<lparr>ls_db := d'\<rparr>) ?l r out =
        s\<lparr>ls_db := d', ls_phase := (ls_phase s)(r := Finished out)\<rparr>"
      by (simp add: finish_def lock)
    then show ?thesis using that rtranclp.rtrancl_into_rtrancl by metis
  qed
  have same: "(?at ph)\<lparr>ls_db := ls_db s\<rparr> = ?at ph" for ph by simp
  show ?thesis
  proof (cases "rate_per_min e \<le> recent_children (ls_db s) (jb_pid j) (jb_now j)")
    case True
    then have "out = Inl (429, Rate_limited)" "d' = ls_db s" using tx by (auto simp: derive_tx_def)
    then show ?thesis
      using fin[OF acq] rate_full[of "?at (Locked j)" r j e W dr h] True same by auto
  next
    case False
    then have rate: "?S\<^sup>*\<^sup>* s (?at (Rate_ok j))"
      using acq rate_free[of "?at (Locked j)" r j e W dr h] by (auto intro: rtranclp.rtrancl_into_rtrancl)
    show ?thesis
    proof (cases "max_active e \<le> active_children (ls_db s) (jb_pid j) (jb_now j)")
      case full: True
      then have "out = Inl (429, Too_many_active)" "d' = ls_db s"
        using tx False by (auto simp: derive_tx_def)
      then show ?thesis
        using fin[OF rate] active_full[of "?at (Rate_ok j)" r j e W dr h] full same by auto
    next
      case free_slot: False
      then have act: "?S\<^sup>*\<^sup>* s (?at (Active_ok j))"
        using rate active_free[of "?at (Rate_ok j)" r j e W dr h] by (auto intro: rtranclp.rtrancl_into_rtrancl)
      show ?thesis
      proof (cases "child_row dr (jb_id j) (jb_now j) (jb_parent j) (jb_request j)")
        case None
        then have "out = Inl (500, Statement_failed)" "d' = ls_db s"
          using tx False free_slot by (auto simp: derive_tx_def)
        then show ?thesis using fin[OF act] roll_back[of "?at (Active_ok j)" r j W e dr h] same by auto
      next
        case (Some k)
        then have "out = Inr k" "d' = insert_key (ls_db s) k"
          using tx False free_slot by (auto simp: derive_tx_def)
        then show ?thesis using fin[OF act] insert_row[of "?at (Active_ok j)" r j dr k W e h] Some by auto
      qed
    qed
  qed
qed

end
