(* ===== verification/Teams_Route.thy ===== *)
theory Teams_Route
  imports Teams_Sync
begin

text \<open>
  \<open>GET /teams\<close> (\<open>api/src/routes/teams.ts\<close>): the teams a user may see, by name.  Together with
  the reconciliation that admission runs first, it lists exactly the organisations of the
  request's context.
\<close>

text \<open>\<open>ORDER BY name\<close> is the server's collation, ties are the server's.\<close>

definition get_teams :: "(string \<Rightarrow> int) \<Rightarrow> (team_row \<Rightarrow> int) \<Rightarrow> db \<Rightarrow> string \<Rightarrow> team_row list" where
  "get_teams collate rank d uid = sort_key (\<lambda>t. collate (team_name t)) (sort_key rank (visible_teams d uid))"

lemma find_by_key:
  assumes "distinct (map f xs)" "x \<in> set xs"
  shows "find (\<lambda>y. f y = f x) xs = Some x"
  using assms by (induction xs) (auto simp: image_iff)

lemma role_of_user: "role_of d uid t \<noteq> None \<longleftrightarrow> t \<in> set (user_teams d uid)"
  by (auto simp: role_of_def user_teams_def find_None_iff)

lemma visible_orgs:
  assumes "teams_ok d"
  shows "kamuid_org_id ` set (visible_teams d uid) = {org. role_in d uid org \<noteq> None}"
proof -
  have "distinct (map kamuid_org_id (db_teams d))" using assms by (simp add: teams_ok_def)
  then have "role_in d uid org \<noteq> None \<longleftrightarrow> (\<exists>t\<in>set (db_teams d). kamuid_org_id t = org \<and> role_of d uid (team_id t) \<noteq> None)" for org
  proof (intro iffI)
    assume "role_in d uid org \<noteq> None"
    then show "\<exists>t\<in>set (db_teams d). kamuid_org_id t = org \<and> role_of d uid (team_id t) \<noteq> None"
      by (auto simp: role_in_def team_of_org_def split: option.splits dest: find_SomeD)
  qed (auto simp: role_in_def team_of_org_def find_by_key)
  then show ?thesis unfolding role_of_user by (auto simp: visible_teams_def)
qed

lemma listed_orgs:
  "teams_ok d \<Longrightarrow> kamuid_org_id ` set (get_teams collate rank d uid) = {org. role_in d uid org \<noteq> None}"
  by (simp add: get_teams_def visible_orgs)

end
