(* ===== verification/Claims_Keys.thy ===== *)
theory Claims_Keys
  imports Derive_Lock Teams_Route
begin

text \<open>
  What key management guarantees: delegation only narrows, limits hold under
  concurrency, revocation reaches the whole subtree, and only a verified platform
  context with the right grant gets that far.  The examples at the start are a
  database with one team and one top-level key.
\<close>

section \<open>Example data\<close>

definition ex_secret :: string where
  "ex_secret = ''sk_live_ab''"

definition ex_header :: string where
  "ex_header = ''bearer sk_live_ab''"

definition ex_top :: key_row where
  "ex_top = \<lparr>key_id = 7, key_team = 1, key_label = ''ci'', key_hash = Some (hash_key (\<lambda>b. b) ex_secret),
     key_prefix = Some ex_secret, key_kind = Top, key_models = [''*''], key_budget = None,
     key_status = Active, key_parent = None, key_root = Some 7, key_metadata = None,
     key_constraints = None, key_expires_at = Some 9000000000, key_created_at = 0, key_updated_at = 0,
     key_revoked_at = None, key_created_by = Some ''u'', key_revoked_by = None\<rparr>"

definition ex_db :: db where
  "ex_db = \<lparr>db_teams = [\<lparr>team_id = 1, kamuid_org_id = ''org'', team_name = ''Org'', team_slug = ''org'', team_updated_at = 0\<rparr>],
     db_members = [\<lparr>member_team = 1, member_user = ''u'', member_role = Member\<rparr>],
     db_keys = [ex_top], db_usage = [], db_spend = Map.empty, db_prices = [],
     db_settings = \<lparr>disabled_models = [], default_budget = None, settings_updated_at = 0, settings_updated_by = None\<rparr>\<rparr>"

definition ex_driver :: driver where
  "ex_driver = \<lparr>bind_uuid = (\<lambda>_. Some 1), bind_budget = (\<lambda>_. None),
     bind_time = (\<lambda>_. None), bind_date = (\<lambda>ms. Some (pg_of_date ms)), bind_jsonb = Some\<rparr>"

definition ex_env :: derive_env where
  "ex_env = \<lparr>default_ttl = 3600, max_ttl = 86400, rate_per_min = 60, max_active = 1000, signing_kid = ''k''\<rparr>"

definition ex_request :: derive_terms where
  "ex_request = \<lparr>rq_label = ''derived'', rq_models = [''*''], rq_expiry = 4600, rq_expires_ms = 4600000,
     rq_budget = JNull, rq_metadata = JNull\<rparr>"

definition ex_child :: key_row where
  "ex_child = \<lparr>key_id = 8, key_team = 1, key_label = ''derived'', key_hash = None, key_prefix = None,
     key_kind = Derived, key_models = [''*''], key_budget = None, key_status = Active,
     key_parent = Some 7, key_root = Some 7, key_metadata = None, key_constraints = None,
     key_expires_at = Some 4600000000, key_created_at = 1000000000, key_updated_at = 1000000000,
     key_revoked_at = None, key_created_by = None, key_revoked_by = None\<rparr>"

lemma ex_keys_ok: "keys_ok ex_db"
  by (simp add: keys_ok_def ex_db_def ex_top_def top_ok_def)

lemma ex_derive_parent: "derive_parent (\<lambda>b. b) ex_db (Some ex_header) = Inr ex_top"
proof -
  have "bearer_token (Some ex_header) = ex_secret"
    by (simp add: ex_header_def bearer_token_def Let_def ex_secret_def starts_with_def to_lower_def lower_char_def
        js_trim_def trim_start_def js_space_def)
  then show ?thesis
    by (simp add: derive_parent_def Let_def ex_db_def) (simp add: ex_top_def ex_secret_def starts_with_def prefix_live_def)
qed

lemma ex_derive_request: "derive_request ex_env 1000000 ex_top None = Inr ex_request"
proof -
  have "js_add 1000 3600 = 4600" "js_mul 4600 1000 = 4600000"
    using fl_of_int[of 4600] fl_of_int[of 4600000] by (simp_all add: js_add_def js_mul_def)
  then show ?thesis
    by (simp add: derive_request_def derive_label_def derive_models_def derive_expiry_def field_of_def
        js_get_def seconds_def ex_env_def ex_top_def ex_request_def models_subset_def js_date_def js_trunc_def Let_def)
qed

lemma ex_child_row: "child_row ex_driver 8 1000000000 ex_top ex_request = Some ex_child"
  by (simp add: child_row_def bind_opt_def ex_driver_def ex_request_def ex_top_def ex_child_def pg_of_date_def)

lemma ex_derive_tx:
  "derive_tx ex_env ex_driver 8 1000000000 ex_top ex_request ex_db = (Inr ex_child, insert_key ex_db ex_child)"
  using ex_child_row
  by (simp add: derive_tx_def recent_children_def active_children_def ex_env_def ex_db_def ex_top_def)

text \<open>A toy signature with three parts: the seconds of \<open>exp\<close>, rounded up, as that many letters, and the \<open>jti\<close>.
  Its verifier has a clock.\<close>

definition ex_sign :: "json \<Rightarrow> json \<Rightarrow> string option" where
  "ex_sign h c = (case (js_get c ''jti'', js_get c ''exp'') of
     (Some (JStr s), Some (JNum (Fin x))) \<Rightarrow> Some (''a.'' @ replicate (nat \<lceil>x\<rceil>) (CHR ''b'') @ ''.'' @ s) | _ \<Rightarrow> None)"

definition ex_verify :: "int \<Rightarrow> string \<Rightarrow> json option" where
  "ex_verify clock t = (let n = length (takeWhile (\<lambda>c. c = CHR ''b'') (drop 2 t)) in
     if clock < int n then Some (JObj [(''jti'', JStr (drop 1 (dropWhile (\<lambda>c. c = CHR ''b'') (drop 2 t))))]) else None)"

lemma ex_jwt:
  assumes "0 \<le> clock"
  shows "jwt_round_trip ex_sign (ex_verify clock) clock"
proof -
  have dot: "CHR ''.'' \<noteq> hex_char n" if "n < 16" for n
    using less_16_cases[OF that] by (auto simp: hex_char_def)
  have "CHR ''.'' \<notin> set (hex_digits n v)" for n v using dot set_hex_digits by metis
  then have "count_list (uuid_text u) (CHR ''.'') = 0" for u
    by (simp add: uuid_text_digits count_notin)
  moreover have "of_int clock < x \<longleftrightarrow> clock < int (nat \<lceil>x\<rceil>)" for x :: rat
    using assms by (simp add: less_ceiling_iff)
  moreover have "takeWhile (\<lambda>c. c = CHR ''b'') (replicate n (CHR ''b'') @ ''.'' @ s) = replicate n (CHR ''b'')" for n s
    by (simp add: takeWhile_append)
  moreover have "dropWhile (\<lambda>c. c = CHR ''b'') (replicate n (CHR ''b'') @ ''.'' @ s) = ''.'' @ s" for n s
    by (simp add: dropWhile_append)
  ultimately show ?thesis
    by (simp add: jwt_round_trip_def ex_sign_def ex_verify_def length_split_on starts_with_def prefix_live_def js_get_def
        count_notin Let_def)
qed

definition ex_token :: string where
  "ex_token = ''a.'' @ replicate 4600 (CHR ''b'') @ ''.'' @ uuid_text 8"

lemma ex_signed: "sign_sub_key_jwt ex_sign ''k'' (child_payload ex_top ex_child) 4600 1000 = Some ex_token"
proof -
  have "pl_jti (child_payload ex_top ex_child) = 8" by (simp add: child_payload_def ex_child_def)
  then show ?thesis by (simp add: sign_sub_key_jwt_def ex_sign_def claims_jti ex_token_def)
qed

lemma ex_derive:
  "derive ex_env ex_driver (\<lambda>b. b) ex_sign 8 1000000 1000000 1000000000 ex_db (Some ex_header) None =
     (Answer 201 (ex_child, ex_token), insert_key ex_db ex_child)"
  by (simp add: derive_def ex_derive_parent ex_derive_request ex_derive_tx)
    (simp add: ex_request_def ex_env_def seconds_def ex_signed)

section \<open>Delegation\<close>

text \<open>The allowlist check is exact: it accepts a child list precisely when every model the
  child may use is one the parent may use.\<close>

theorem models_subset_exact:
  "models_subset child parent = (\<forall>m. allows child m \<longrightarrow> allows parent m)"
  by (rule models_subset_iff)

theorem models_subset_exact_witness:
  "\<exists>m. allows [''*''] m \<and> \<not> allows [''m''] m"
  using models_subset_exact[of "[''*'']" "[''m'']"] by (auto simp: models_subset_def)

text \<open>Property C1.  A derived key is a narrowing of the key that was presented: it belongs to the same team
  and hangs directly under that active top-level key, whose root it takes over (the key itself,
  unless its mint has not run its second statement), it may use no model its parent may not use,
  it carries no stored secret, and it is the only change to the database.\<close>

theorem derive_only_narrows:
  assumes "derive e dr sha256 sign i now now' pg_now d authorization body = (Answer st (k, token), d')"
    and "keys_ok d"
  shows "\<exists>p\<in>set (db_keys d). key_kind p = Top \<and> key_status p = Active \<and>
    key_hash p = Some (hash_key sha256 (bearer_token authorization)) \<and>
    key_parent k = Some (key_id p) \<and> key_root k = key_root p \<and>
    (key_root p \<noteq> None \<longrightarrow> key_root k = Some (key_id p)) \<and> key_team k = key_team p \<and>
    key_kind k = Derived \<and> key_hash k = None \<and>
    (\<forall>m. allows (key_models k) m \<longrightarrow> allows (key_models p) m) \<and> d' = insert_key d k"
  by (rule derive_child[OF assms]) metis

theorem derive_only_narrows_witness:
  "\<exists>p\<in>set (db_keys ex_db). key_parent ex_child = Some (key_id p) \<and> key_team ex_child = key_team p"
  using derive_only_narrows[OF ex_derive ex_keys_ok] by blast

text \<open>Property C23.  A derived key never outlives its parent, nor the configured maximum from the moment of
  the request.\<close>

theorem derive_never_outlives:
  assumes "derive e dr sha256 sign i now now' pg_now d authorization body = (Answer st (k, token), d')"
    and "dates_exact dr" "0 \<le> now" "now \<le> 2 ^ 52" "max_ttl e \<le> 2 ^ 52"
  shows "\<exists>p\<in>set (db_keys d). \<exists>x. key_parent k = Some (key_id p) \<and> key_expires_at k = Some x \<and>
    (\<forall>y. key_expires_at p = Some y \<longrightarrow> x \<le> y) \<and> x \<le> pg_of_date (now + max_ttl e * 1000)"
proof -
  obtain p x where "p \<in> set (db_keys d)" "key_parent k = Some (key_id p)" "key_expires_at k = Some x"
    "case key_expires_at p of None \<Rightarrow> True | Some y \<Rightarrow> x \<le> y" "x \<le> pg_of_date (now + max_ttl e * 1000)"
    using derive_lifetime[OF assms(1-3)] assms(4,5) by metis
  then show ?thesis by (intro bexI[of _ p] exI[of _ x]) auto
qed

lemma ex_dates: "dates_exact ex_driver"
  by (simp add: dates_exact_def ex_driver_def)

theorem derive_never_outlives_witness:
  "\<exists>x. key_expires_at ex_child = Some x \<and> x \<le> pg_of_date (1000000 + 86400 * 1000)"
  using derive_never_outlives[OF ex_derive ex_dates] by (auto simp: ex_env_def)

text \<open>Property C13.  The token handed out by derive opens the gateway for exactly the new row until the very
  moment that row expires, and for nothing from then on.  The verifier is the library's: with a
  clock that reads whole seconds it accepts what was signed before the \<open>exp\<close> that was signed, and
  throws from then on.  Its clock and the database's show the same time, and the driver writes
  dates as they are.\<close>

theorem derived_token_verifies:
  assumes "derive e dr sha256 sign i now now' pg_now d authorization body = (Answer st (k, token), d')"
    and "keys_ok d" "\<not> key_exists d i" "dates_exact dr" "0 \<le> now"
    and "jwt_round_trip sign verify (seconds (js_date later))"
  shows "verify_gateway_credential sha256 verify later d' token =
    Inr (if unexpired later k then Some \<lparr>scope_key = i, scope_type = Derived\<rparr> else None)"
  using derive_verifies[OF assms] .

theorem derived_token_verifies_witness:
  "verify_gateway_credential (\<lambda>b. b) (ex_verify 4599) 4599999999 (insert_key ex_db ex_child) ex_token =
     Inr (Some \<lparr>scope_key = 8, scope_type = Derived\<rparr>) \<and>
   verify_gateway_credential (\<lambda>b. b) (ex_verify 4600) 4600000000 (insert_key ex_db ex_child) ex_token = Inr None"
proof -
  have "\<not> key_exists ex_db 8" by (simp add: key_exists_def ex_db_def ex_top_def)
  note * = derived_token_verifies[OF ex_derive ex_keys_ok this ex_dates]
  have "seconds (js_date 4599999999) = 4599" "seconds (js_date 4600000000) = 4600"
    by (simp_all add: seconds_def js_date_def)
  then show ?thesis using *[of "ex_verify 4599" 4599999999] *[of "ex_verify 4600" 4600000000] ex_jwt
    by (simp add: unexpired_def ex_child_def)
qed

text \<open>Property C9.  However derive requests of any number of parents interleave with each other and with
  other writers of the key table, no parent ever has more than the configured number of
  children created within any one minute, as long as the others add no derived key and leave the
  parent and the dates of every row alone, which all other transactions of the program and all
  writes of budgets do.  If the others also bring no row back to active, no parent has more than
  the configured number of active, unexpired children at any time from its latest mint on.  The
  second limit does need that: raising the budget of a key over budget makes it active again, and no
  one counts then.\<close>

theorem derive_limits_hold:
  assumes "lock_reach W e dr h d s" "rate_held e d" "cap_held e d" "\<And>a b. W a b \<Longrightarrow> steady a b"
  shows "(\<forall>p t. window (ls_db s) p t \<le> rate_per_min e) \<and>
    ((\<forall>a b. W a b \<longrightarrow> quiet a b) \<longrightarrow>
       (\<forall>p t. all_created_by (ls_db s) p t \<longrightarrow> active_children (ls_db s) p t \<le> max_active e))"
  using lock_reach_rate[OF assms(1,2,4)] lock_reach_cap[OF assms(1,3)] unfolding rate_held_def cap_held_def by blast

definition ex_job :: job where
  "ex_job = \<lparr>jb_now = 1000000000, jb_id = 8, jb_parent = ex_top, jb_request = ex_request\<rparr>"

definition ex_minted :: lock_state where
  "ex_minted = (lock_start ex_db)\<lparr>ls_db := insert_key ex_db ex_child,
     ls_phase := (\<lambda>_. Idle)(0 := Finished (Inr ex_child))\<rparr>"

lemma ex_limits: "rate_held ex_env ex_db" "cap_held ex_env ex_db"
  by (simp_all add: rate_held_def cap_held_def window_def active_children_def ex_db_def ex_env_def ex_top_def)

lemma ex_reach: "lock_reach quiet ex_env ex_driver (\<lambda>_. 0) ex_db ex_minted"
proof -
  let ?s = "(lock_start ex_db)\<lparr>ls_phase := (ls_phase (lock_start ex_db))(0 := Waiting ex_job)\<rparr>"
  have "lock_step quiet ex_env ex_driver (\<lambda>_. 0) (lock_start ex_db) ?s"
    by (rule begin_tx) (simp add: lock_start_def)
  moreover have "(lock_step quiet ex_env ex_driver (\<lambda>_. 0))\<^sup>*\<^sup>* ?s
      (?s\<lparr>ls_db := insert_key ex_db ex_child, ls_phase := (ls_phase ?s)(0 := Finished (Inr ex_child))\<rparr>)"
    by (rule lock_runs_derive_tx[where j = ex_job])
      (simp_all add: lock_start_def ex_job_def ex_derive_tx)
  ultimately show ?thesis
    unfolding lock_reach_def by (simp add: ex_minted_def lock_start_def converse_rtranclp_into_rtranclp)
qed

theorem derive_limits_hold_witness:
  "window (ls_db ex_minted) 7 1000000000 \<le> 60 \<and> active_children (ls_db ex_minted) 7 1000000000 \<le> 1000"
proof -
  have "all_created_by (ls_db ex_minted) 7 1000000000"
    by (simp add: all_created_by_def ex_minted_def insert_key_def ex_db_def ex_top_def ex_child_def)
  then show ?thesis using derive_limits_hold[OF ex_reach ex_limits quiet_steady] by (simp add: ex_env_def)
qed

section \<open>Minting and revoking\<close>

text \<open>Property C32.  A minted secret, shown once, is accepted by the gateway as the new top-level key
  until the key expires, whatever others commit between the two statements of the mint, as long
  as they leave the new row alone and no other stored hash equals its own.\<close>

theorem minted_secret_verifies:
  assumes "create_key dr sha256 random i now (Some (now', others)) user d body = (Answer st (k, secret), d')"
    and "d1 = others (insert_key d (k\<lparr>key_root := None\<rparr>))" "keys_ok d1" "k\<lparr>key_root := None\<rparr> \<in> set (db_keys d1)"
    and "\<forall>j\<in>set (db_keys d1). key_hash j = key_hash k \<longrightarrow> key_id j = i"
    and "case key_expires_at k of None \<Rightarrow> True | Some t \<Rightarrow> later < t"
  shows "verify_gateway_credential sha256 verify later d' secret =
    Inr (Some \<lparr>scope_key = i, scope_type = Top\<rparr>)"
  using minted_verifies[OF assms] .

definition ex_body :: json where
  "ex_body = JObj [(''team_id'', JStr ''1''), (''label'', JStr ''new'')]"

definition ex_new :: key_row where
  "ex_new = top_key_row 9 1 ''new'' (generate_top_level_key (\<lambda>b. b) [255]) [''*''] None None None ''u'' 5"

lemma ex_hex: "bytes_hex [255] = ''ff''"
  by code_simp

lemma ex_insert_on:
  assumes "find_team d 1 \<noteq> None" "may_insert_key d ''u'' ex_new"
  shows "create_insert ex_driver (\<lambda>b. b) [255] 9 5 ''u'' d (Some ex_body) =
     (Answer 201 (ex_new, ''sk_live_ff''), insert_key d ex_new)"
proof -
  have label: "body_label ex_body = Inr ''new''"
    by (simp add: body_label_def field_of_def js_get_def ex_body_def js_trim_def trim_start_def js_space_def)
  have models: "body_models ex_body = Some [''*'']"
    by (simp add: body_models_def field_of_def js_get_def ex_body_def)
  have fields: "field_of ex_body ''team_id'' = JStr ''1''" "field_of ex_body ''budget_usd'' = JNull"
    "field_of ex_body ''expires_at'' = JNull" "field_of ex_body ''metadata'' = JNull"
    by (simp_all add: field_of_def js_get_def ex_body_def)
  have bind: "bind_uuid ex_driver (JStr ''1'') = Some 1"
    by (simp add: ex_driver_def)
  have truthy: "js_truthy (JStr ''1'')" by (simp add: js_truthy_def)
  have secret: "gen_secret (generate_top_level_key (\<lambda>b. b) [255]) = ''sk_live_ff''"
    by (simp add: generated_secret prefix_live_def ex_hex)
  have body: "ex_body \<noteq> JNull" by (simp add: ex_body_def)
  show ?thesis
    using assms
    by (simp add: create_insert_def body label models fields bind truthy bind_opt_def Let_def secret
        flip: ex_new_def)
qed

lemma ex_new_id: "key_id ex_new = 9"
  by (simp add: ex_new_def top_key_row_def)

lemma ex_create_on:
  assumes "find_team d 1 \<noteq> None" "may_insert_key d ''u'' ex_new"
  shows "create_key ex_driver (\<lambda>b. b) [255] 9 5 second ''u'' d (Some ex_body) =
     (case second of None \<Rightarrow> (Failure 500 Sql_error, insert_key d ex_new)
      | Some (now', others) \<Rightarrow> (Answer 201 (ex_new\<lparr>key_root := Some 9\<rparr>, ''sk_live_ff''),
          set_root now' 9 (others (insert_key d ex_new))))"
  by (simp add: create_key_def ex_insert_on[OF assms] ex_new_id split: option.splits)

lemma ex_create:
  "create_key ex_driver (\<lambda>b. b) [255] 9 5 (at_once 6) ''u'' ex_db (Some ex_body) =
     (Answer 201 (ex_new\<lparr>key_root := Some 9\<rparr>, ''sk_live_ff''),
      insert_key ex_db (ex_new\<lparr>key_root := Some 9, key_updated_at := 6\<rparr>))"
proof -
  have "find_team ex_db 1 \<noteq> None" "may_insert_key ex_db ''u'' ex_new"
    by (simp_all add: find_team_def may_insert_key_def user_teams_def ex_db_def ex_new_def top_key_row_def)
  then show ?thesis
    by (simp add: ex_create_on set_root_inserted ex_new_id) (simp add: set_root_inserted ex_new_id key_exists_def ex_db_def ex_top_def)
qed

theorem minted_secret_verifies_witness:
  "verify_gateway_credential (\<lambda>b. b) (ex_verify 0) 1000
     (insert_key ex_db (ex_new\<lparr>key_root := Some 9, key_updated_at := 6\<rparr>)) ''sk_live_ff'' =
   Inr (Some \<lparr>scope_key = 9, scope_type = Top\<rparr>)"
proof -
  have "text_encode ex_secret \<noteq> text_encode (prefix_live @ bytes_hex [255])"
    unfolding ex_hex ex_secret_def prefix_live_def by code_simp
  then have "hash_key (\<lambda>b. b) ex_secret \<noteq> hash_key (\<lambda>b. b) (prefix_live @ bytes_hex [255])"
    unfolding hash_key_def using bytes_hex_inj by blast
  then have unique: "\<forall>j\<in>set (db_keys (insert_key ex_db ex_new)). key_hash j = key_hash (ex_new\<lparr>key_root := Some 9\<rparr>) \<longrightarrow> key_id j = 9"
    by (simp add: insert_key_def ex_db_def ex_top_def ex_new_def top_key_row_def generated_secret)
  have plain: "ex_new\<lparr>key_root := Some 9, key_root := None\<rparr> = ex_new" by (simp add: ex_new_def top_key_row_def)
  have new: "key_kind ex_new = Top" "key_parent ex_new = None" "key_expires_at ex_new = None" "top_ok ex_new"
    by (simp_all add: ex_new_def top_key_row_def top_ok_def)
  have ok: "keys_ok (insert_key ex_db ex_new)"
    by (rule keys_ok_insert_top[OF ex_keys_ok, of ex_new])
      (use new in \<open>simp_all add: insert_key_def ex_new_id key_exists_def ex_db_def ex_top_def\<close>)
  show ?thesis
    using minted_secret_verifies[OF ex_create, unfolded plain, OF refl ok _ unique, of 1000 "ex_verify 0"] new
    by (simp add: insert_key_def)
qed

text \<open>Property C20.  Revoking a key cuts off its whole subtree and nothing else: every row of the subtree is
  marked revoked, with the moment and the user, every other row and every other table is untouched,
  no credential of the subtree (nor of a row that a derive request in flight still adds under
  it) is accepted afterwards, and the count in the answer is the size of the subtree.\<close>

theorem revoke_cuts_off_subtree:
  assumes "revoke_key now user d id_text = (Answer st n, d')" "pg_uuid id_text = Some i" "keys_ok d"
  shows "n = length (filter (in_subtree i) (db_keys d)) \<and>
    d' = d\<lparr>db_keys := map (\<lambda>k. if in_subtree i k
       then k\<lparr>key_status := Revoked, key_revoked_at := Some now, key_revoked_by := Some user, key_updated_at := now\<rparr>
       else k) (db_keys d)\<rparr> \<and>
    (\<forall>k\<in>set (db_keys d). \<not> in_subtree i k \<longrightarrow> k \<in> set (db_keys d')) \<and>
    (\<forall>k\<in>set (db_keys d). in_subtree i k \<longrightarrow>
       verify_gateway_credential sha256 verify later d' presented \<noteq> Inr (Some \<lparr>scope_key = key_id k, scope_type = ty\<rparr>)) \<and>
    (\<forall>c. key_root c = Some i \<longrightarrow> \<not> key_exists d (key_id c) \<longrightarrow>
       verify_gateway_credential sha256 verify later (insert_key d' c) presented \<noteq>
         Inr (Some \<lparr>scope_key = key_id c, scope_type = ty\<rparr>))"
proof (intro conjI ballI allI impI)
  have d': "d' = update_keys (in_subtree i)
       (\<lambda>k. k\<lparr>key_status := Revoked, key_revoked_at := Some now,
              key_revoked_by := Some user, key_updated_at := now\<rparr>) d"
    and n: "n = length (filter (in_subtree i) (db_keys d))"
    and seen: "\<exists>k\<in>set (visible_keys d user). key_id k = i"
    using revoke_key_Answer[OF assms(1)] assms(2) by auto
  show "n = length (filter (in_subtree i) (db_keys d))" by (rule n)
  show "d' = d\<lparr>db_keys := map (\<lambda>k. if in_subtree i k
       then k\<lparr>key_status := Revoked, key_revoked_at := Some now, key_revoked_by := Some user, key_updated_at := now\<rparr>
       else k) (db_keys d)\<rparr>"
    by (simp add: d' update_keys_def)
  show "k \<in> set (db_keys d')" if "k \<in> set (db_keys d)" "\<not> in_subtree i k" for k
    using that by (auto simp: d' set_update_keys)
  show "verify_gateway_credential sha256 verify later d' presented \<noteq> Inr (Some \<lparr>scope_key = key_id k, scope_type = ty\<rparr>)"
    if "k \<in> set (db_keys d)" "in_subtree i k" for k
    using verify_not_dead[of sha256 verify later d' presented "\<lparr>scope_key = key_id k, scope_type = ty\<rparr>"]
      revoke_key_dead[OF assms that] by auto
  fix c :: key_row
  assume c: "key_root c = Some i" "\<not> key_exists d (key_id c)"
  obtain k where k: "k \<in> set (db_keys d)" "key_id k = i" using seen by (auto simp: visible_keys_iff)
  have "map key_id (db_keys d') = map key_id (db_keys d)"
    by (simp add: d' update_keys_def)
  then have keys: "key_id ` set (db_keys d') = key_id ` set (db_keys d)" by (metis set_map)
  have "find_key (insert_key d' c) i = find_key d' i"
    using k c(2) by (auto simp: find_key_def insert_key_def find_append key_exists_def split: option.splits)
  moreover obtain k1 where k1: "find_key d i = Some k1"
    using find_ex[of k "db_keys d" "\<lambda>k. key_id k = i"] k unfolding find_key_def by blast
  moreover have "in_subtree i k1" using find_key_SomeD[OF k1] by (simp add: in_subtree_def)
  ultimately have "\<exists>r. find_key (insert_key d' c) i = Some r \<and> key_status r = Revoked"
    by (simp add: d' find_key_update)
  moreover have "key_id c \<notin> key_id ` set (db_keys d')" using c(2) keys by (simp add: key_exists_def)
  then have "key_id j \<noteq> key_id c" if "j \<in> set (db_keys d')" for j using that by (metis imageI)
  ultimately have "dead (insert_key d' c) (key_id c)"
    using c(1) by (auto simp: dead_def insert_key_def root_of_def)
  then show "verify_gateway_credential sha256 verify later (insert_key d' c) presented \<noteq>
      Inr (Some \<lparr>scope_key = key_id c, scope_type = ty\<rparr>)"
    using verify_not_dead[of sha256 verify later "insert_key d' c" presented "\<lparr>scope_key = key_id c, scope_type = ty\<rparr>"]
    by auto
qed

lemma ex_revoke:
  "revoke_key 2000 ''u'' (insert_key ex_db ex_child) (uuid_text 7) =
     (Answer 200 2, update_keys (in_subtree 7)
       (\<lambda>k. k\<lparr>key_status := Revoked, key_revoked_at := Some 2000, key_revoked_by := Some ''u'', key_updated_at := 2000\<rparr>)
       (insert_key ex_db ex_child))"
  by (simp add: revoke_key_def pg_uuid_uuid_text visible_keys_def user_teams_def insert_key_def in_subtree_def
      ex_db_def ex_top_def ex_child_def)

theorem revoke_cuts_off_subtree_witness:
  "verify_gateway_credential (\<lambda>b. b) (ex_verify 0) 3000 (snd (revoke_key 2000 ''u'' (insert_key ex_db ex_child) (uuid_text 7)))
     ex_secret \<noteq> Inr (Some \<lparr>scope_key = 7, scope_type = Top\<rparr>) \<and>
   verify_gateway_credential (\<lambda>b. b) (ex_verify 0) 3000 (snd (revoke_key 2000 ''u'' (insert_key ex_db ex_child) (uuid_text 7)))
     ex_token \<noteq> Inr (Some \<lparr>scope_key = 8, scope_type = Derived\<rparr>)"
proof -
  have ok: "keys_ok (insert_key ex_db ex_child)"
    using derive_ok[OF ex_derive ex_keys_ok] by (simp add: key_exists_def ex_db_def ex_top_def)
  have mem: "ex_top \<in> set (db_keys (insert_key ex_db ex_child))" "in_subtree 7 ex_top" "key_id ex_top = 7"
    "ex_child \<in> set (db_keys (insert_key ex_db ex_child))" "in_subtree 7 ex_child" "key_id ex_child = 8"
    by (simp_all add: insert_key_def ex_db_def in_subtree_def) (simp_all add: ex_top_def ex_child_def)
  note * = revoke_cuts_off_subtree[OF ex_revoke pg_uuid_uuid_text ok, THEN conjunct2, THEN conjunct2, THEN conjunct2,
      THEN conjunct1, rule_format]
  show ?thesis using *[OF mem(1,2)] *[OF mem(4,5)] mem(3,6) by (simp add: ex_revoke)
qed

section \<open>Admission and grants\<close>

text \<open>Property C15.  A request is admitted only as the subject of a platform context that verified: either
  the bearer is that context, or the header carries it and userinfo vouched for the bearer as
  the same subject, in this request or in one that stamped its entry, behind its projection of the
  memberships, less than the resync window ago.\<close>

theorem admitted_only_with_context:
  assumes "cache_vouched V cache" "userinfo_vouches sv now' V"
    and "auth_middleware sv now now' pg_now ids stop d cache authorization authz = (r, d', cache')"
  shows "cache_vouched V cache' \<and> (\<forall>st a. r = Answer st a \<longrightarrow>
    by_access_key sv authorization a \<or> by_opaque_token sv V now now' authorization authz a)"
proof -
  have "by_access_key sv authorization a \<or> by_opaque_token sv V now now' authorization authz a"
    if "r = Answer st a" for st a
    using auth_middleware_admits[OF assms(1,2)] assms(3) that by blast
  then show ?thesis using auth_middleware_vouched[OF assms] by blast
qed

definition ex_ctx :: platform_context where
  "ex_ctx = \<lparr>ctx_sub = Some ''u'', ctx_email = None, ctx_name = None,
     ctx_orgs = [\<lparr>co_id = ''o'', co_kamuid_org_id = Some ''org'', co_slug = ''org'', co_name = ''Org'', co_role = ''owner'',
       co_grants = [''llm.keys.create'', ''llm.keys.revoke'']\<rparr>]\<rparr>"

definition ex_services :: auth_services where
  "ex_services = \<lparr>verify_context = (\<lambda>t. if t = ''ctx'' then Some ex_ctx else None),
     fetch_user_info = (\<lambda>t. Some (Some \<lparr>ui_sub = Some ''u'', ui_email = None, ui_name = None, ui_email_verified = None\<rparr>))\<rparr>"

definition ex_user :: auth_user where
  "ex_user = \<lparr>user_id = ''u'', user_email = [], user_name = ''u''\<rparr>"

lemma ex_bearer: "bearer_token (Some ''bearer tok'') = ''tok''"
  by (simp add: bearer_token_def Let_def starts_with_def to_lower_def lower_char_def js_trim_def trim_start_def js_space_def)

lemma ex_auth:
  "auth_middleware ex_services 0 0 0 (\<lambda>_. 5) None ex_db [] (Some ''bearer tok'') (Some ''ctx'') =
     (Answer 200 \<lparr>ad_user = ex_user, ad_context = None\<rparr>,
      reconcile_teams 0 ''u'' ex_db (with_ids (\<lambda>_. 5) (context_to_org_claims (ctx_orgs ex_ctx))),
      [(''tok'', \<lparr>ce_user = ex_user, ce_sub = ''u'', ce_exp = resync_ms\<rparr>)])"
  by (simp add: auth_middleware_def ex_bearer Let_def ex_services_def admit_fresh_def provision_user_def
      ex_user_def cache_set_def js_or_def try_reconcile_teams_def) (simp add: ex_ctx_def)

theorem admitted_only_with_context_witness:
  "cache_vouched (\<lambda>_ s _. s = ''u'') [(''tok'', \<lparr>ce_user = ex_user, ce_sub = ''u'', ce_exp = resync_ms\<rparr>)] \<and>
   by_opaque_token ex_services (\<lambda>_ s _. s = ''u'') 0 0 (Some ''bearer tok'') (Some ''ctx'') \<lparr>ad_user = ex_user, ad_context = None\<rparr>"
proof -
  have "cache_vouched (\<lambda>_ s _. s = ''u'') []" by (simp add: cache_vouched_def)
  moreover have "userinfo_vouches ex_services 0 (\<lambda>_ s _. s = ''u'')"
    by (simp add: userinfo_vouches_def ex_services_def)
  ultimately show ?thesis
    using admitted_only_with_context[OF _ _ ex_auth, of "\<lambda>_ s _. s = ''u''"]
    by (auto simp: by_access_key_def)
qed

text \<open>Property C39.  Minting through the route requires a grant that is signed for the very principal the
  request runs as, in the organisation of the new key's own team, and membership of that team.\<close>

theorem mint_requires_grant:
  assumes "cache_vouched V cache" "userinfo_vouches sv now' V"
    and "auth_middleware sv now now' pg_now ids stop d0 cache authorization authz = (Answer st a, d, cache')"
    and "post_keys sv dr sha256 random i t second a authz d body = (Answer st' (k, secret), d')"
  shows "\<exists>ctx token org. verify_context sv token = Some ctx \<and>
    (token = bearer_token authorization \<or> Some token = authz) \<and> ctx_sub ctx = Some (user_id (ad_user a)) \<and>
    team_org d (key_team k) = Some org \<and> grants ctx (Some org) ''llm.keys.create'' \<and>
    key_team k \<in> set (user_teams d (user_id (ad_user a)))"
proof -
  obtain org k0 s where org: "require_grant (verify_context sv) ''llm.keys.create'' (ad_context a) authz
       (team_org_id_from_create dr d body) = None"
    "team_org_id_from_create dr d body = Inr (Some org)" "team_org d (key_team k0) = Some org"
    "key_team k0 \<in> set (user_teams d (user_id (ad_user a)))"
    and ins: "create_insert dr sha256 random i t (user_id (ad_user a)) d body = (Answer 201 (k0, s), insert_key d k0)"
    and run: "create_key dr sha256 random i t second (user_id (ad_user a)) d body = (Answer st' (k, secret), d')"
    by (rule post_keys_insert[OF assms(4)]) auto
  have "key_team k = key_team k0"
    by (rule create_key_Answer[OF run]) (use ins in simp)
  then show ?thesis using org admitted_grant[OF assms(1-3) org(1)] by auto
qed

lemma ex_vouched: "cache_vouched (\<lambda>_ s _. s = ''u'') []" "userinfo_vouches ex_services 0 (\<lambda>_ s _. s = ''u'')"
  by (simp_all add: cache_vouched_def userinfo_vouches_def ex_services_def)

definition ex_db2 :: db where
  "ex_db2 = ex_db\<lparr>db_members := [\<lparr>member_team = 1, member_user = ''u'', member_role = Owner\<rparr>]\<rparr>"

lemma ex_reconciled:
  "reconcile_teams 0 ''u'' ex_db (with_ids (\<lambda>_. 5) (context_to_org_claims (ctx_orgs ex_ctx))) = ex_db2"
  by (simp add: ex_db2_def ex_ctx_def context_to_org_claims_def context_role_def js_or_def ex_db_def with_ids_def
      reconcile_teams_def upsert_org_def upsert_team_def upsert_member_def)

theorem mint_requires_grant_witness:
  "\<exists>ctx token. verify_context ex_services token = Some ctx \<and> grants ctx (Some ''org'') ''llm.keys.create''"
proof -
  let ?d = ex_db2
  let ?a = "\<lparr>ad_user = ex_user, ad_context = None\<rparr>"
  have c: "fst (create_key ex_driver (\<lambda>b. b) [255] 9 5 (at_once 6) ''u'' ?d (Some ex_body)) =
     Answer 201 (ex_new\<lparr>key_root := Some 9\<rparr>, ''sk_live_ff'')"
    by (simp add: ex_create_on find_team_def may_insert_key_def user_teams_def ex_db2_def ex_db_def ex_new_def top_key_row_def)
  have org: "team_org_id_from_create ex_driver ?d (Some ex_body) = Inr (Some ''org'')"
    by (simp add: team_org_id_from_create_def field_of_def js_get_def ex_body_def js_truthy_def ex_driver_def
        team_org_def find_team_def ex_db2_def ex_db_def Let_def)
  have "require_grant (verify_context ex_services) ''llm.keys.create'' None (Some ''ctx'') (Inr (Some ''org'') :: keys_error + string option) = None"
    by (simp add: require_grant_def grant_context_def ex_services_def ex_ctx_def Let_def)
  then have "fst (post_keys ex_services ex_driver (\<lambda>b. b) [255] 9 5 (at_once 6) ?a (Some ''ctx'') ?d (Some ex_body)) =
      Answer 201 (ex_new\<lparr>key_root := Some 9\<rparr>, ''sk_live_ff'')"
    using c org by (simp add: post_keys_def ex_user_def)
  then obtain d' where p: "post_keys ex_services ex_driver (\<lambda>b. b) [255] 9 5 (at_once 6) ?a (Some ''ctx'') ?d (Some ex_body) =
      (Answer 201 (ex_new\<lparr>key_root := Some 9\<rparr>, ''sk_live_ff''), d')"
    by (metis fst_conv surj_pair)
  have "team_org ?d (key_team (ex_new\<lparr>key_root := Some 9\<rparr>)) = Some ''org''"
    by (simp add: team_org_def find_team_def ex_db2_def ex_db_def ex_new_def top_key_row_def)
  then show ?thesis
    using mint_requires_grant[OF ex_vouched ex_auth[unfolded ex_reconciled] p] by auto
qed

text \<open>Revoking through the route requires the revoke grant, signed for the principal of the
  request, in the organisation of the key's team, and the key must be visible to that user.\<close>

theorem revoke_requires_grant:
  assumes "cache_vouched V cache" "userinfo_vouches sv now' V"
    and "auth_middleware sv now now' pg_now ids stop d0 cache authorization authz = (Answer st a, d, cache')"
    and "post_revoke sv t a authz d id_text = (Answer st' n, d')"
  shows "\<exists>ctx token i k. verify_context sv token = Some ctx \<and>
    (token = bearer_token authorization \<or> Some token = authz) \<and> ctx_sub ctx = Some (user_id (ad_user a)) \<and>
    pg_uuid id_text = Some i \<and> find_key d i = Some k \<and> grants ctx (team_org d (key_team k)) ''llm.keys.revoke'' \<and>
    i \<in> key_id ` set (visible_keys d (user_id (ad_user a)))"
proof -
  obtain i k where i: "pg_uuid id_text = Some i" "find_key d i = Some k"
    "require_grant (verify_context sv) ''llm.keys.revoke'' (ad_context a) authz
       (Inr (team_org d (key_team k)) :: keys_error + string option) = None"
    "\<exists>k\<in>set (visible_keys d (user_id (ad_user a))). key_id k = i"
    using post_revoke_Answer[OF assms(4)] by metis
  then show ?thesis using admitted_grant[OF assms(1-3) i(3)] by auto
qed

theorem revoke_requires_grant_witness:
  "\<exists>ctx. verify_context ex_services ''ctx'' = Some ctx \<and> grants ctx (Some ''org'') ''llm.keys.revoke''"
proof -
  let ?d = ex_db2
  let ?a = "\<lparr>ad_user = ex_user, ad_context = None\<rparr>"
  have k: "find_key ?d 7 = Some ex_top" "team_org ?d (key_team ex_top) = Some ''org''"
    by (simp_all add: ex_db2_def find_key_def team_org_def find_team_def ex_db_def ex_top_def)
  have "require_grant (verify_context ex_services) ''llm.keys.revoke'' None (Some ''ctx'')
      (team_org_id_from_key ?d (uuid_text 7)) = None"
    by (simp add: team_org_id_from_key_def pg_uuid_uuid_text k require_grant_def grant_context_def ex_services_def
        ex_ctx_def Let_def)
  then have "\<exists>n d'. post_revoke ex_services 0 ?a (Some ''ctx'') ?d (uuid_text 7) = (Answer 200 n, d')"
    by (simp add: post_revoke_def revoke_key_def pg_uuid_uuid_text ex_user_def visible_keys_def user_teams_def
        ex_db2_def ex_db_def ex_top_def in_subtree_def)
  then obtain n d' where p: "post_revoke ex_services 0 ?a (Some ''ctx'') ?d (uuid_text 7) = (Answer 200 n, d')"
    by blast
  show ?thesis
    using revoke_requires_grant[OF ex_vouched ex_auth[unfolded ex_reconciled] p] k
    by (auto simp: pg_uuid_uuid_text ex_services_def split: if_splits)
qed

text \<open>Property C31.  Reconciliation, run to its end, makes a user's roles exactly those of the context: in every
  organisation the user has the role the last entry for it claims, and none without an entry.
  The access-key path only adds: it keeps every role it does not overwrite.  Other users' roles
  stay in both.  The team list shows the user those organisations, keys or no keys.\<close>

theorem membership_follows_context:
  assumes "teams_ok d" "fresh_teams d ps"
  shows "role_in (reconcile_teams now user d ps) v org = (if v = user then claimed ps org else role_in d v org) \<and>
    role_in (ensure_teams now user d ps) v org =
      (if v = user \<and> claimed ps org \<noteq> None then claimed ps org else role_in d v org) \<and>
    kamuid_org_id ` set (get_teams collate rank (reconcile_teams now user d ps) user) = {g. claimed ps g \<noteq> None}"
  using reconcile_role_in[OF assms] ensure_teams_role_in[OF assms] listed_orgs[OF reconcile_teams_ok[OF assms]]
  by (auto split: option.splits)

theorem membership_follows_context_witness:
  "role_in (reconcile_teams 0 ''u'' ex_db []) ''u'' ''org'' = None \<and>
   role_in (ensure_teams 0 ''u'' ex_db []) ''u'' ''org'' = Some Member"
proof -
  have "teams_ok ex_db" "fresh_teams ex_db []" "role_in ex_db ''u'' ''org'' = Some Member"
    by (simp_all add: teams_ok_def fresh_teams_def ex_db_def role_in_def team_of_org_def role_of_def)
  then show ?thesis using membership_follows_context[of ex_db "[]" 0 "''u''" "''u''" "''org''"] by simp
qed

end
