(* ===== verification/Usage_Ledger.thy ===== *)
theory Usage_Ledger
  imports Price_Table Keys_Routes "HOL-Library.Multiset"
begin

text \<open>
  The page transaction of the usage poller (\<open>api/src/lib/usage-poller.ts\<close>): rows of a
  proxy's feed are priced, cast to the columns of \<open>llm.usage_log\<close>, inserted once per
  \<open>usage_id\<close> and charged to \<open>llm.key_spend\<close>, and keys that reached their budget are
  flipped.  \<open>ledger_ok\<close> says that the spend ledger is the sum of the stored rows.
\<close>

section \<open>The feed\<close>

record feed_row = norm_usage +
  fr_usage_id :: string
  fr_machine_id :: string
  fr_key_id :: string
  fr_parent :: "string option"
  fr_root :: "string option"
  fr_model :: string
  fr_provider_cost :: "rat option"
  fr_currency :: "string option"
  fr_created_at :: string

text \<open>Reading \<open>created_at\<close>: as a JavaScript date for pricing, as a \<open>timestamptz\<close> for the
  column.  Both are parameters; \<open>None\<close> is an invalid date and a failing cast.\<close>

record date_texts =
  js_time_of :: "string \<Rightarrow> js_time option"
  pg_time_of :: "string \<Rightarrow> pg_time option"

text \<open>No price row is in effect at an invalid date: the comparison with \<open>NaN\<close> is false.\<close>

definition price_feed_row ::
  "catalog \<Rightarrow> date_texts \<Rightarrow> 'p price_row_scheme price_map \<Rightarrow> feed_row \<Rightarrow> priced" where
  "price_feed_row models dates table r =
     (case js_time_of dates (fr_created_at r) of
        Some when \<Rightarrow> price_usage models table (fr_model r) when r
      | None \<Rightarrow> price_usage models (Map.empty :: 'p price_row_scheme price_map) (fr_model r) 0 r)"

section \<open>Casting to the columns\<close>

text \<open>\<open>NaN\<close> and infinities become \<open>null\<close> in JSON; a finite number is its shortest decimal,
  rounded to \<open>NUMERIC(12, 6)\<close>.  The outer option is a failing cast.\<close>

definition cost_column :: "js_num option \<Rightarrow> rat option option" where
  "cost_column c =
     (case c of
        Some (Fin x) \<Rightarrow> map_option Some (pg_numeric 12 6 (num_text x))
      | _ \<Rightarrow> Some None)"

definition int_column :: "rat \<Rightarrow> int option" where
  "int_column x = (if x = of_int \<lfloor>x\<rfloor> \<and> int4 \<lfloor>x\<rfloor> then Some \<lfloor>x\<rfloor> else None)"

definition uuid_column :: "string option \<Rightarrow> uuid option option" where
  "uuid_column t = (case t of None \<Rightarrow> Some None | Some s \<Rightarrow> map_option Some (pg_uuid s))"

definition usage_column :: "date_texts \<Rightarrow> priced \<Rightarrow> feed_row \<Rightarrow> usage_row option" where
  "usage_column dates p r =
     (case (pg_uuid (fr_usage_id r), pg_uuid (fr_key_id r), uuid_column (fr_parent r), uuid_column (fr_root r)) of
        (Some u, Some k, Some parent, Some rt) \<Rightarrow>
          (case (cost_column (cost_usd p), int_column (input_tokens r), int_column (output_tokens r),
                 int_column (cache_read_tokens r), int_column (cache_write_tokens r),
                 pg_time_of dates (fr_created_at r)) of
             (Some cost, Some i, Some ou, Some cr, Some cw, Some t) \<Rightarrow>
               Some \<lparr>ul_usage_id = Some u, ul_machine_id = Some (fr_machine_id r), ul_key_id = k,
                     ul_parent = parent, ul_root = rt, ul_model = Some (fr_model r), ul_cost = cost,
                     ul_price_id = price_id p, ul_tokens_in = i, ul_tokens_out = ou,
                     ul_cache_read = cr, ul_cache_write = cw,
                     ul_provider_cost = map_option num_text (fr_provider_cost r),
                     ul_provider_currency = fr_currency r, ul_created_at = t\<rparr>
           | _ \<Rightarrow> None)
      | _ \<Rightarrow> None)"

fun all_some :: "'a option list \<Rightarrow> 'a list option" where
  "all_some [] = Some []"
| "all_some (x # xs) =
     (case x of None \<Rightarrow> None | Some y \<Rightarrow> map_option ((#) y) (all_some xs))"

section \<open>Inserting once\<close>

text \<open>\<open>ON CONFLICT (usage_id) DO NOTHING\<close>: the rows really inserted, and the table.\<close>

fun insert_rows :: "usage_row list \<Rightarrow> usage_row list \<Rightarrow> usage_row list \<times> usage_row list" where
  "insert_rows tbl [] = ([], tbl)"
| "insert_rows tbl (u # us) =
     (if ul_usage_id u \<in> ul_usage_id ` set tbl then insert_rows tbl us
      else (let (ins, tbl') = insert_rows (tbl @ [u]) us in (u # ins, tbl')))"

section \<open>Charging\<close>

text \<open>The keys a row is charged to: its key and its root, once when they are the same.\<close>

definition charge_keys :: "usage_row \<Rightarrow> uuid list" where
  "charge_keys u = remdups (ul_key_id u # (case ul_root u of None \<Rightarrow> [] | Some r \<Rightarrow> [r]))"

definition billed :: "usage_row list \<Rightarrow> usage_row list" where
  "billed us = filter (\<lambda>u. 0 < cost_of u) us"

definition charges :: "usage_row list \<Rightarrow> uuid \<Rightarrow> usage_row list" where
  "charges us i = filter (\<lambda>u. i \<in> set (charge_keys u)) (billed us)"

definition charged_keys :: "db \<Rightarrow> usage_row list \<Rightarrow> uuid list" where
  "charged_keys d us = filter (key_exists d) (remdups (concat (map charge_keys (billed us))))"

definition spend_of :: "usage_row list \<Rightarrow> uuid \<Rightarrow> spend_row" where
  "spend_of us i = \<lparr>spent_usd = sum_list (map cost_of (charges us i)),
     request_count = int (length (charges us i))\<rparr>"

definition stored_spend :: "db \<Rightarrow> uuid \<Rightarrow> spend_row" where
  "stored_spend d i = or_else (db_spend d i) \<lparr>spent_usd = 0, request_count = 0\<rparr>"

definition add_rows :: "spend_row \<Rightarrow> spend_row \<Rightarrow> spend_row" where
  "add_rows a b = \<lparr>spent_usd = spent_usd a + spent_usd b, request_count = request_count a + request_count b\<rparr>"

text \<open>The columns: \<open>NUMERIC(12, 6)\<close> and \<open>INT\<close>; a value that does not fit fails the statement.\<close>

definition spend_fits :: "spend_row \<Rightarrow> bool" where
  "spend_fits s \<longleftrightarrow> \<bar>spent_usd s\<bar> < 10 ^ 6 \<and> int4 (request_count s)"

definition add_spend :: "db \<Rightarrow> usage_row list \<Rightarrow> db option" where
  "add_spend d us =
     (let ks = charged_keys d us in
      if list_all (\<lambda>i. spend_fits (spend_of us i) \<and> spend_fits (add_rows (stored_spend d i) (spend_of us i))) ks
      then Some (d\<lparr>db_spend := (\<lambda>i. if i \<in> set ks then Some (add_rows (stored_spend d i) (spend_of us i))
                                else db_spend d i)\<rparr>)
      else None)"

definition past_budget :: "db \<Rightarrow> key_row \<Rightarrow> bool" where
  "past_budget d k = (case key_budget k of None \<Rightarrow> False | Some b \<Rightarrow> b \<le> spent_usd (stored_spend d (key_id k)))"

definition flip_over_budget :: "pg_time \<Rightarrow> uuid list \<Rightarrow> db \<Rightarrow> db" where
  "flip_over_budget now charged d =
     update_keys (\<lambda>k. key_id k \<in> set charged \<and> key_status k = Active \<and> past_budget d k)
       (\<lambda>k. k\<lparr>key_status := Over_budget, key_updated_at := now\<rparr>) d"

definition charge_spend :: "pg_time \<Rightarrow> db \<Rightarrow> usage_row list \<Rightarrow> db option" where
  "charge_spend now d us =
     (case add_spend d us of
        None \<Rightarrow> None
      | Some d1 \<Rightarrow>
          if charged_keys d us = [] then Some d1
          else Some (flip_over_budget now (charged_keys d us) d1))"

section \<open>The transaction of a page\<close>

text \<open>\<open>None\<close>: some statement failed and everything is rolled back.\<close>

definition page_tx :: "pg_time \<Rightarrow> db \<Rightarrow> usage_row list \<Rightarrow> (nat \<times> db) option" where
  "page_tx now d rows =
     (let (ins, tbl) = insert_rows (db_usage d) (filter (\<lambda>u. key_exists d (ul_key_id u)) rows);
          d1 = d\<lparr>db_usage := tbl\<rparr>
      in if 0 < length ins then map_option (\<lambda>d2. (length ins, d2)) (charge_spend now d1 ins)
         else Some (0, d1))"

definition ingest_page ::
  "catalog \<Rightarrow> date_texts \<Rightarrow> stored_price price_map \<Rightarrow> pg_time \<Rightarrow> db \<Rightarrow> feed_row list \<Rightarrow> (nat \<times> db) option" where
  "ingest_page models dates table now d page =
     (case all_some (map (\<lambda>r. usage_column dates (price_feed_row models dates table r) r) page) of
        None \<Rightarrow> None
      | Some rows \<Rightarrow> page_tx now d rows)"

section \<open>Facts on inserting\<close>

lemma insert_rows_table: "snd (insert_rows tbl us) = tbl @ fst (insert_rows tbl us)"
  by (induction tbl us rule: insert_rows.induct) (auto simp: split_beta)

lemma insert_rows_subset: "set (fst (insert_rows tbl us)) \<subseteq> set us"
  by (induction tbl us rule: insert_rows.induct) (auto simp: split_beta)

lemma insert_rows_new:
  "ul_usage_id ` set (fst (insert_rows tbl us)) \<inter> ul_usage_id ` set tbl = {}"
  by (induction tbl us rule: insert_rows.induct) (auto simp: split_beta)

lemma insert_rows_ids:
  "ul_usage_id ` set (snd (insert_rows tbl us)) = ul_usage_id ` (set tbl \<union> set us)"
  by (induction tbl us rule: insert_rows.induct) (auto simp: split_beta)

lemma insert_rows_distinct:
  "distinct (map ul_usage_id (fst (insert_rows tbl us)))"
proof (induction tbl us rule: insert_rows.induct)
  case (2 tbl u us)
  have "ul_usage_id u \<notin> ul_usage_id ` set (fst (insert_rows (tbl @ [u]) us))"
    using insert_rows_new[of "tbl @ [u]" us] by auto
  then show ?case using 2 by (simp add: split_beta)
qed simp

text \<open>A row already there is not inserted again.\<close>

lemma insert_rows_known:
  "ul_usage_id ` set us \<subseteq> ul_usage_id ` set tbl \<Longrightarrow> insert_rows tbl us = ([], tbl)"
  by (induction us) auto

section \<open>The ledger invariant\<close>

definition usage_ids :: "db \<Rightarrow> uuid list" where
  "usage_ids d = List.map_filter ul_usage_id (db_usage d)"

definition ledger_ok :: "db \<Rightarrow> bool" where
  "ledger_ok d \<longleftrightarrow> distinct (usage_ids d) \<and>
     (\<forall>u\<in>set (db_usage d). key_exists d (ul_key_id u)) \<and>
     (\<forall>i. key_exists d i \<longrightarrow> stored_spend d i = spend_of (db_usage d) i) \<and>
     (\<forall>i. db_spend d i \<noteq> None \<longrightarrow> key_exists d i)"

lemma charges_append: "charges (us @ vs) i = charges us i @ charges vs i"
  by (simp add: charges_def billed_def)

lemma spend_of_append: "spend_of (us @ vs) i = add_rows (spend_of us i) (spend_of vs i)"
  by (simp add: spend_of_def add_rows_def charges_append)

lemma set_charged_keys:
  "set (charged_keys d us) = {i. key_exists d i \<and> charges us i \<noteq> []}"
  by (auto simp: charged_keys_def charges_def filter_empty_conv)

lemma spend_of_uncharged: "charges us i = [] \<Longrightarrow> spend_of us i = \<lparr>spent_usd = 0, request_count = 0\<rparr>"
  by (simp add: spend_of_def)

lemma add_rows_zero [simp]: "add_rows s \<lparr>spent_usd = 0, request_count = 0\<rparr> = s"
  by (simp add: add_rows_def)

lemma add_spend_stored:
  assumes "add_spend d us = Some d'" "key_exists d i"
  shows "stored_spend d' i = add_rows (stored_spend d i) (spend_of us i)"
  using assms
  by (auto simp: add_spend_def Let_def stored_spend_def set_charged_keys spend_of_uncharged split: if_splits)

lemma add_spend_frame:
  assumes "add_spend d us = Some d'"
  shows "db_keys d' = db_keys d" "db_usage d' = db_usage d" "key_exists d' = key_exists d"
    "db_members d' = db_members d" "db_teams d' = db_teams d"
    "db_spend d' i \<noteq> None \<Longrightarrow> db_spend d i \<noteq> None \<or> key_exists d i"
  using assms
  by (auto simp: add_spend_def Let_def key_exists_def fun_eq_iff set_charged_keys split: if_splits)

lemma flip_frame [frame_simps]:
  "db_usage (flip_over_budget now ks d) = db_usage d" "db_spend (flip_over_budget now ks d) = db_spend d"
  "map key_id (db_keys (flip_over_budget now ks d)) = map key_id (db_keys d)"
  "key_exists (flip_over_budget now ks d) = key_exists d" "stored_spend (flip_over_budget now ks d) = stored_spend d"
proof -
  show "db_usage (flip_over_budget now ks d) = db_usage d" and
    spend: "db_spend (flip_over_budget now ks d) = db_spend d"
    by (simp_all add: flip_over_budget_def frame_simps)
  show ids: "map key_id (db_keys (flip_over_budget now ks d)) = map key_id (db_keys d)"
    by (simp add: flip_over_budget_def update_keys_def)
  show "key_exists (flip_over_budget now ks d) = key_exists d"
    using arg_cong[OF ids, of set] by (auto simp: key_exists_def fun_eq_iff simp flip: set_map)
  show "stored_spend (flip_over_budget now ks d) = stored_spend d"
    by (simp add: stored_spend_def fun_eq_iff spend)
qed

text \<open>The result of charging: the spend of every existing key grows by what the rows charge
  to it; only statuses (and their stamp) change among the keys.\<close>

lemma charge_spend_Some:
  assumes "charge_spend now d us = Some d'"
  shows "key_exists d i \<Longrightarrow> stored_spend d' i = add_rows (stored_spend d i) (spend_of us i)"
    and "db_usage d' = db_usage d" "key_exists d' = key_exists d"
    and "db_spend d' i \<noteq> None \<Longrightarrow> db_spend d i \<noteq> None \<or> key_exists d i"
    and "\<exists>d1. add_spend d us = Some d1 \<and> d' = flip_over_budget now (charged_keys d us) d1"
proof -
  obtain d1 where d1: "add_spend d us = Some d1"
    "d' = (if charged_keys d us = [] then d1 else flip_over_budget now (charged_keys d us) d1)"
    using assms by (auto simp: charge_spend_def split: option.splits if_splits)
  have "flip_over_budget now [] d1 = d1" by (simp add: flip_over_budget_def update_keys_def)
  then have d': "d' = flip_over_budget now (charged_keys d us) d1" using d1(2) by auto
  then show "\<exists>d1. add_spend d us = Some d1 \<and> d' = flip_over_budget now (charged_keys d us) d1"
    using d1(1) by blast
  show "stored_spend d' i = add_rows (stored_spend d i) (spend_of us i)" if "key_exists d i"
    using add_spend_stored[OF d1(1) that] by (simp add: d' frame_simps)
  show "db_usage d' = db_usage d" "key_exists d' = key_exists d"
    using add_spend_frame(2,3)[OF d1(1)] by (simp_all add: d' frame_simps)
  show "db_spend d' i \<noteq> None \<Longrightarrow> db_spend d i \<noteq> None \<or> key_exists d i"
    using add_spend_frame(6)[OF d1(1)] by (simp add: d' frame_simps)
qed

lemma page_tx_Some:
  assumes "page_tx now d rows = Some (n, d')"
  defines "ins \<equiv> fst (insert_rows (db_usage d) (filter (\<lambda>u. key_exists d (ul_key_id u)) rows))"
  shows "n = length ins" "db_usage d' = db_usage d @ ins" "key_exists d' = key_exists d"
    "key_exists d i \<Longrightarrow> stored_spend d' i = add_rows (stored_spend d i) (spend_of ins i)"
    "db_spend d' i \<noteq> None \<Longrightarrow> db_spend d i \<noteq> None \<or> key_exists d i"
    "\<exists>d1. add_spend (d\<lparr>db_usage := db_usage d @ ins\<rparr>) ins = Some d1 \<and>
       d' = flip_over_budget now (charged_keys d ins) d1 \<or> ins = [] \<and> d' = d"
proof -
  let ?d = "d\<lparr>db_usage := db_usage d @ ins\<rparr>"
  have tx: "(if 0 < length ins then map_option (\<lambda>d2. (length ins, d2)) (charge_spend now ?d ins) else Some (0, ?d)) = Some (n, d')"
    using assms(1) by (simp only: page_tx_def split_beta Let_def insert_rows_table ins_def)
  have ex1: "key_exists ?d = key_exists d" by (intro ext) (simp add: key_exists_def)
  have ex: "key_exists ?d = key_exists d" "stored_spend ?d = stored_spend d" "charged_keys ?d ins = charged_keys d ins"
    by (simp_all add: stored_spend_def charged_keys_def fun_eq_iff ex1)
  show n: "n = length ins" using tx by (auto split: if_splits)
  have zero: "spend_of [] i = \<lparr>spent_usd = 0, request_count = 0\<rparr>" for i
    by (simp add: spend_of_def charges_def billed_def)
  consider (none) "ins = []" "d' = d" | (some) "charge_spend now ?d ins = Some d'"
    using tx by (auto split: if_splits)
  then have "db_usage d' = db_usage d @ ins \<and> key_exists d' = key_exists d \<and>
    (key_exists d i \<longrightarrow> stored_spend d' i = add_rows (stored_spend d i) (spend_of ins i)) \<and>
    (db_spend d' i \<noteq> None \<longrightarrow> db_spend d i \<noteq> None \<or> key_exists d i) \<and>
    (\<exists>d1. add_spend ?d ins = Some d1 \<and> d' = flip_over_budget now (charged_keys d ins) d1 \<or> ins = [] \<and> d' = d)"
  proof cases
    case none
    then show ?thesis by (simp add: zero)
  next
    case some
    note charged = charge_spend_Some[OF some]
    have "stored_spend d' i = add_rows (stored_spend d i) (spend_of ins i)" if "key_exists d i"
      using charged(1)[of i] that by (simp add: ex)
    moreover have "db_spend d i \<noteq> None \<or> key_exists d i" if "db_spend d' i \<noteq> None"
      using charged(4)[OF that] by (simp add: ex)
    moreover have "db_usage d' = db_usage d @ ins" "key_exists d' = key_exists d"
      using charged(2,3) by (simp_all add: ex)
    ultimately show ?thesis using charged(5) unfolding ex by blast
  qed
  then show "db_usage d' = db_usage d @ ins" "key_exists d' = key_exists d"
    "key_exists d i \<Longrightarrow> stored_spend d' i = add_rows (stored_spend d i) (spend_of ins i)"
    "db_spend d' i \<noteq> None \<Longrightarrow> db_spend d i \<noteq> None \<or> key_exists d i"
    "\<exists>d1. add_spend ?d ins = Some d1 \<and> d' = flip_over_budget now (charged_keys d ins) d1 \<or> ins = [] \<and> d' = d"
    by blast+
qed

lemma set_map_filter: "set (List.map_filter f xs) = {y. Some y \<in> f ` set xs}"
  by (induction xs) (auto simp: List.map_filter_def split: option.splits)

lemma distinct_map_filter: "distinct (map f xs) \<Longrightarrow> distinct (List.map_filter f xs)"
  by (induction xs) (auto simp: List.map_filter_simps set_map_filter split: option.splits)

lemma map_filter_distinct_append:
  assumes "distinct (List.map_filter f xs)" "distinct (map f ys)" "f ` set ys \<inter> f ` set xs = {}"
  shows "distinct (List.map_filter f (xs @ ys))"
proof -
  have "set (List.map_filter f xs) \<inter> set (List.map_filter f ys) = {}"
    using assms(3) unfolding set_map_filter by blast
  then show ?thesis using assms(1) distinct_map_filter[OF assms(2)] by (simp add: List.map_filter_def)
qed

lemma page_tx_ledger [wf_intros]:
  assumes ok: "ledger_ok d" and tx: "page_tx now d rows = Some (n, d')"
  shows "ledger_ok d'"
proof -
  let ?rows = "filter (\<lambda>u. key_exists d (ul_key_id u)) rows"
  let ?ins = "fst (insert_rows (db_usage d) ?rows)"
  note * = page_tx_Some[OF tx]
  note ledger = ok[unfolded ledger_ok_def usage_ids_def]
  have ids: "distinct (usage_ids d')"
    unfolding usage_ids_def *(2)
    using map_filter_distinct_append[OF conjunct1[OF ledger] insert_rows_distinct insert_rows_new] .
  have "key_exists d (ul_key_id u)" if "u \<in> set ?ins" for u
    using that insert_rows_subset[of "db_usage d" ?rows] by auto
  then have keys: "\<forall>u\<in>set (db_usage d'). key_exists d' (ul_key_id u)"
    unfolding *(2,3) set_append using ledger by blast
  have "stored_spend d' i = spend_of (db_usage d') i" if "key_exists d i" for i
    unfolding *(2) *(4)[OF that] spend_of_append using ledger that by simp
  moreover have "key_exists d i" if "db_spend d' i \<noteq> None" for i
    using *(5)[OF that] ledger by blast
  ultimately show ?thesis using ids keys unfolding ledger_ok_def *(3) by blast
qed

section \<open>Reading the same rows again\<close>

lemma page_tx_known:
  assumes "ul_usage_id ` set (filter (\<lambda>u. key_exists d (ul_key_id u)) rows) \<subseteq> ul_usage_id ` set (db_usage d)"
  shows "page_tx now d rows = Some (0, d)"
  by (simp add: page_tx_def insert_rows_known[OF assms])

text \<open>Rows that are in already do not matter to a page.\<close>

lemma insert_rows_only_new:
  "insert_rows tbl us = insert_rows tbl (filter (\<lambda>u. ul_usage_id u \<notin> A) us)"
  if "A \<subseteq> ul_usage_id ` set tbl"
  using that
proof (induction tbl us rule: insert_rows.induct)
  case (2 tbl u us)
  have A: "A \<subseteq> ul_usage_id ` set (tbl @ [u])" using 2(3) by auto
  show ?case
  proof (cases "ul_usage_id u \<in> ul_usage_id ` set tbl")
    case True
    then show ?thesis using 2(1)[OF True 2(3)] by simp
  next
    case False
    then have "ul_usage_id u \<notin> A" using 2(3) by blast
    then show ?thesis using False 2(2)[OF False A] by simp
  qed
qed simp

lemma page_tx_only_new:
  "page_tx now d rows = page_tx now d (filter (\<lambda>u. ul_usage_id u \<notin> ul_usage_id ` set (db_usage d)) rows)"
  using insert_rows_only_new[OF subset_refl, of "db_usage d" "filter (\<lambda>u. key_exists d (ul_key_id u)) rows"]
  by (simp add: page_tx_def conj_commute)

lemma page_tx_again:
  assumes tx: "page_tx now d rows = Some (n, d')"
    and same: "map (\<lambda>u. (ul_usage_id u, ul_key_id u)) rows' = map (\<lambda>u. (ul_usage_id u, ul_key_id u)) rows"
  shows "page_tx now' d' rows' = Some (0, d')"
proof (rule page_tx_known)
  let ?rows = "filter (\<lambda>u. key_exists d (ul_key_id u)) rows"
  have "(\<lambda>u. (ul_usage_id u, ul_key_id u)) ` set rows' = (\<lambda>u. (ul_usage_id u, ul_key_id u)) ` set rows"
    using arg_cong[OF same, of set] by simp
  then have "ul_usage_id ` set (filter (\<lambda>u. key_exists d (ul_key_id u)) rows') =
      ul_usage_id ` set ?rows"
    by (force simp: image_iff set_eq_iff)
  also have "\<dots> \<subseteq> ul_usage_id ` set (db_usage d')"
    using insert_rows_ids[of "db_usage d" ?rows]
    by (simp add: page_tx_Some(2)[OF tx] insert_rows_table image_Un)
  finally show "ul_usage_id ` set (filter (\<lambda>u. key_exists d' (ul_key_id u)) rows') \<subseteq>
      ul_usage_id ` set (db_usage d')"
    unfolding page_tx_Some(3)[OF tx] .
qed

lemma all_some_iff: "all_some xs = Some ys \<longleftrightarrow> xs = map Some ys"
proof (induction xs arbitrary: ys)
  case (Cons x xs)
  show ?case by (cases x; cases ys) (auto simp: Cons.IH)
qed auto

lemma usage_column_ids:
  assumes "usage_column dates p r = Some u"
  shows "ul_usage_id u = pg_uuid (fr_usage_id r)" "Some (ul_key_id u) = pg_uuid (fr_key_id r)"
    "ul_machine_id u = Some (fr_machine_id r)" "ul_usage_id u \<noteq> None"
  using assms by (auto simp: usage_column_def split: option.splits)

definition page_rows ::
  "catalog \<Rightarrow> date_texts \<Rightarrow> stored_price price_map \<Rightarrow> feed_row list \<Rightarrow> usage_row list option" where
  "page_rows models dates table page =
     all_some (map (\<lambda>r. usage_column dates (price_feed_row models dates table r) r) page)"

lemma ingest_page_rows:
  "ingest_page models dates table now d page =
     (case page_rows models dates table page of None \<Rightarrow> None | Some rows \<Rightarrow> page_tx now d rows)"
  by (simp add: ingest_page_def page_rows_def)

lemma page_rows_ids:
  assumes "page_rows models dates table page = Some rows"
  shows "map (\<lambda>u. (ul_usage_id u, Some (ul_key_id u))) rows =
     map (\<lambda>r. (pg_uuid (fr_usage_id r), pg_uuid (fr_key_id r))) page"
proof -
  let ?f = "\<lambda>r. usage_column dates (price_feed_row models dates table r) r"
  have rows: "map ?f page = map Some rows" using assms by (simp add: page_rows_def all_some_iff)
  then have len: "length rows = length page" by (metis length_map)
  have "?f (page ! i) = Some (rows ! i)" if "i < length page" for i
    using arg_cong[OF rows, of "\<lambda>xs. xs ! i"] that len by simp
  then show ?thesis
    using usage_column_ids(1,2) by (intro nth_equalityI) (fastforce simp: len)+
qed

text \<open>Whatever table and clock price the page the second time, its rows are in already.\<close>

lemma ingest_page_again:
  assumes "ingest_page models dates table now d page = Some (n, d')"
    and "ingest_page models dates' table' now' d' page = Some (n', d'')"
  shows "n' = 0" "d'' = d'"
proof -
  obtain rows rows' where rows: "page_rows models dates table page = Some rows" "page_tx now d rows = Some (n, d')"
    "page_rows models dates' table' page = Some rows'" "page_tx now' d' rows' = Some (n', d'')"
    using assms by (auto simp: ingest_page_rows split: option.splits)
  have "map (\<lambda>u. (ul_usage_id u, Some (ul_key_id u))) rows' = map (\<lambda>u. (ul_usage_id u, Some (ul_key_id u))) rows"
    using page_rows_ids[OF rows(1)] page_rows_ids[OF rows(3)] by simp
  then have "map (\<lambda>(x, y). (x, the y)) (map (\<lambda>u. (ul_usage_id u, Some (ul_key_id u))) rows') =
      map (\<lambda>(x, y). (x, the y)) (map (\<lambda>u. (ul_usage_id u, Some (ul_key_id u))) rows)"
    by (rule arg_cong)
  then have "page_tx now' d' rows' = Some (0, d')"
    by (intro page_tx_again[OF rows(2)]) (simp add: comp_def)
  then show "n' = 0" "d'' = d'" using rows(4) by simp_all
qed

section \<open>Budgets after a page\<close>

text \<open>What a page does to a key: it is flipped when the page charged it, it was active and
  its spend is now at or past its budget; nothing else in any key changes.\<close>

lemma page_tx_keys:
  assumes "page_tx now d rows = Some (n, d')"
  defines "ins \<equiv> fst (insert_rows (db_usage d) (filter (\<lambda>u. key_exists d (ul_key_id u)) rows))"
  shows "db_keys d' = map (\<lambda>k. if charges ins (key_id k) \<noteq> [] \<and> key_status k = Active \<and> past_budget d' k
       then k\<lparr>key_status := Over_budget, key_updated_at := now\<rparr> else k) (db_keys d)"
proof -
  from page_tx_Some(6)[OF assms(1), folded ins_def] obtain d1 where
    "add_spend (d\<lparr>db_usage := db_usage d @ ins\<rparr>) ins = Some d1 \<and>
       d' = flip_over_budget now (charged_keys d ins) d1 \<or> ins = [] \<and> d' = d" by blast
  then show ?thesis
  proof (elim disjE conjE)
    assume add: "add_spend (d\<lparr>db_usage := db_usage d @ ins\<rparr>) ins = Some d1"
      and d': "d' = flip_over_budget now (charged_keys d ins) d1"
    have keys: "db_keys d1 = db_keys d" using add_spend_frame(1)[OF add] by simp
    have "past_budget d' = past_budget d1" unfolding past_budget_def d' flip_frame ..
    moreover have "key_id k \<in> set (charged_keys d ins) \<longleftrightarrow> charges ins (key_id k) \<noteq> []"
      if "k \<in> set (db_keys d)" for k
      using that by (auto simp: set_charged_keys key_exists_def)
    ultimately show ?thesis unfolding d' by (auto simp: flip_over_budget_def update_keys_def keys)
  next
    assume "ins = []" "d' = d"
    then show ?thesis by (simp add: charges_def billed_def)
  qed
qed

lemma page_tx_keys_ok [wf_intros]:
  assumes "page_tx now d rows = Some (n, d')" "keys_ok d"
  shows "keys_ok d'"
  by (rule keys_ok_map[OF assms(2) _ page_tx_keys[OF assms(1)]]) (simp add: keeps_lineage_def)

lemma page_tx_teams:
  assumes "page_tx now d rows = Some (n, d')"
  shows "db_teams d' = db_teams d" "db_members d' = db_members d"
proof -
  from page_tx_Some(6)[OF assms] obtain d1 ins where
    "add_spend (d\<lparr>db_usage := db_usage d @ ins\<rparr>) ins = Some d1 \<and>
       d' = flip_over_budget now (charged_keys d ins) d1 \<or> d' = d" by blast
  then have "db_teams d' = db_teams d \<and> db_members d' = db_members d"
  proof (elim disjE conjE)
    assume add: "add_spend (d\<lparr>db_usage := db_usage d @ ins\<rparr>) ins = Some d1"
      and d': "d' = flip_over_budget now (charged_keys d ins) d1"
    show ?thesis using add_spend_frame(4,5)[OF add] by (simp add: d' flip_over_budget_def frame_simps)
  qed simp
  then show "db_teams d' = db_teams d" "db_members d' = db_members d" by simp_all
qed

section \<open>The ledger as a function of what was recorded\<close>

text \<open>The specification: a bag of rows, recorded at most once per \<open>usage_id\<close>; what a key has
  spent is read off the bag.\<close>

definition record_row :: "usage_row \<Rightarrow> usage_row multiset \<Rightarrow> usage_row multiset" where
  "record_row u R = (if ul_usage_id u \<in> ul_usage_id ` set_mset R then R else add_mset u R)"

definition ledger_spend :: "usage_row multiset \<Rightarrow> uuid \<Rightarrow> rat" where
  "ledger_spend R i = sum_mset (image_mset cost_of (filter_mset (\<lambda>u. 0 < cost_of u \<and> i \<in> set (charge_keys u)) R))"

lemma spend_of_ledger: "spent_usd (spend_of us i) = ledger_spend (mset us) i"
  unfolding spend_of_def charges_def billed_def ledger_spend_def
  by (simp add: conj_commute flip: mset_filter mset_map sum_mset_sum_list)

lemma insert_rows_record: "mset (snd (insert_rows tbl us)) = fold record_row us (mset tbl)"
  by (induction tbl us rule: insert_rows.induct) (simp_all add: record_row_def split_beta Let_def)

lemma page_tx_refines:
  assumes tx: "page_tx now d rows = Some (n, d')" and ok: "ledger_ok d"
  shows "mset (db_usage d') = fold record_row (filter (\<lambda>u. key_exists d (ul_key_id u)) rows) (mset (db_usage d))"
    and "key_exists d i \<Longrightarrow> spent_usd (stored_spend d' i) = ledger_spend (mset (db_usage d')) i"
proof -
  let ?rows = "filter (\<lambda>u. key_exists d (ul_key_id u)) rows"
  have "db_usage d' = snd (insert_rows (db_usage d) ?rows)"
    using page_tx_Some(2)[OF tx] insert_rows_table by simp
  then show "mset (db_usage d') = fold record_row ?rows (mset (db_usage d))"
    by (simp only: insert_rows_record)
  show "spent_usd (stored_spend d' i) = ledger_spend (mset (db_usage d')) i" if "key_exists d i"
  proof -
    have "stored_spend d' i = spend_of (db_usage d') i"
      using page_tx_ledger[OF ok tx] that unfolding ledger_ok_def page_tx_Some(3)[OF tx] by blast
    then show ?thesis by (simp only: spend_of_ledger)
  qed
qed

end
