(* ===== verification/Uuid_Order.thy ===== *)
theory Uuid_Order
  imports Js_Value "HOL-Library.List_Lexorder" "HOL-Library.Char_ord"
begin

text \<open>
  The order of text, and why the text of a \<open>uuid\<close> sorts the way the value does: the
  proxies page their SQLite ledger by the text, Postgres compares the value.
\<close>

section \<open>Texts of equal length\<close>

lemma less_append:
  fixes a b x y :: "'a::linorder list"
  assumes "length a = length b"
  shows "a @ x < b @ y \<longleftrightarrow> a < b \<or> a = b \<and> x < y"
  using assms by (induction a b rule: list_induct2) auto

lemma less_append_same:
  fixes x y :: "'a::linorder list"
  shows "a @ x < a @ y \<longleftrightarrow> x < y"
  by (simp add: less_append)

lemma hex_char_less: "m < 16 \<Longrightarrow> n < 16 \<Longrightarrow> hex_char m < hex_char n \<longleftrightarrow> m < n"
  using less_16_cases[of m] less_16_cases[of n] by (auto simp: hex_char_def less_char_def)

lemma hex_digits_eq: "hex_digits n a = hex_digits n b \<longleftrightarrow> a mod 16 ^ n = b mod 16 ^ n"
proof
  assume "hex_digits n a = hex_digits n b"
  then show "a mod 16 ^ n = b mod 16 ^ n" using hex_value_hex_digits by metis
next
  have "hex_digits n v = hex_digits n (v mod 16 ^ n)" for v
  proof (induction n arbitrary: v)
    case (Suc n)
    have "v mod 16 ^ Suc n div 16 = v div 16 mod 16 ^ n"
      using mod_mult2_eq[of v 16 "16 ^ n"] by simp
    then show ?case using Suc[of "v div 16"] by (simp add: mod_mod_cancel)
  qed simp
  then show "a mod 16 ^ n = b mod 16 ^ n \<Longrightarrow> hex_digits n a = hex_digits n b" by metis
qed

lemma hex_digits_less: "hex_digits n a < hex_digits n b \<longleftrightarrow> a mod 16 ^ n < b mod 16 ^ n"
proof (induction n arbitrary: a b)
  case (Suc n)
  have split: "v mod 16 ^ Suc n = 16 * (v div 16 mod 16 ^ n) + v mod 16" for v :: nat
    using mod_mult2_eq[of v 16 "16 ^ n"] by simp
  have "hex_digits (Suc n) a < hex_digits (Suc n) b \<longleftrightarrow>
      a div 16 mod 16 ^ n < b div 16 mod 16 ^ n \<or>
      a div 16 mod 16 ^ n = b div 16 mod 16 ^ n \<and> a mod 16 < b mod 16"
    by (simp add: less_append Suc hex_digits_eq hex_char_less)
  moreover have "a mod 16 < 16" "b mod 16 < 16" by simp_all
  ultimately show ?case unfolding split by linarith
qed simp

section \<open>The text of a uuid\<close>

lemma hex_digits_32:
  "hex_digits 32 v = hex_digits 8 (v div 16 ^ 24) @ hex_digits 4 (v div 16 ^ 20) @
     hex_digits 4 (v div 16 ^ 16) @ hex_digits 4 (v div 16 ^ 12) @ hex_digits 12 v"
proof -
  have "hex_digits 32 v = hex_digits 20 (v div 16 ^ 12) @ hex_digits 12 v"
    using hex_digits_append[of 20 12 v] by simp
  also have "hex_digits 20 (v div 16 ^ 12) = hex_digits 16 (v div 16 ^ 16) @ hex_digits 4 (v div 16 ^ 12)"
    using hex_digits_append[of 16 4 "v div 16 ^ 12"] by (simp add: div_mult2_eq[symmetric])
  also have "hex_digits 16 (v div 16 ^ 16) = hex_digits 12 (v div 16 ^ 20) @ hex_digits 4 (v div 16 ^ 16)"
    using hex_digits_append[of 12 4 "v div 16 ^ 16"] by (simp add: div_mult2_eq[symmetric])
  also have "hex_digits 12 (v div 16 ^ 20) = hex_digits 8 (v div 16 ^ 24) @ hex_digits 4 (v div 16 ^ 20)"
    using hex_digits_append[of 8 4 "v div 16 ^ 20"] by (simp add: div_mult2_eq[symmetric])
  finally show ?thesis by simp
qed

lemma uuid_text_less: "uuid_text u < uuid_text v \<longleftrightarrow> u < v"
proof -
  have "uuid_text u < uuid_text v \<longleftrightarrow> hex_digits 32 (unat u) < hex_digits 32 (unat v)"
    unfolding uuid_text_digits hex_digits_32 by (simp add: less_append)
  also have "\<dots> \<longleftrightarrow> unat u < unat v"
    using unat_uuid_less[of u] unat_uuid_less[of v] by (simp add: hex_digits_less)
  finally show ?thesis by (simp add: word_less_nat_alt)
qed

lemma uuid_text_inject: "uuid_text u = uuid_text v \<longleftrightarrow> u = v"
  using pg_uuid_uuid_text by (metis option.inject)

lemma zero_text_less: "''0'' < uuid_text u"
proof -
  obtain c cs where h: "hex_digits 8 (unat u div 16 ^ 24) = c # cs" "length cs = 7"
    by (cases "hex_digits 8 (unat u div 16 ^ 24)") (auto dest: arg_cong[of _ _ length])
  obtain d where d: "d < 16" "c = hex_char d" using set_hex_digits[of c 8] h(1) by (metis list.set_intros(1))
  have "CHR ''0'' = hex_char 0" by (simp add: hex_char_def)
  then have "CHR ''0'' \<le> c" using hex_char_less[of d 0] d by (simp add: not_less[symmetric])
  then show ?thesis unfolding uuid_text_digits h using h(2) by (cases cs) auto
qed

section \<open>The parts of a time-ordered id\<close>

text \<open>The upper 48 bits of a version 7 \<open>uuid\<close> are milliseconds, the 12 bits after the version
  digit a counter.\<close>

definition uuid_ms :: "uuid \<Rightarrow> nat" where
  "uuid_ms u = unat u div 2 ^ 80"

definition uuid_counter :: "uuid \<Rightarrow> nat" where
  "uuid_counter u = unat u div 2 ^ 64 mod 2 ^ 12"

lemma uuid_ms_less: "uuid_ms u < 2 ^ 48"
  using unat_uuid_less[of u] by (simp add: uuid_ms_def less_mult_imp_div_less)

text \<open>The first twelve digits, with the first hyphen gone or all of them gone.\<close>

lemma uuid_text_no_dash: "remove_all CHR ''-'' (uuid_text u) = hex_digits 32 (unat u)"
proof -
  have dash: "remove_all CHR ''-'' ''-'' = []" by (simp add: remove_all_def)
  show ?thesis
    unfolding uuid_text_digits hex_digits_32 remove_all_append dash remove_all_hex_digits by simp
qed

lemma hex_prefix_12: "hex_digits 8 (v div 16 ^ 24) @ hex_digits 4 (v div 16 ^ 20) = hex_digits 12 (v div 2 ^ 80)"
  using hex_digits_append[of 8 4 "v div 16 ^ 20"] by (simp add: div_mult2_eq[symmetric])

lemma uuid_text_slice: "slice 0 12 (remove_first CHR ''-'' (uuid_text u)) = hex_digits 12 (uuid_ms u)"
proof -
  have "remove_first CHR ''-'' (uuid_text u) =
      (hex_digits 8 (unat u div 16 ^ 24) @ hex_digits 4 (unat u div 16 ^ 20)) @ ''-'' @
      hex_digits 4 (unat u div 16 ^ 16) @ ''-'' @ hex_digits 4 (unat u div 16 ^ 12) @ ''-'' @ hex_digits 12 (unat u)"
    by (simp add: remove_first_def uuid_text_digits remove1_append)
  then show ?thesis unfolding hex_prefix_12 by (simp add: slice_def uuid_ms_def)
qed

lemma parse_uuid_ms: "parse_int16 (hex_digits 12 (uuid_ms u)) = Fin (of_nat (uuid_ms u))"
  using parse_int16_hex_digits[of 12 "uuid_ms u"] uuid_ms_less[of u] by simp

text \<open>Ids of version 7 sort after their bare timestamp.\<close>

definition version7 :: "uuid \<Rightarrow> bool" where
  "version7 u \<longleftrightarrow> unat u div 2 ^ 76 mod 16 = 7"

lemma version7_less: "version7 u \<Longrightarrow> uuid_ms u * 2 ^ 80 < unat u"
proof -
  assume "version7 u"
  then have "0 < unat u div 2 ^ 76 mod 16" by (simp add: version7_def)
  then have "0 < unat u mod 2 ^ 80"
    using mod_mult2_eq[of "unat u" "2 ^ 76" 16] by simp
  then show ?thesis using div_mult_mod_eq[of "unat u" "2 ^ 80"] unfolding uuid_ms_def by linarith
qed

end
