(* ===== verification/Usage_Poller.thy ===== *)
theory Usage_Poller
  imports Usage_Ledger Uuid_Order "HOL-Library.Multiset"
begin

text \<open>
  The poll loop of \<open>api/src/lib/usage-poller.ts\<close>: which machines to poll, where to start
  (the newest stored row less a 10 s overlap), the page loop, and a pass over all machines.
  The locale \<open>usage_feed\<close> is what the loop relies on in a proxy: it serves, in order of
  \<open>usage_id\<close>, the rows of a log that only grows.  The query of \<open>proxy/usage.go\<close> provides it.
\<close>

section \<open>The machines\<close>

record satellite =
  sat_origin :: string
  sat_machine :: "string option"

text \<open>The parts of \<open>new URL(LLM_PROXY_URL)\<close> that are read.\<close>

record proxy_url =
  url_origin :: string
  url_protocol :: string
  url_hostname :: string
  url_port :: string

text \<open>\<open>dns\<close> is the TXT lookup; \<open>None\<close> is its failure.\<close>

definition satellites :: "proxy_url \<Rightarrow> (string \<Rightarrow> string list list option) \<Rightarrow> satellite list option" where
  "satellites url dns =
     (if \<not> ends_with ''.internal'' (url_hostname url)
      then Some [\<lparr>sat_origin = url_origin url, sat_machine = None\<rparr>]
      else
        (let app = take (length (url_hostname url) - length ''.internal'') (url_hostname url)
         in case dns (''vms.'' @ app @ ''.internal'') of
              None \<Rightarrow> None
            | Some records \<Rightarrow>
                Some (map (\<lambda>entry.
                    let machine = hd (split_on CHR '' '' (js_trim entry))
                    in \<lparr>sat_origin = url_protocol url @ ''//'' @ machine @ ''.vm.'' @ app @ ''.internal:'' @
                          (if url_port url = [] then ''80'' else url_port url),
                        sat_machine = Some machine\<rparr>)
                  (filter (\<lambda>e. e \<noteq> []) (split_on CHR '','' (join_with '','' (concat records)))))))"

section \<open>Where to start\<close>

definition newest_stored :: "string option \<Rightarrow> db \<Rightarrow> string" where
  "newest_stored machine d =
     (let rows = (case machine of
                    None \<Rightarrow> db_usage d
                  | Some m \<Rightarrow> if m = [] then db_usage d
                              else filter (\<lambda>u. ul_machine_id u = Some m) (db_usage d))
      in case List.map_filter ul_usage_id rows of
           [] \<Rightarrow> ''0''
         | us \<Rightarrow> uuid_text (Max (set us)))"

definition with_overlap :: "string \<Rightarrow> string" where
  "with_overlap text =
     (if text = ''0'' then text
      else
        (let hex = pad_start 12 CHR ''0''
             (case parse_int16 (slice 0 12 (remove_first CHR ''-'' text)) of
                Fin ms \<Rightarrow> to_hex (nat \<lfloor>max 0 (js_sub ms 10000)\<rfloor>)
              | _ \<Rightarrow> ''NaN'')
         in take 8 hex @ ''-'' @ drop 8 hex @ ''-0000-0000-000000000000''))"

section \<open>The page loop\<close>

text \<open>A fetch that fails (network, status, body), a row without \<open>usage_id\<close> (here the empty
  text), a page for which the prices cannot be read or which the database rejects.\<close>

datatype poll_error = Fetch_failed | Row_without_usage_id | Page_failed

text \<open>The loop talks to the outside once per page: \<open>pe_fetch k\<close> is the \<open>k\<close>-th answer,
  \<open>pe_clock k\<close> the clock when the price table is asked for, \<open>pe_priced k\<close> whether the database
  answers that query, \<open>pe_loaded k\<close> when a load returned, \<open>pe_now k\<close> the time of the transaction.\<close>

record poll_env =
  pe_models :: catalog
  pe_dates :: date_texts
  pe_rank :: "price_db_row \<Rightarrow> int"
  pe_fetch :: "nat \<Rightarrow> string \<Rightarrow> nat \<Rightarrow> feed_row list option"
  pe_clock :: "nat \<Rightarrow> js_time"
  pe_priced :: "nat \<Rightarrow> bool"
  pe_loaded :: "nat \<Rightarrow> js_time"
  pe_now :: "nat \<Rightarrow> pg_time"

record poll_state =
  ps_db :: db
  ps_cache :: price_cache
  ps_inserted :: nat

definition page_limit :: nat where
  "page_limit = 5000"

text \<open>\<open>priceTable\<close> reads the database only for want of a fresh table; when that fails it throws, and
  the cache stays as it is.\<close>

definition price_load_due :: "price_cache \<Rightarrow> js_time \<Rightarrow> bool" where
  "price_load_due cache now = (case cache of None \<Rightarrow> True | Some (_, when) \<Rightarrow> 30000 < now - when)"

definition poll_page :: "poll_env \<Rightarrow> nat \<Rightarrow> feed_row list \<Rightarrow> poll_state \<Rightarrow> bool \<times> poll_state" where
  "poll_page env k page st =
     (if price_load_due (ps_cache st) (pe_clock env k) \<and> \<not> pe_priced env k then (False, st) else
      let (table, cache) = price_table (ps_cache st) (pe_clock env k)
            (price_query (pe_rank env) (db_prices (ps_db st))) (pe_loaded env k);
          st1 = st\<lparr>ps_cache := cache\<rparr>
      in case ingest_page (pe_models env) (pe_dates env) table (pe_now env k) (ps_db st) page of
           None \<Rightarrow> (False, st1)
         | Some (n, d) \<Rightarrow> (True, st1\<lparr>ps_db := d, ps_inserted := ps_inserted st + n\<rparr>))"

partial_function (option) poll_loop ::
  "poll_env \<Rightarrow> nat \<Rightarrow> string \<Rightarrow> poll_state \<Rightarrow> ((poll_error + nat) \<times> poll_state) option" where
  "poll_loop env k cursor st =
     (case pe_fetch env k cursor page_limit of
        None \<Rightarrow> Some (Inl Fetch_failed, st)
      | Some page \<Rightarrow>
          if page = [] then Some (Inr (ps_inserted st), st)
          else if list_ex (\<lambda>r. fr_usage_id r = []) page then Some (Inl Row_without_usage_id, st)
          else
            (case poll_page env k page st of (ok, st') \<Rightarrow>
               if \<not> ok then Some (Inl Page_failed, st')
               else if length page < page_limit then Some (Inr (ps_inserted st'), st')
               else poll_loop env (Suc k) (fr_usage_id (last page)) st'))"

definition poll_once :: "poll_env \<Rightarrow> string \<Rightarrow> poll_state \<Rightarrow> ((poll_error + nat) \<times> poll_state) option" where
  "poll_once env after st = poll_loop env 0 after (st\<lparr>ps_inserted := 0\<rparr>)"

section \<open>A pass over all machines\<close>

text \<open>The failed machines: a failing machine is skipped, the rest still get polled.\<close>

fun poll_targets ::
  "(satellite \<Rightarrow> poll_env) \<Rightarrow> satellite list \<Rightarrow> poll_state \<Rightarrow> (string list \<times> poll_state) option" where
  "poll_targets env [] st = Some ([], st)"
| "poll_targets env (s # ss) st =
     (case poll_once (env s) (with_overlap (newest_stored (sat_machine s) (ps_db st))) st of
        None \<Rightarrow> None
      | Some (res, st') \<Rightarrow>
          map_option (\<lambda>(failed, st'').
              ((case res of Inl _ \<Rightarrow> [or_else (sat_machine s) (sat_origin s)] | Inr _ \<Rightarrow> []) @ failed, st''))
            (poll_targets env ss st'))"

definition poll_all ::
  "proxy_url \<Rightarrow> (string \<Rightarrow> string list list option) \<Rightarrow> (satellite \<Rightarrow> poll_env) \<Rightarrow> poll_state \<Rightarrow>
     (string list \<times> poll_state) option" where
  "poll_all url dns env st =
     (case satellites url dns of
        None \<Rightarrow> Some ([''discovery''], st)
      | Some ss \<Rightarrow> poll_targets env ss st)"

section \<open>The proxy's query\<close>

text \<open>The poller's view in \<open>proxy/usage.go\<close>: rows after the cursor in text order, or by row
  id without one; \<open>0\<close> counts as no limit given.\<close>

definition proxy_limit :: "nat \<Rightarrow> nat" where
  "proxy_limit n = (if n = 0 then 5000 else min 5000 (max 1 n))"

definition proxy_page :: "feed_row list \<Rightarrow> string \<Rightarrow> nat \<Rightarrow> feed_row list" where
  "proxy_page rows after n =
     (if after = [] then take (proxy_limit n) rows
      else take (proxy_limit n) (sort_key fr_usage_id (filter (\<lambda>r. after < fr_usage_id r) rows)))"

text \<open>One machine during a poll: \<open>writes k\<close> are the rows it recorded since the request before
  the \<open>k\<close>-th, \<open>up k\<close> whether it answers.\<close>

definition proxy_log :: "(nat \<Rightarrow> feed_row list) \<Rightarrow> nat \<Rightarrow> feed_row list" where
  "proxy_log writes k = concat (map writes [0..<Suc k])"

definition proxy_fetch ::
  "(nat \<Rightarrow> bool) \<Rightarrow> (nat \<Rightarrow> feed_row list) \<Rightarrow> nat \<Rightarrow> string \<Rightarrow> nat \<Rightarrow> feed_row list option" where
  "proxy_fetch up writes k c n =
     (if up k then Some (proxy_page (proxy_log writes k) c n) else None)"

section \<open>The starting point\<close>

lemma unat_uuid_of_nat: "n < 2 ^ 128 \<Longrightarrow> unat (of_nat n :: uuid) = n"
  by (simp add: unsigned_of_nat take_bit_nat_eq_self)

lemma with_overlap_uuid: "with_overlap (uuid_text v) = uuid_text (of_nat ((uuid_ms v - 10000) * 2 ^ 80))"
proof -
  let ?m = "uuid_ms v - 10000"
  let ?n = "?m * 2 ^ 80"
  have less: "?m < 2 ^ 48" using uuid_ms_less[of v] by linarith
  have neq: "uuid_text v \<noteq> ''0''" using zero_text_less[of v] by auto
  have diff: "js_sub (of_nat (uuid_ms v)) 10000 = of_int (int (uuid_ms v) - 10000)"
    using fl_of_int[of "int (uuid_ms v) - 10000"] uuid_ms_less[of v] by (simp add: js_sub_def)
  have "nat \<lfloor>max (0::rat) (of_int (int (uuid_ms v) - 10000))\<rfloor> = ?m"
    by (simp add: max_def) arith
  then have hex: "pad_start 12 CHR ''0'' (to_hex (nat \<lfloor>max 0 (js_sub (of_nat (uuid_ms v)) 10000)\<rfloor>)) = hex_digits 12 ?m"
    using pad_to_hex[of ?m 12] less unfolding diff by simp
  have "?n < 2 ^ 128" using less by simp
  then have n: "unat (of_nat ?n :: uuid) = ?n" by (rule unat_uuid_of_nat)
  have drop: "drop 8 (hex_digits 12 ?m) = hex_digits 4 ?m" "take 8 (hex_digits 12 ?m) = hex_digits 8 (?m div 16 ^ 4)"
    using drop_hex_digits[of 8 12 ?m] take_hex_digits[of 8 12 ?m] by simp_all
  have zeros: "hex_digits 4 (?n div 16 ^ 16) = ''0000''" "hex_digits 4 (?n div 16 ^ 12) = ''0000''"
    "hex_digits 12 ?n = ''000000000000''"
  proof -
    have z: "hex_digits k 0 = replicate k CHR ''0''" for k
      by (induction k) (simp_all add: hex_char_def flip: replicate_append_same)
    have r: "replicate 4 CHR ''0'' = ''0000''" "replicate 12 CHR ''0'' = ''000000000000''"
      by (simp_all add: numeral_eq_Suc)
    have "hex_digits 4 (?n div 16 ^ 16) = hex_digits 4 0" "hex_digits 4 (?n div 16 ^ 12) = hex_digits 4 0"
      "hex_digits 12 ?n = hex_digits 12 0"
      unfolding hex_digits_eq by (simp_all flip: mult.assoc)
    then show "hex_digits 4 (?n div 16 ^ 16) = ''0000''" "hex_digits 4 (?n div 16 ^ 12) = ''0000''"
      "hex_digits 12 ?n = ''000000000000''" unfolding z r by simp_all
  qed
  have high: "?n div 16 ^ 24 = ?m div 16 ^ 4" "?n div 16 ^ 20 = ?m" by simp_all
  have "with_overlap (uuid_text v) = hex_digits 8 (?m div 16 ^ 4) @ ''-'' @ hex_digits 4 ?m @ ''-0000-0000-000000000000''"
    unfolding with_overlap_def Let_def using neq by (simp only: if_False uuid_text_slice parse_uuid_ms js_num.case hex drop)
  also have "\<dots> = uuid_text (of_nat ?n)"
    unfolding uuid_text_digits n high zeros by simp
  finally show ?thesis .
qed

lemma with_overlap_less:
  "with_overlap (uuid_text v) < uuid_text u \<longleftrightarrow> (uuid_ms v - 10000) * 2 ^ 80 < unat u"
proof -
  have "(uuid_ms v - 10000) * 2 ^ 80 < 2 ^ 128" using uuid_ms_less[of v] by simp
  then have "unat (of_nat ((uuid_ms v - 10000) * 2 ^ 80) :: uuid) = (uuid_ms v - 10000) * 2 ^ 80"
    by (rule unat_uuid_of_nat)
  then show ?thesis unfolding with_overlap_uuid uuid_text_less by (simp add: word_less_nat_alt)
qed

lemma with_overlap_nonempty: "with_overlap t \<noteq> []"
  by (simp add: with_overlap_def Let_def)

text \<open>The newest stored id is that of a row of the machine asked for.\<close>

lemma newest_stored_cases:
  obtains "newest_stored machine d = ''0''"
  | u v where "u \<in> set (db_usage d)" "ul_usage_id u = Some v" "newest_stored machine d = uuid_text v"
      "machine = Some m \<longrightarrow> m \<noteq> [] \<longrightarrow> ul_machine_id u = Some m"
proof -
  let ?rows = "case machine of None \<Rightarrow> db_usage d | Some m \<Rightarrow> if m = [] then db_usage d
      else filter (\<lambda>u. ul_machine_id u = Some m) (db_usage d)"
  let ?us = "List.map_filter ul_usage_id ?rows"
  show ?thesis
  proof (cases "?us = []")
    case True
    then show ?thesis using that(1) by (simp add: newest_stored_def Let_def)
  next
    case False
    then have "Max (set ?us) \<in> set ?us" by (intro Max_in) auto
    then obtain u where u: "u \<in> set ?rows" "ul_usage_id u = Some (Max (set ?us))"
      unfolding set_map_filter by auto
    moreover have "newest_stored machine d = uuid_text (Max (set ?us))"
      using False by (simp add: newest_stored_def Let_def split: list.splits)
    ultimately show ?thesis
      by (intro that(2)[of u "Max (set ?us)"]) (auto split: option.splits if_splits)
  qed
qed

text \<open>Version 7 ids have a version digit, so they sort after the bare timestamp; a row the
  poller does not ask for is more than 10 s older than a stored row of its machine.\<close>

lemma asked_for:
  assumes "version7 u"
  shows "with_overlap (newest_stored machine d) < uuid_text u \<or>
    (\<exists>row\<in>set (db_usage d). \<exists>v. ul_usage_id row = Some v \<and> uuid_ms u + 10000 < uuid_ms v \<and>
       (machine = Some m \<longrightarrow> m \<noteq> [] \<longrightarrow> ul_machine_id row = Some m))"
proof (cases rule: newest_stored_cases[where machine = machine and d = d and m = m])
  case 1
  then show ?thesis using zero_text_less by (simp add: with_overlap_def)
next
  case (2 row v)
  show ?thesis
  proof (cases "(uuid_ms v - 10000) * 2 ^ 80 < unat u")
    case True
    then show ?thesis using 2(3) with_overlap_less by simp
  next
    case False
    then have "uuid_ms u * 2 ^ 80 < (uuid_ms v - 10000) * 2 ^ 80"
      using version7_less[OF assms] by linarith
    then have "uuid_ms u + 10000 < uuid_ms v" by simp
    then show ?thesis using 2 by blast
  qed
qed

section \<open>The feed contract\<close>

text \<open>Whatever the \<open>k\<close>-th request sees of the log, an answer is the first \<open>n\<close> rows after the
  cursor in the order of \<open>usage_id\<close>, and the log never loses a row.\<close>

locale usage_feed =
  fixes fetch :: "nat \<Rightarrow> string \<Rightarrow> nat \<Rightarrow> feed_row list option"
    and log :: "nat \<Rightarrow> feed_row list"
  assumes served: "fetch k c n = Some page \<Longrightarrow> c \<noteq> [] \<Longrightarrow> 0 < n \<Longrightarrow> n \<le> 5000 \<Longrightarrow>
      \<exists>rest. mset (page @ rest) = mset (filter (\<lambda>r. c < fr_usage_id r) (log k)) \<and>
        sorted (map fr_usage_id (page @ rest)) \<and> length page \<le> n \<and> (rest \<noteq> [] \<longrightarrow> length page = n)"
    and grows: "set (log k) \<subseteq> set (log (Suc k))"
begin

lemma served_set:
  assumes "fetch k c n = Some page" "c \<noteq> []" "0 < n" "n \<le> 5000"
  shows "set page \<subseteq> {r \<in> set (log k). c < fr_usage_id r}"
proof -
  obtain rest where "mset (page @ rest) = mset (filter (\<lambda>r. c < fr_usage_id r) (log k))"
    using served[OF assms(1-4)] by blast
  from arg_cong[OF this, of set_mset] show ?thesis by auto
qed

lemma served_rest:
  assumes "fetch k c n = Some page" "c \<noteq> []" "0 < n" "n \<le> 5000"
    and "r \<in> set (log k)" "c < fr_usage_id r" "r \<notin> set page"
  shows "length page = n" "fr_usage_id (last page) \<le> fr_usage_id r"
proof -
  obtain rest where rest: "mset (page @ rest) = mset (filter (\<lambda>r. c < fr_usage_id r) (log k))"
    "sorted (map fr_usage_id (page @ rest))" "rest \<noteq> [] \<longrightarrow> length page = n"
    using served[OF assms(1-4)] by blast
  from arg_cong[OF rest(1), of set_mset] have r: "r \<in> set rest" using assms(5-7) by auto
  then show "length page = n" using rest(3) by auto
  then have "last page \<in> set page" using assms(3) by (intro last_in_set) auto
  then show "fr_usage_id (last page) \<le> fr_usage_id r" using rest(2) r by (auto simp: sorted_append)
qed

lemma log_mono: "k \<le> k' \<Longrightarrow> set (log k) \<subseteq> set (log k')"
  by (rule lift_Suc_mono_le[of "\<lambda>k. set (log k)"]) (rule grows)

end

section \<open>What a page leaves stored\<close>

definition is_stored :: "db \<Rightarrow> string \<Rightarrow> bool" where
  "is_stored d t \<longleftrightarrow> pg_uuid t \<in> ul_usage_id ` set (db_usage d)"

definition keyless :: "db \<Rightarrow> feed_row \<Rightarrow> bool" where
  "keyless d r \<longleftrightarrow> (case pg_uuid (fr_key_id r) of None \<Rightarrow> True | Some i \<Rightarrow> \<not> key_exists d i)"

lemma ingest_page_keeps:
  assumes "ingest_page models dates table now d page = Some (n, d')"
  shows "set (db_usage d) \<subseteq> set (db_usage d')" "key_exists d' = key_exists d"
    "keys_ok d \<Longrightarrow> keys_ok d'" "ledger_ok d \<Longrightarrow> ledger_ok d'" "db_teams d' = db_teams d" "db_members d' = db_members d"
proof -
  obtain rows where tx: "page_tx now d rows = Some (n, d')"
    using assms by (auto simp: ingest_page_rows split: option.splits)
  show "set (db_usage d) \<subseteq> set (db_usage d')" "key_exists d' = key_exists d"
    "db_teams d' = db_teams d" "db_members d' = db_members d"
    using page_tx_Some(2,3)[OF tx] page_tx_teams[OF tx] by auto
  show "keys_ok d \<Longrightarrow> keys_ok d'" "ledger_ok d \<Longrightarrow> ledger_ok d'"
    using page_tx_keys_ok[OF tx] page_tx_ledger[OF _ tx] by blast+
qed

lemma ingest_page_stores:
  assumes "ingest_page models dates table now d page = Some (n, d')" "r \<in> set page"
  shows "is_stored d' (fr_usage_id r) \<or> keyless d r"
proof -
  obtain rows where rows: "page_rows models dates table page = Some rows" and tx: "page_tx now d rows = Some (n, d')"
    using assms(1) by (auto simp: ingest_page_rows split: option.splits)
  have "(pg_uuid (fr_usage_id r), pg_uuid (fr_key_id r)) \<in>
      set (map (\<lambda>u. (ul_usage_id u, Some (ul_key_id u))) rows)"
    unfolding page_rows_ids[OF rows] using assms(2) by auto
  then obtain u where u: "u \<in> set rows" "pg_uuid (fr_usage_id r) = ul_usage_id u" "pg_uuid (fr_key_id r) = Some (ul_key_id u)"
    by auto
  have "ul_usage_id u \<in> ul_usage_id ` set (db_usage d')" if "key_exists d (ul_key_id u)"
    using insert_rows_ids[of "db_usage d" "filter (\<lambda>u. key_exists d (ul_key_id u)) rows"] u(1) that
    by (auto simp: page_tx_Some(2)[OF tx] insert_rows_table)
  then show ?thesis using u(2,3) by (auto simp: is_stored_def keyless_def)
qed

lemma poll_page_keeps:
  assumes "poll_page env k page st = (ok, st')"
  shows "set (db_usage (ps_db st)) \<subseteq> set (db_usage (ps_db st'))" "key_exists (ps_db st') = key_exists (ps_db st)"
    "keys_ok (ps_db st) \<Longrightarrow> keys_ok (ps_db st')" "ledger_ok (ps_db st) \<Longrightarrow> ledger_ok (ps_db st')"
proof -
  consider "ps_db st' = ps_db st"
    | models dates table now n where "ingest_page models dates table now (ps_db st) page = Some (n, ps_db st')"
    using assms by (auto simp: poll_page_def split_beta Let_def split: option.splits if_splits)
  then show "set (db_usage (ps_db st)) \<subseteq> set (db_usage (ps_db st'))" "key_exists (ps_db st') = key_exists (ps_db st)"
    "keys_ok (ps_db st) \<Longrightarrow> keys_ok (ps_db st')" "ledger_ok (ps_db st) \<Longrightarrow> ledger_ok (ps_db st')"
    by (cases, simp, metis ingest_page_keeps)+
qed

lemma poll_page_stores:
  assumes "poll_page env k page st = (True, st')" "r \<in> set page"
  shows "is_stored (ps_db st') (fr_usage_id r) \<or> keyless (ps_db st) r"
  using assms by (auto simp: poll_page_def split_beta Let_def dest: ingest_page_stores split: option.splits if_splits)


section \<open>The loop\<close>

definition poll_keeps :: "poll_state \<Rightarrow> poll_state \<Rightarrow> bool" where
  "poll_keeps st st' \<longleftrightarrow> set (db_usage (ps_db st)) \<subseteq> set (db_usage (ps_db st')) \<and>
     key_exists (ps_db st') = key_exists (ps_db st) \<and>
     (keys_ok (ps_db st) \<longrightarrow> keys_ok (ps_db st')) \<and> (ledger_ok (ps_db st) \<longrightarrow> ledger_ok (ps_db st'))"

lemma poll_keeps_refl [simp]: "poll_keeps st st"
  by (simp add: poll_keeps_def)

lemma poll_keeps_trans: "poll_keeps a b \<Longrightarrow> poll_keeps b c \<Longrightarrow> poll_keeps a c"
  unfolding poll_keeps_def by (elim conjE, intro conjI) (blast, simp, blast+)

lemma poll_keeps_stored: "poll_keeps a b \<Longrightarrow> is_stored (ps_db a) t \<Longrightarrow> is_stored (ps_db b) t"
  by (auto simp: poll_keeps_def is_stored_def)

lemma poll_keeps_keyless: "poll_keeps a b \<Longrightarrow> keyless (ps_db b) = keyless (ps_db a)"
  by (simp add: poll_keeps_def keyless_def fun_eq_iff split: option.split)

text \<open>The four ways a round ends, as an induction rule for runs of the loop that return.\<close>

lemma poll_loop_induct [consumes 1, case_names failed empty short more]:
  assumes run: "poll_loop env k c st = Some y"
    and failed: "\<And>env k c st e st'. st' = st \<or> (\<exists>page. poll_page env k page st = (False, st')) \<Longrightarrow> P env k c st (Inl e, st')"
    and empty: "\<And>env k c st. pe_fetch env k c page_limit = Some [] \<Longrightarrow> P env k c st (Inr (ps_inserted st), st)"
    and short: "\<And>env k c st page st'. pe_fetch env k c page_limit = Some page \<Longrightarrow>
       poll_page env k page st = (True, st') \<Longrightarrow> length page < page_limit \<Longrightarrow> P env k c st (Inr (ps_inserted st'), st')"
    and more: "\<And>env k c st page st' y. pe_fetch env k c page_limit = Some page \<Longrightarrow>
       poll_page env k page st = (True, st') \<Longrightarrow> page \<noteq> [] \<Longrightarrow> fr_usage_id (last page) \<noteq> [] \<Longrightarrow>
       P env (Suc k) (fr_usage_id (last page)) st' y \<Longrightarrow> P env k c st y"
  shows "P env k c st y"
proof (rule poll_loop.raw_induct[OF _ run])
  fix loop :: "poll_env \<Rightarrow> nat \<Rightarrow> string \<Rightarrow> poll_state \<Rightarrow> ((poll_error + nat) \<times> poll_state) option"
    and env k c st y
  assume IH: "\<And>env k c st y. loop env k c st = Some y \<Longrightarrow> P env k c st y"
    and round: "(case pe_fetch env k c page_limit of
        None \<Rightarrow> Some (Inl Fetch_failed, st)
      | Some page \<Rightarrow>
          if page = [] then Some (Inr (ps_inserted st), st)
          else if list_ex (\<lambda>r. fr_usage_id r = []) page then Some (Inl Row_without_usage_id, st)
          else
            (case poll_page env k page st of (ok, st') \<Rightarrow>
               if \<not> ok then Some (Inl Page_failed, st')
               else if length page < page_limit then Some (Inr (ps_inserted st'), st')
               else loop env (Suc k) (fr_usage_id (last page)) st')) = Some y"
  show "P env k c st y"
  proof (cases "pe_fetch env k c page_limit")
    case None
    then show ?thesis using round failed[OF disjI1[OF refl]] by auto
  next
    case (Some page)
    obtain ok st1 where p: "poll_page env k page st = (ok, st1)" by (cases "poll_page env k page st")
    consider "page = []" | "list_ex (\<lambda>r. fr_usage_id r = []) page" "page \<noteq> []"
      | "page \<noteq> []" "\<not> list_ex (\<lambda>r. fr_usage_id r = []) page" by blast
    then show ?thesis
    proof cases
      case 1
      then show ?thesis using round Some empty by auto
    next
      case 2
      then show ?thesis using round Some failed[OF disjI1[OF refl]] by auto
    next
      case 3
      have last: "fr_usage_id (last page) \<noteq> []" using 3 by (auto simp: list_ex_iff)
      have ends: "(if \<not> ok then Some (Inl Page_failed, st1)
           else if length page < page_limit then Some (Inr (ps_inserted st1), st1)
           else loop env (Suc k) (fr_usage_id (last page)) st1) = Some y"
        using round 3 by (simp only: Some p option.case prod.case if_False)
      show ?thesis
      proof (cases "ok")
        case False
        then have "(Inl Page_failed, st1) = y" using ends by (simp only: if_True option.inject simp_thms)
        moreover have "poll_page env k page st = (False, st1)" using p False by simp
        ultimately show ?thesis using failed[OF disjI2[OF exI]] by blast
      next
        case True
        then have page: "poll_page env k page st = (True, st1)" using p by simp
        show ?thesis
        proof (cases "length page < page_limit")
          case short_page: True
          then have "(Inr (ps_inserted st1), st1) = y" using ends True by (simp only: if_True if_False option.inject simp_thms)
          then show ?thesis using short[OF Some page short_page] by (rule subst)
        next
          case False
          then have "loop env (Suc k) (fr_usage_id (last page)) st1 = Some y"
            using ends True by (simp only: if_True if_False simp_thms)
          then show ?thesis using more[OF Some page 3(1) last IH] by blast
        qed
      qed
    qed
  qed
qed

lemma poll_page_keep:
  assumes "poll_page env k page st = (ok, st')"
  shows "poll_keeps st st'"
  using poll_page_keeps[OF assms] by (simp add: poll_keeps_def)

lemma poll_loop_keeps: "poll_loop env k c st = Some y \<Longrightarrow> poll_keeps st (snd y)"
proof (induction env k c st y rule: poll_loop_induct)
  case (more env k c st page st' y)
  then show ?case using poll_keeps_trans poll_page_keep by blast
qed (auto dest: poll_page_keep)

context usage_feed
begin

text \<open>A poll that ends without an error has stored every row the log held when it began,
  unless the key of a row of that id is gone.\<close>

lemma poll_complete_aux:
  assumes "poll_loop env k c st = Some y"
  shows "poll_keeps st (snd y) \<and>
    (pe_fetch env = fetch \<longrightarrow> c \<noteq> [] \<longrightarrow> r \<in> set (log k) \<longrightarrow> c < fr_usage_id r \<longrightarrow> isl (fst y) \<or>
      is_stored (ps_db (snd y)) (fr_usage_id r) \<or>
      (\<exists>j. \<exists>q\<in>set (log j). fr_usage_id q = fr_usage_id r \<and> keyless (ps_db st) q))"
  using assms
proof (induction env k c st y rule: poll_loop_induct)
  case (empty env k c st)
  then show ?case using served_rest(1)[of k c page_limit "[]" r] by (auto simp: page_limit_def)
next
  case (short env k c st page st')
  have "r \<in> set page" if "pe_fetch env = fetch" "c \<noteq> []" "r \<in> set (log k)" "c < fr_usage_id r"
    using served_rest(1)[of k c page_limit page r] short(1,3) that by (auto simp: page_limit_def)
  then show ?case using poll_page_stores[OF short(2), of r] poll_page_keep[OF short(2)] by auto
next
  case (more env k c st page st' y)
  have keeps: "poll_keeps st st'" "poll_keeps st' (snd y)" "poll_keeps st (snd y)"
    using more(5) poll_page_keep[OF more(2)] poll_keeps_trans by blast+
  have "isl (fst y) \<or> is_stored (ps_db (snd y)) (fr_usage_id r) \<or>
      (\<exists>j. \<exists>q\<in>set (log j). fr_usage_id q = fr_usage_id r \<and> keyless (ps_db st) q)"
    if env: "pe_fetch env = fetch" and c: "c \<noteq> []" and r: "r \<in> set (log k)" "c < fr_usage_id r"
  proof -
    have fetch: "fetch k c page_limit = Some page" using more(1) env by simp
    consider q where "q \<in> set page" "fr_usage_id q = fr_usage_id r" | "fr_usage_id (last page) < fr_usage_id r"
      using served_rest(2)[OF fetch c _ _ r] more(3) by (force simp: page_limit_def)
    then show ?thesis
    proof cases
      case 1
      then have "q \<in> set (log k)" using served_set[OF fetch c] by (auto simp: page_limit_def)
      then show ?thesis
        using poll_page_stores[OF more(2) 1(1)] 1(2) poll_keeps_stored[OF keeps(2)] by metis
    next
      case 2
      have "r \<in> set (log (Suc k))" using r(1) grows by blast
      then show ?thesis
        using more(5) env more(4) 2 unfolding poll_keeps_keyless[OF keeps(1)] by blast
    qed
  qed
  then show ?case using keeps(3) by blast
qed (auto dest: poll_page_keep)

lemma poll_complete:
  assumes "poll_loop env k c st = Some (Inr n, st')" "pe_fetch env = fetch" "c \<noteq> []"
    and "r \<in> set (log k)" "c < fr_usage_id r"
  shows "is_stored (ps_db st') (fr_usage_id r) \<or>
    (\<exists>j. \<exists>q\<in>set (log j). fr_usage_id q = fr_usage_id r \<and> keyless (ps_db st) q)"
  using poll_complete_aux[OF assms(1), of r] assms(2-5) by auto

text \<open>A backlog that stays within finitely many rows is drained: the loop returns.\<close>

lemma poll_returns:
  assumes "pe_fetch env = fetch" "finite ids" "\<And>k. fr_usage_id ` set (log k) \<subseteq> ids" "c \<noteq> []"
  shows "\<exists>y. poll_loop env k c st = Some y"
  using assms(4)
proof (induction "card {i \<in> ids. c < i}" arbitrary: k c st rule: less_induct)
  case less
  show ?case
  proof (cases "fetch k c page_limit")
    case None
    then show ?thesis by (subst poll_loop.simps) (simp add: assms(1))
  next
    case (Some page)
    obtain ok st1 where p: "poll_page env k page st = (ok, st1)" by (cases "poll_page env k page st")
    show ?thesis
    proof (cases "page = [] \<or> list_ex (\<lambda>r. fr_usage_id r = []) page \<or> \<not> ok \<or> length page < page_limit")
      case True
      then show ?thesis by (subst poll_loop.simps) (auto simp: assms(1) Some p)
    next
      case False
      let ?c = "fr_usage_id (last page)"
      have last: "last page \<in> set page" using False by simp
      then have l: "c < ?c" "?c \<in> ids" using served_set[OF Some less(2)] assms(3)[of k] by (auto simp: page_limit_def)
      have "?c \<noteq> []" using False last by (auto simp: list_ex_iff)
      moreover have "{i \<in> ids. ?c < i} \<subset> {i \<in> ids. c < i}" using l by (auto dest: less_trans)
      then have "card {i \<in> ids. ?c < i} < card {i \<in> ids. c < i}"
        using assms(2) by (intro psubset_card_mono) auto
      ultimately obtain y where "poll_loop env (Suc k) ?c st1 = Some y" using less(1)[of ?c "Suc k" st1] by blast
      then show ?thesis using False by (subst poll_loop.simps) (auto simp: assms(1) Some p)
    qed
  qed
qed

end

text \<open>The proxy keeps the contract, whatever it records between requests.\<close>

interpretation proxy: usage_feed "proxy_fetch up writes" "proxy_log writes" for up writes
proof
  fix k c n page
  assume "proxy_fetch up writes k c n = Some page" "c \<noteq> []" "0 < n" "n \<le> 5000"
  then have page: "page = take n (sort_key fr_usage_id (filter (\<lambda>r. c < fr_usage_id r) (proxy_log writes k)))"
    by (auto simp: proxy_fetch_def proxy_page_def proxy_limit_def split: if_splits)
  let ?all = "sort_key fr_usage_id (filter (\<lambda>r. c < fr_usage_id r) (proxy_log writes k))"
  have all: "page @ drop n ?all = ?all" unfolding page by simp
  have "mset (page @ drop n ?all) = mset (filter (\<lambda>r. c < fr_usage_id r) (proxy_log writes k))"
    "sorted (map fr_usage_id (page @ drop n ?all))"
    unfolding all by simp_all
  moreover have "length page \<le> n \<and> (drop n ?all \<noteq> [] \<longrightarrow> length page = n)"
    by (simp add: page min_def)
  ultimately show "\<exists>rest. mset (page @ rest) = mset (filter (\<lambda>r. c < fr_usage_id r) (proxy_log writes k)) \<and>
      sorted (map fr_usage_id (page @ rest)) \<and> length page \<le> n \<and> (rest \<noteq> [] \<longrightarrow> length page = n)"
    by blast
next
  show "set (proxy_log writes k) \<subseteq> set (proxy_log writes (Suc k))" for k
    by (auto simp: proxy_log_def)
qed

section \<open>A whole pass\<close>

lemma poll_targets_keeps:
  "poll_targets env ss st = Some (failed, st') \<Longrightarrow> poll_keeps st st'"
proof (induction ss arbitrary: st failed)
  case (Cons s ss)
  then obtain res a f where a: "poll_once (env s) (with_overlap (newest_stored (sat_machine s) (ps_db st))) st = Some (res, a)"
    "poll_targets env ss a = Some (f, st')" by (auto split: option.splits)
  have "poll_keeps st a"
    using poll_loop_keeps[OF a(1)[unfolded poll_once_def]] by (simp add: poll_keeps_def)
  then show ?case using Cons.IH[OF a(2)] poll_keeps_trans by blast
qed simp

text \<open>A pass without failures has polled every machine to its end.\<close>

lemma poll_targets_clean:
  assumes "poll_targets env (xs @ s # ys) st = Some ([], st')"
  shows "\<exists>a b n. poll_targets env xs st = Some ([], a) \<and>
    poll_once (env s) (with_overlap (newest_stored (sat_machine s) (ps_db a))) a = Some (Inr n, b) \<and>
    poll_targets env ys b = Some ([], st')"
  using assms
proof (induction xs arbitrary: st)
  case Nil
  then show ?case by (auto split: option.splits sum.splits)
next
  case (Cons x xs)
  let ?c = "with_overlap (newest_stored (sat_machine x) (ps_db st))"
  from Cons.prems obtain n a where a: "poll_once (env x) ?c st = Some (Inr n, a)"
    "poll_targets env (xs @ s # ys) a = Some ([], st')"
    by (auto split: option.splits sum.splits)
  then show ?case using Cons.IH[OF a(2)] by auto
qed

lemma poll_targets_returns:
  assumes "\<And>s a c. s \<in> set ss \<Longrightarrow> c \<noteq> [] \<Longrightarrow> \<exists>y. poll_once (env s) c a = Some y"
  shows "\<exists>y. poll_targets env ss st = Some y"
  using assms
proof (induction ss arbitrary: st)
  case (Cons s ss)
  let ?c = "with_overlap (newest_stored (sat_machine s) (ps_db st))"
  obtain res a where a: "poll_once (env s) ?c st = Some (res, a)"
    using Cons.prems[of s ?c st] with_overlap_nonempty by auto
  obtain y where "poll_targets env ss a = Some y" using Cons.IH[of a] Cons.prems by auto
  then show ?case using a by auto
qed simp

end
