(* ===== verification/Internal_Prices.thy ===== *)
theory Internal_Prices
  imports Price_List Key_Derive
begin

text \<open>
  The internal price API of \<open>api/src/routes/internal.ts\<close>: the service-secret gate, the list
  of what ingest charges per catalog model, and the append of a row when a rate moved.
  The rates go through the \<open>NUMERIC(12, 6)\<close> columns; \<open>round6_stored\<close> shows that a rate
  rounded to six digits comes back unchanged.
\<close>

section \<open>The gate\<close>

text \<open>The tokens are compared by their SHA-256 digests.\<close>

definition internal_authorized :: "(bytes \<Rightarrow> bytes) \<Rightarrow> string \<Rightarrow> string option \<Rightarrow> bool" where
  "internal_authorized sha256 token authorization =
     (let presented = js_trim (strip_bearer (or_else authorization []))
      in presented \<noteq> [] \<and> sha256 (text_encode presented) = sha256 (text_encode token))"

section \<open>Text of a value\<close>

text \<open>\<open>Number::toString\<close>: the shortest decimal, plain up to 21 integer digits and down to
  six leading zeros, with an exponent otherwise.\<close>

definition decimal_digits :: "rat \<Rightarrow> int \<Rightarrow> string" where
  "decimal_digits v n =
     (case find (\<lambda>k. v * 10 powi (int k - n) = of_int \<lfloor>v * 10 powi (int k - n)\<rfloor>) [1..<18] of
        Some k \<Rightarrow> dec_text (nat \<lfloor>v * 10 powi (int k - n)\<rfloor>)
      | None \<Rightarrow> dec_text (nat \<lfloor>v * 10 powi (17 - n)\<rfloor>))"

definition pos_num_string :: "rat \<Rightarrow> string" where
  "pos_num_string x =
     (let v = num_text x; n = ilog 10 v + 1; ds = decimal_digits v n; k = int (length ds)
      in if k \<le> n \<and> n \<le> 21 then ds @ replicate (nat (n - k)) CHR ''0''
         else if 0 < n \<and> n \<le> 21 then take (nat n) ds @ ''.'' @ drop (nat n) ds
         else if - 6 < n \<and> n \<le> 0 then ''0.'' @ replicate (nat (- n)) CHR ''0'' @ ds
         else take 1 ds @ (if k = 1 then [] else ''.'' @ drop 1 ds) @ ''e'' @
              (if n - 1 < 0 then ''-'' else ''+'') @ dec_text (nat \<bar>n - 1\<bar>))"

definition num_string :: "js_num \<Rightarrow> string" where
  "num_string n =
     (case n of
        NaN \<Rightarrow> ''NaN''
      | Infinity neg \<Rightarrow> (if neg then ''-Infinity'' else ''Infinity'')
      | Fin x \<Rightarrow> if x = 0 then ''0'' else if 0 < x then pos_num_string x else ''-'' @ pos_num_string (- x))"

text \<open>\<open>String(v)\<close>.\<close>

fun js_string :: "json \<Rightarrow> string" where
  "js_string JNull = ''null''"
| "js_string (JBool b) = (if b then ''true'' else ''false'')"
| "js_string (JNum n) = num_string n"
| "js_string (JStr s) = s"
| "js_string (JObj _) = ''[object Object]''"
| "js_string (JArr vs) =
     concat (case map (\<lambda>v. case v of JNull \<Rightarrow> [] | _ \<Rightarrow> js_string v) vs of
               [] \<Rightarrow> [] | t # ts \<Rightarrow> t # map (\<lambda>s. CHR '','' # s) ts)"

section \<open>The price of a model\<close>

definition round6 :: "rat \<Rightarrow> rat" where
  "round6 n = js_div (js_round (js_mul n 1000000)) 1000000"

definition round6_rates :: "'f full_rates_scheme \<Rightarrow> full_rates" where
  "round6_rates f =
     \<lparr>input_rate = round6 (input_rate f), output_rate = round6 (output_rate f),
      cache_read_rate = round6 (cache_read_rate f), cache_write_rate = round6 (cache_write_rate f),
      per_request_rate = round6 (per_request_rate f)\<rparr>"

datatype price_answer =
    View_db uuid js_time string "string option" "string option" full_rates
  | View_catalog bool "full_rates option"

definition price_view :: "catalog \<Rightarrow> stored_price price_map \<Rightarrow> string \<Rightarrow> js_time \<Rightarrow> price_answer option" where
  "price_view models table model when =
     map_option (\<lambda>e.
       case e of
         Eff_db _ _ rs row \<Rightarrow>
           View_db (row_id row) (valid_from row) (price_source row) (price_note row) (price_created_by row) rs
       | Eff_catalog _ _ rs derived \<Rightarrow> View_catalog derived (Some rs)
       | Eff_undefined _ \<Rightarrow> View_catalog True None)
     (effective_price models table model when)"

record price_line =
  pl_model :: string
  pl_provider :: string
  pl_upstream_model :: string
  pl_long_context :: bool
  pl_price :: "price_answer option"

text \<open>\<open>GET /internal/prices\<close>, on a table just reloaded.\<close>

definition internal_prices ::
  "catalog \<Rightarrow> (price_db_row \<Rightarrow> int) \<Rightarrow> price_db_row list \<Rightarrow> js_time \<Rightarrow> js_time \<Rightarrow> price_line list \<times> price_cache" where
  "internal_prices models rank rows loaded_at now =
     (let (table, cache) = reload_price_table (price_query rank rows) loaded_at
      in (map (\<lambda>(model, entry).
              \<lparr>pl_model = model, pl_provider = provider_slug entry,
               pl_upstream_model = or_else (upstream_model_slug entry) model,
               pl_long_context = (long_context entry \<noteq> None),
               pl_price = price_view models table model now\<rparr>) models, cache))"

section \<open>Appending a row\<close>

record price_env =
  pv_models :: catalog
  pv_parse_date :: "string \<Rightarrow> js_time option"
  pv_rank :: "price_db_row \<Rightarrow> int"
  pv_driver :: driver

text \<open>One request's view of the world: the id the database generates, the clock when the table
  was loaded and at \<open>new Date()\<close>, and the time of the insert.\<close>

record price_moment =
  pm_id :: uuid
  pm_loaded :: js_time
  pm_now :: js_time
  pm_view :: js_time
  pm_pg_now :: pg_time

datatype price_reply_error =
    Body_not_object
  | Invalid_price price_error
  | Price_sql_error

definition form_of :: "json \<Rightarrow> form" where
  "form_of body = (\<lambda>name. map_option (\<lambda>v. if v = JNull then [] else js_string v) (js_get body name))"

definition is_object :: "json option \<Rightarrow> bool" where
  "is_object body = (case body of Some (JObj _) \<Rightarrow> True | _ \<Rightarrow> False)"

definition created_by_sync :: string where
  "created_by_sync = ''internal:price-sync''"

text \<open>A number bound to a \<open>NUMERIC(12, 6)\<close> column: its shortest decimal, rounded.\<close>

definition numeric_column :: "rat \<Rightarrow> rat option" where
  "numeric_column x = pg_numeric 12 6 (num_text x)"

definition insert_price ::
  "driver \<Rightarrow> price_moment \<Rightarrow> string option \<Rightarrow> new_price \<Rightarrow> db \<Rightarrow> (price_db_row \<times> db) option" where
  "insert_price dr m created_by p d =
     (case (numeric_column (input_rate p), numeric_column (output_rate p), numeric_column (cache_read_rate p),
            numeric_column (cache_write_rate p), numeric_column (per_request_rate p),
            (case np_valid_from p of None \<Rightarrow> Some (pm_pg_now m) | Some t \<Rightarrow> bind_date dr t)) of
        (Some i, Some ou, Some r, Some w, Some q, Some t) \<Rightarrow>
          (let row = \<lparr>mp_id = pm_id m, mp_model = np_model p, mp_input = i, mp_output = ou, mp_cache_read = r,
                      mp_cache_write = w, mp_per_request = q, mp_valid_from = t, mp_source = np_source p,
                      mp_note = np_note p, mp_created_by = created_by, mp_created_at = pm_pg_now m\<rparr>
           in Some (row, d\<lparr>db_prices := db_prices d @ [row]\<rparr>))
      | _ \<Rightarrow> None)"

text \<open>The form with its rates rounded.\<close>

definition rounded_form :: "new_price \<Rightarrow> new_price" where
  "rounded_form form =
     (let rs = round6_rates form in
      form\<lparr>input_rate := input_rate rs, output_rate := output_rate rs, cache_read_rate := cache_read_rate rs,
           cache_write_rate := cache_write_rate rs, per_request_rate := per_request_rate rs\<rparr>)"

lemma rounded_form_simps [simp]:
  "np_model (rounded_form f) = np_model f" "np_valid_from (rounded_form f) = np_valid_from f"
  "full_rates.truncate (rounded_form f) = round6_rates f"
  by (simp_all add: rounded_form_def Let_def full_rates.truncate_def round6_rates_def)

text \<open>The reply says whether the price was unchanged, and shows it.\<close>

definition post_price ::
  "price_env \<Rightarrow> price_moment \<Rightarrow> db \<Rightarrow> price_cache \<Rightarrow> json option \<Rightarrow>
     (price_reply_error, bool \<times> price_answer option) reply \<times> db \<times> price_cache" where
  "post_price env m d cache body =
     (if \<not> is_object body then (Failure 400 Body_not_object, d, cache) else
      case parse_price_form (pv_parse_date env) (pv_models env) (form_of (or_else body JNull)) of
        Inl e \<Rightarrow> (Failure 400 (Invalid_price e), d, cache)
      | Inr form \<Rightarrow>
          (let p = rounded_form form;
               (table, cache1) = reload_price_table (price_query (pv_rank env) (db_prices d)) (pm_loaded m);
               when = or_else (np_valid_from p) (pm_now m)
           in case effective_price (pv_models env) table (np_model p) when of
                None \<Rightarrow> (Failure 500 Price_sql_error, d, cache1)
              | Some current \<Rightarrow>
                  if map_option round6_rates (effective_rates current) = Some (full_rates.truncate p)
                  then (Answer 200 (True, price_view (pv_models env) table (np_model p) (or_else (np_valid_from p) (pm_view m))), d, cache1)
                  else (case insert_price (pv_driver env) m (Some created_by_sync) p d of
                          None \<Rightarrow> (Failure 500 Price_sql_error, d, cache1)
                        | Some (row, d') \<Rightarrow>
                            (Answer 201 (False, Some (View_db (mp_id row) (js_date (mp_valid_from row))
                               (np_source p) (np_note p) (Some created_by_sync) (full_rates.truncate p))),
                             d', clear_price_cache cache1))))"

section \<open>Six digits survive the column\<close>

lemma fl_close:
  assumes "1 / 10 ^ 9 \<le> x"
  shows "\<bar>fl x - x\<bar> \<le> x / 2 ^ 53"
proof -
  have "(2::rat) powi (-1022) \<le> 2 powi (-30)" by (rule power_int_increasing) simp_all
  moreover have "(2::rat) powi (-30) \<le> 1 / 10 ^ 9" by (simp add: power_int_minus)
  ultimately have "2 powi (-1022) \<le> x" using assms by (meson order.trans)
  from fl_rel_err_pos[OF this] have "\<bar>fl x - x\<bar> \<le> x * 2 powi (-53)" .
  moreover have "2 powi (-53) = (1 / 2 ^ 53 :: rat)" by (simp add: power_int_minus)
  ultimately show ?thesis by simp
qed

lemma read_back_close:
  assumes t: "0 \<le> t" "fl t = r" and r: "1 / 10 ^ 8 \<le> r"
  shows "\<bar>t - r\<bar> \<le> r / 2 ^ 52"
proof -
  have "1 / 10 ^ 9 \<le> t"
  proof (rule ccontr)
    assume "\<not> 1 / 10 ^ 9 \<le> t"
    then have "fl t \<le> fl (1 / 10 ^ 9)" by (intro fl_mono) simp
    moreover have "fl (1 / 10 ^ 9) \<le> 1 / 10 ^ 9 + 1 / 10 ^ 9 / 2 ^ 53"
      using fl_close[of "1 / 10 ^ 9"] by linarith
    ultimately show False using t(2) r by simp
  qed
  then have "\<bar>r - t\<bar> \<le> t / 2 ^ 53" using fl_close t(2) by blast
  then have "r - t \<le> t / 2 ^ 53" "t - r \<le> t / 2 ^ 53" unfolding abs_le_iff by linarith+
  then have "t - r \<le> r / 2 ^ 52 \<and> r - t \<le> r / 2 ^ 52" using r t(1) by simp
  then show ?thesis unfolding abs_le_iff minus_diff_eq by blast
qed

lemma js_round_near: "\<bar>y - of_int k\<bar> < 1 / 2 \<Longrightarrow> js_round y = of_int k"
proof -
  assume "\<bar>y - of_int k\<bar> < 1 / 2"
  then have "\<lfloor>y + 1 / 2\<rfloor> = k" unfolding floor_eq_iff abs_less_iff by linarith
  then show ?thesis by (simp add: js_round_def)
qed

lemma numeric_round_near:
  "0 \<le> t \<Longrightarrow> \<bar>t * 10 ^ 6 - of_int k\<bar> < 1 / 2 \<Longrightarrow> numeric_round 6 t = of_int k / 10 ^ 6"
proof -
  assume "0 \<le> t" "\<bar>t * 10 ^ 6 - of_int k\<bar> < 1 / 2"
  moreover from this(2) have "\<lfloor>t * 10 ^ 6 + 1 / 2\<rfloor> = k"
    unfolding floor_eq_iff abs_less_iff by linarith
  ultimately show ?thesis by (simp add: numeric_round_def)
qed

lemma millionths:
  assumes k: "0 \<le> k" "k \<le> 999999000000"
  defines "r \<equiv> fl (of_int k / 1000000)"
  shows "round6 r = r" "numeric_column r = Some (of_int k / 1000000)" "is_double r" "0 \<le> r" "r \<le> max_rate"
proof -
  let ?x = "of_int k / 1000000 :: rat"
  have x: "0 \<le> ?x" "?x \<le> 999999" using k by (simp_all add: divide_le_eq)
  show "is_double r" by (simp add: r_def)
  show r0: "0 \<le> r" using x by (simp add: r_def fl_nonneg)
  have "is_double 999999" using fl_of_int[of 999999] by simp
  then show "r \<le> max_rate" unfolding r_def max_rate_def using x(2) by (intro fl_le_double) simp_all
  have goal: "round6 r = r \<and> numeric_column r = Some ?x"
  proof (cases "k = 0")
    case True
    have "\<lfloor>1 / 2 :: rat\<rfloor> = 0" by (simp add: floor_eq_iff)
    then show ?thesis using True by (simp add: r_def round6_def js_round_def numeric_column_def pg_numeric_def)
  next
    case False
    then have one: "1 \<le> k" using k by simp
    then have x1: "1 / 1000000 \<le> ?x" by (simp add: divide_le_eq)
    have rx: "\<bar>r - ?x\<bar> \<le> ?x / 2 ^ 53" unfolding r_def by (rule fl_close) (use x1 in simp)
    have "?x / 2 ^ 53 \<le> 1 / 1000000000" using x(2) by simp
    then have rx': "?x - r \<le> 1 / 1000000000" "r - ?x \<le> 1 / 1000000000"
      using rx unfolding abs_le_iff by linarith+
    have r8: "1 / 100000000 \<le> r" and r20: "r \<le> 1000000" using rx' x1 x(2) by linarith+
    let ?t = "num_text r"
    have t: "0 \<le> ?t" "fl ?t = r"
      using num_text_nonneg[OF \<open>is_double r\<close> r0] fl_num_text[OF \<open>is_double r\<close>] by simp_all
    have tr: "\<bar>?t - r\<bar> \<le> r / 2 ^ 52" by (rule read_back_close[OF t]) (use r8 in simp)
    have "r / 2 ^ 52 \<le> 1 / 1000000000" using r20 by simp
    then have "?t - r \<le> 1 / 1000000000" "r - ?t \<le> 1 / 1000000000" using tr unfolding abs_le_iff by linarith+
    moreover have xk: "?x * 1000000 = of_int k" by simp
    ultimately have "\<bar>?t * 1000000 - of_int k\<bar> < 1 / 2"
      using rx' unfolding abs_less_iff by linarith
    then have "\<bar>?t * 10 ^ 6 - of_int k\<bar> < 1 / 2" by simp
    then have near: "numeric_round 6 ?t = ?x" using numeric_round_near[OF t(1)] by simp
    have "\<bar>?x\<bar> < 10 ^ (12 - 6)" using x by simp
    then have col: "numeric_column r = Some ?x"
      unfolding numeric_column_def pg_numeric_def Let_def near by (rule if_P)
    let ?z = "r * 1000000"
    have z: "1 / 10 ^ 9 \<le> ?z" using r8 by simp
    have "?z / 2 ^ 53 \<le> 1 / 1000" using r20 by simp
    then have "fl ?z - ?z \<le> 1 / 1000" "?z - fl ?z \<le> 1 / 1000"
      using fl_close[OF z] unfolding abs_le_iff by linarith+
    then have "\<bar>fl ?z - of_int k\<bar> < 1 / 2"
      using rx' xk unfolding abs_less_iff by linarith
    then have "js_round (js_mul r 1000000) = of_int k" unfolding js_mul_def by (rule js_round_near)
    then have "round6 r = r" by (simp add: round6_def js_div_def r_def)
    then show ?thesis using col by blast
  qed
  then show "round6 r = r" "numeric_column r = Some ?x" by blast+
qed

text \<open>A rate in range, once rounded, is stable and comes back from the column as itself.\<close>

lemma round6_stored:
  assumes "rate_in_range n"
  shows "round6 (round6 n) = round6 n" "\<exists>c. numeric_column (round6 n) = Some c \<and> fl c = round6 n"
    "rate_in_range (round6 n)"
proof -
  let ?y = "js_mul n 1000000"
  let ?k = "\<lfloor>?y + 1 / 2\<rfloor>"
  have n: "0 \<le> n" "n \<le> 999999" using assms by (simp_all add: rate_in_range_def max_rate_def)
  have "0 \<le> ?y" using n by (simp add: js_mul_nonneg)
  moreover have "is_double 999999000000" using fl_of_int[of 999999000000] by simp
  then have "?y \<le> 999999000000" unfolding js_mul_def using n by (intro fl_le_double) simp_all
  ultimately have k: "0 \<le> ?k" "?k \<le> 999999000000" by linarith+
  have r: "round6 n = fl (of_int ?k / 1000000)" by (simp add: round6_def js_div_def js_round_def)
  note * = millionths[OF k, folded r]
  show "round6 (round6 n) = round6 n" by (rule *(1))
  show "\<exists>c. numeric_column (round6 n) = Some c \<and> fl c = round6 n" using *(2) r by metis
  show "rate_in_range (round6 n)" using *(3-5) by (simp add: rate_in_range_def)
qed

section \<open>Posting a price twice\<close>

lemma round6_rates_in_range:
  assumes "full_rates_in_range f"
  shows "full_rates_in_range (round6_rates f)" "round6_rates (round6_rates f) = round6_rates f"
  using assms by (simp_all add: full_rates_in_range_def round6_rates_def round6_stored)

text \<open>The stored row shows exactly the rates that were bound.\<close>

lemma insert_price_rates:
  assumes "insert_price dr m who p d = Some (row, d')" and p: "full_rates_in_range q" "full_rates.truncate p = round6_rates q"
  shows "row_rates (to_stored row) = round6_rates q" "mp_model row = np_model p"
    "db_prices d' = db_prices d @ [row]"
    "(case np_valid_from p of None \<Rightarrow> Some (pm_pg_now m) | Some t \<Rightarrow> bind_date dr t) = Some (mp_valid_from row)"
proof -
  have eqs: "input_rate p = round6 (input_rate q)" "output_rate p = round6 (output_rate q)"
    "cache_read_rate p = round6 (cache_read_rate q)" "cache_write_rate p = round6 (cache_write_rate q)"
    "per_request_rate p = round6 (per_request_rate q)"
    using p(2) by (simp_all add: full_rates.truncate_def round6_rates_def)
  have reads: "fl c = round6 x" if "rate_in_range x" "numeric_column (round6 x) = Some c" for x c
    using round6_stored(2)[OF that(1)] that(2) by auto
  note r = p(1)[unfolded full_rates_in_range_def]
  from assms(1) show "row_rates (to_stored row) = round6_rates q" "mp_model row = np_model p"
    "db_prices d' = db_prices d @ [row]"
    "(case np_valid_from p of None \<Rightarrow> Some (pm_pg_now m) | Some t \<Rightarrow> bind_date dr t) = Some (mp_valid_from row)"
    using r reads
    by (auto simp: insert_price_def Let_def eqs row_rates_def to_stored_def round6_rates_def split: option.splits)
qed

lemma post_price_201:
  assumes "post_price env m d cache body = (Answer 201 v, d', cache')"
  obtains form row where
    "is_object body" "parse_price_form (pv_parse_date env) (pv_models env) (form_of (or_else body JNull)) = Inr form"
    "insert_price (pv_driver env) m (Some created_by_sync) (rounded_form form) d = Some (row, d')"
    "cache' = None"
  using assms unfolding post_price_def reload_price_table_def
  by (auto simp: Let_def clear_price_cache_def split: if_splits sum.splits option.splits)

text \<open>The same body again writes nothing, unless another row of the model starts between the new one and
  the moment looked at: the rates read back are the rates posted.\<close>

lemma post_price_again:
  assumes first: "post_price env m d cache body = (Answer 201 v, d', cache')"
    and parsed: "parse_price_form (pv_parse_date env) (pv_models env) (form_of (or_else body JNull)) = Inr form"
    and dates: "dates_exact (pv_driver env)" and clock: "js_date (pm_pg_now m) \<le> pm_now m'"
    and apart: "\<forall>q\<in>set (db_prices d). mp_model q = np_model form \<longrightarrow>
      js_date (mp_valid_from q) < or_else (np_valid_from form) (js_date (pm_pg_now m)) \<or>
      or_else (np_valid_from form) (pm_now m') < js_date (mp_valid_from q)"
  shows "\<exists>w c. post_price env m' d' cache'' body = (Answer 200 (True, w), d', c)"
proof -
  obtain row where form: "is_object body"
    "parse_price_form (pv_parse_date env) (pv_models env) (form_of (or_else body JNull)) = Inr form"
    and ins: "insert_price (pv_driver env) m (Some created_by_sync) (rounded_form form) d = Some (row, d')"
    using post_price_201[OF first] parsed by (metis Inr_inject)
  have range: "full_rates_in_range form" and model: "check_model (pv_models env) (np_model form) = None"
    using parse_price_form_Inr[OF form(2)] by simp_all
  note row = insert_price_rates[OF ins range rounded_form_simps(3)]
  let ?when = "or_else (np_valid_from form) (pm_now m')"
  let ?table = "load_prices (price_query (pv_rank env) (db_prices d'))"
  have from_row: "js_date (mp_valid_from row) = or_else (np_valid_from form) (js_date (pm_pg_now m))"
  proof (cases "np_valid_from form")
    case (Some t)
    then have "mp_valid_from row = pg_of_date t" using row(4) dates unfolding dates_exact_def by simp
    then show ?thesis using Some by simp
  qed (use row(4) in simp)
  then have started: "js_date (mp_valid_from row) \<le> ?when" using clock by (cases "np_valid_from form") simp_all
  have "pick_price ?table (np_model form) ?when = Some (to_stored row)"
  proof (rule loaded.pick_unique)
    show "to_stored row \<in> to_stored ` set (db_prices d')" by (simp add: row(3))
    show "row_model (to_stored row) = np_model form" using row(2) by (simp add: to_stored_def)
    show "valid_from (to_stored row) \<le> ?when" using started by (simp add: to_stored_def)
    fix q assume q: "q \<in> to_stored ` set (db_prices d')" "row_model q = np_model form" "valid_from q \<le> ?when"
      "q \<noteq> to_stored row"
    then obtain r where "r \<in> set (db_prices d)" "q = to_stored r" by (auto simp: row(3))
    then show "valid_from q < valid_from (to_stored row)" using apart q(2,3) from_row by (auto simp: to_stored_def)
  qed
  then obtain e where e: "effective_price (pv_models env) ?table (np_model form) ?when = Some e"
    "effective_rates e = Some (row_rates (to_stored row))"
    using model by (auto simp: effective_price_def check_model_def split: property.splits)
  have "map_option round6_rates (effective_rates e) = Some (round6_rates form)"
    using e(2) row(1) round6_rates_in_range(2)[OF range] by simp
  then show ?thesis
    unfolding post_price_def reload_price_table_def using form e(1) by (simp add: Let_def)
qed

text \<open>A post that is not a 201 leaves the price list alone; the list only grows.\<close>

lemma post_price_appends:
  assumes "post_price env m d cache body = (r, d', cache')"
  shows "d' = d \<or> (\<exists>row v. r = Answer 201 v \<and> d' = d\<lparr>db_prices := db_prices d @ [row]\<rparr> \<and> cache' = None \<and>
    mp_created_by row = Some created_by_sync)"
  using assms unfolding post_price_def reload_price_table_def
  by (auto simp: Let_def insert_price_def clear_price_cache_def split: if_splits sum.splits option.splits)

end
