(* ===== verification/Admin_Pages.thy ===== *)
theory Admin_Pages
  imports Internal_Prices "HOL-Library.Multiset"
begin

text \<open>
  The internal admin app (\<open>admin/src\<close>): the session gate, superuser minting and revoking
  (\<open>routes/keys.tsx\<close>, \<open>lib/keys.ts\<close>), the price page (\<open>routes/prices.tsx\<close>), the settings
  row (\<open>routes/settings.tsx\<close>) and spend across organisations (\<open>routes/usage.tsx\<close>).  The
  markup is left out: a page is the data it shows.
\<close>

section \<open>The session gate\<close>

record admin_user =
  au_id :: string
  au_email :: string
  au_name :: string

datatype page_error =
    Unauthorized_json
  | Go_to_login
  | Form_error string
  | Admin_sql_error
  | Admin_type_error
  | Admin_key_not_found
  | Team_and_label_required

definition require_session :: "admin_user option \<Rightarrow> string option \<Rightarrow> (page_error, admin_user) reply" where
  "require_session session accept =
     (case session of
        Some a \<Rightarrow> Answer 200 a
      | None \<Rightarrow> if contains ''application/json'' (or_else accept []) then Failure 401 Unauthorized_json
                else Failure 302 Go_to_login)"

section \<open>Keys\<close>

definition admin_list_keys :: "(key_row \<Rightarrow> int) \<Rightarrow> db \<Rightarrow> (key_row \<times> string) list" where
  "admin_list_keys rank d =
     concat (map (\<lambda>k. map (\<lambda>t. (k, kamuid_org_id t)) (filter (\<lambda>t. team_id t = key_team k) (db_teams d)))
       (sort_key (\<lambda>k. - key_created_at k) (sort_key rank (db_keys d))))"

text \<open>\<open>lib/keys.ts\<close>, a copy of the api's.\<close>

definition admin_generate_top_level_key :: "(bytes \<Rightarrow> bytes) \<Rightarrow> bytes \<Rightarrow> generated_key" where
  "admin_generate_top_level_key sha256 random =
     (let secret = ''sk_live_'' @ bytes_hex random
      in \<lparr>gen_secret = secret, gen_hash = bytes_hex (sha256 (text_encode secret)), gen_prefix = slice 0 12 secret\<rparr>)"

definition admin_name :: "admin_user \<Rightarrow> string" where
  "admin_name a = ''admin:'' @ au_email a"

text \<open>Both mint routes run the same two statements, each a transaction of its own: the insert, for
  which the team must exist, and the one that sets the root.  As in the api, the second may fail
  and leave the row, and others may commit in between.\<close>

definition admin_insert_key ::
  "(bytes \<Rightarrow> bytes) \<Rightarrow> bytes \<Rightarrow> uuid \<Rightarrow> pg_time \<Rightarrow> admin_user \<Rightarrow> db \<Rightarrow> uuid option \<Rightarrow> string \<Rightarrow>
     rat option \<Rightarrow> (generated_key \<times> db) option" where
  "admin_insert_key sha256 random i now a d team label budget =
     (case team of None \<Rightarrow> None | Some t \<Rightarrow>
      if find_team d t = None then None else
      let g = admin_generate_top_level_key sha256 random
      in Some (g, insert_key d (top_key_row i t label g [''*''] budget None None (admin_name a) now)))"

definition admin_set_root :: "pg_time \<Rightarrow> uuid \<Rightarrow> db \<Rightarrow> db" where
  "admin_set_root now i =
     update_keys (\<lambda>r. key_id r = i) (\<lambda>r. r\<lparr>key_root := Some (key_id r), key_updated_at := now\<rparr>)"

definition admin_mint ::
  "(bytes \<Rightarrow> bytes) \<Rightarrow> bytes \<Rightarrow> uuid \<Rightarrow> pg_time \<Rightarrow> (pg_time \<times> (db \<Rightarrow> db)) option \<Rightarrow> admin_user \<Rightarrow> db \<Rightarrow> uuid option \<Rightarrow>
     string \<Rightarrow> rat option \<Rightarrow> (page_error, uuid \<times> generated_key) reply \<times> db" where
  "admin_mint sha256 random i now second a d team label budget =
     (case admin_insert_key sha256 random i now a d team label budget of
        None \<Rightarrow> (Failure 500 Admin_sql_error, d)
      | Some (g, d1) \<Rightarrow>
          (case second of
             None \<Rightarrow> (Failure 500 Admin_sql_error, d1)
           | Some (now', others) \<Rightarrow> (Answer 201 (i, g), admin_set_root now' i (others d1))))"

text \<open>A form field of the page; \<open>NUMERIC(12, 4)\<close> for the budget.\<close>

definition budget_column :: "js_num option \<Rightarrow> rat option option" where
  "budget_column b =
     (case b of None \<Rightarrow> Some None | Some (Fin x) \<Rightarrow> map_option Some (pg_numeric 12 4 (num_text x)) | _ \<Rightarrow> None)"

definition form_budget :: "form \<Rightarrow> string \<Rightarrow> js_num option" where
  "form_budget form name = (let raw = field form name in if raw = [] then None else Some (js_number raw))"

definition admin_post_keys ::
  "(bytes \<Rightarrow> bytes) \<Rightarrow> bytes \<Rightarrow> uuid \<Rightarrow> pg_time \<Rightarrow> (pg_time \<times> (db \<Rightarrow> db)) option \<Rightarrow> admin_user \<Rightarrow> db \<Rightarrow> form \<Rightarrow>
     (page_error, uuid \<times> generated_key) reply \<times> db" where
  "admin_post_keys sha256 random i now second a d form =
     (let team = or_else (form ''team_id'') []; label = field form ''label''; budget = form_budget form ''budget_usd''
      in if team = [] \<or> label = [] then (Failure 302 (Form_error ''team_id and label are required''), d)
         else if (case budget of None \<Rightarrow> False | Some b \<Rightarrow> \<not> is_finite b)
              then (Failure 302 (Form_error ''budget_usd must be a number''), d)
         else case budget_column budget of
                None \<Rightarrow> (Failure 500 Admin_sql_error, d)
              | Some b \<Rightarrow> admin_mint sha256 random i now second a d (pg_uuid team) label b)"

text \<open>The JSON route checks only that both names are truthy; what is bound is the driver's.\<close>

definition admin_api_post_keys ::
  "driver \<Rightarrow> (json \<Rightarrow> string) \<Rightarrow> (bytes \<Rightarrow> bytes) \<Rightarrow> bytes \<Rightarrow> uuid \<Rightarrow> pg_time \<Rightarrow> (pg_time \<times> (db \<Rightarrow> db)) option \<Rightarrow>
     admin_user \<Rightarrow> db \<Rightarrow> json option \<Rightarrow> (page_error, uuid \<times> generated_key) reply \<times> db" where
  "admin_api_post_keys dr bind_text sha256 random i now second a d body =
     (case body of None \<Rightarrow> (Failure 500 Admin_type_error, d) | Some b \<Rightarrow>
      if b = JNull then (Failure 500 Admin_type_error, d)
      else if \<not> js_truthy (field_of b ''team_id'') \<or> \<not> js_truthy (field_of b ''label'')
      then (Failure 400 Team_and_label_required, d)
      else case bind_opt (bind_budget dr) (field_of b ''budget_usd'') of
             None \<Rightarrow> (Failure 500 Admin_sql_error, d)
           | Some budget \<Rightarrow>
               admin_mint sha256 random i now second a d (bind_uuid dr (field_of b ''team_id''))
                 (bind_text (field_of b ''label'')) budget)"

definition admin_revoke :: "pg_time \<Rightarrow> admin_user \<Rightarrow> db \<Rightarrow> string \<Rightarrow> (page_error, nat) reply \<times> db" where
  "admin_revoke now a d id_text =
     (case pg_uuid id_text of None \<Rightarrow> (Failure 500 Admin_sql_error, d) | Some i \<Rightarrow>
        (let n = length (filter (in_subtree i) (db_keys d)) in
         if n = 0 then (Failure 404 Admin_key_not_found, d)
         else (Answer 200 n,
               update_keys (in_subtree i)
                 (\<lambda>k. k\<lparr>key_status := Revoked, key_revoked_at := Some now,
                        key_revoked_by := Some (admin_name a), key_updated_at := now\<rparr>) d)))"

section \<open>Prices\<close>

text \<open>The page orders rows of equal \<open>valid_from\<close> by \<open>created_at\<close>, the api does not.\<close>

definition admin_price_query :: "(price_db_row \<Rightarrow> int) \<Rightarrow> price_db_row list \<Rightarrow> price_db_row list" where
  "admin_price_query rank rows =
     sort_key (\<lambda>r. - mp_valid_from r) (sort_key (\<lambda>r. - mp_created_at r) (sort_key rank rows))"

definition admin_load_table :: "(price_db_row \<Rightarrow> int) \<Rightarrow> price_db_row list \<Rightarrow> stored_price price_map" where
  "admin_load_table rank rows = load_prices (admin_price_query rank rows)"

record price_page =
  pg_selected :: "effective option"
  pg_history :: "stored_price list"
  pg_current :: "uuid option"
  pg_lines :: "(string \<times> effective option \<times> nat) list"

definition price_page_of :: "catalog \<Rightarrow> stored_price price_map \<Rightarrow> js_time \<Rightarrow> string option \<Rightarrow> price_page" where
  "price_page_of models table now selected =
     (let sel = (case selected of
                   None \<Rightarrow> None
                 | Some m \<Rightarrow> if m = [] \<or> get_model models m = Absent then None
                             else effective_price models table m now)
      in \<lparr>pg_selected = sel,
          pg_history = (if sel = None then [] else or_else (table (or_else selected [])) []),
          pg_current = (case sel of Some (Eff_db _ _ _ row) \<Rightarrow> Some (row_id row) | _ \<Rightarrow> None),
          pg_lines = map (\<lambda>(m, _). (m, effective_price models table m now, length (or_else (table m) []))) models\<rparr>)"

definition admin_post_price ::
  "price_env \<Rightarrow> price_moment \<Rightarrow> admin_user \<Rightarrow> db \<Rightarrow> form \<Rightarrow> (price_reply_error, unit) reply \<times> db" where
  "admin_post_price env m a d form =
     (case parse_price_form (pv_parse_date env) (pv_models env) form of
        Inl e \<Rightarrow> (Failure 302 (Invalid_price e), d)
      | Inr p \<Rightarrow>
          (case insert_price (pv_driver env) m (Some (admin_name a)) p d of
             None \<Rightarrow> (Failure 500 Price_sql_error, d)
           | Some (_, d') \<Rightarrow> (Answer 302 (), d')))"

section \<open>Settings\<close>

text \<open>\<open>Number(budget)\<close> is not checked: \<open>NaN\<close> is a value of the column, an infinity is not.\<close>

definition settings_budget :: "js_num option \<Rightarrow> js_num option option" where
  "settings_budget b =
     (case b of
        None \<Rightarrow> Some None
      | Some NaN \<Rightarrow> Some (Some NaN)
      | Some (Fin x) \<Rightarrow> map_option (\<lambda>y. Some (Fin y)) (pg_numeric 12 4 (num_text x))
      | Some (Infinity _) \<Rightarrow> None)"

definition post_settings :: "pg_time \<Rightarrow> admin_user \<Rightarrow> db \<Rightarrow> form \<Rightarrow> (page_error, unit) reply \<times> db" where
  "post_settings now a d form =
     (case settings_budget (form_budget form ''default_budget_usd'') of
        None \<Rightarrow> (Failure 500 Admin_sql_error, d)
      | Some b \<Rightarrow>
          (Answer 302 (),
           d\<lparr>db_settings :=
               \<lparr>disabled_models = filter (\<lambda>s. s \<noteq> [])
                  (map js_trim (split_on CHR '','' (or_else (form ''disabled_models'') []))),
                default_budget = b, settings_updated_at = now, settings_updated_by = Some (au_email a)\<rparr>\<rparr>))"

section \<open>Usage\<close>

record org_spend =
  os_org :: string
  os_team :: string
  os_total :: rat
  os_requests :: nat

definition team_usage :: "db \<Rightarrow> uuid \<Rightarrow> usage_row list" where
  "team_usage d t =
     concat (map (\<lambda>k. filter (\<lambda>u. ul_key_id u = key_id k) (db_usage d)) (filter (\<lambda>k. key_team k = t) (db_keys d)))"

definition spend_by_org :: "(org_spend \<Rightarrow> int) \<Rightarrow> db \<Rightarrow> org_spend list" where
  "spend_by_org rank d =
     sort_key (\<lambda>s. - os_total s) (sort_key rank
       (map (\<lambda>t. \<lparr>os_org = kamuid_org_id t, os_team = team_name t,
                  os_total = sum_list (map cost_of (team_usage d (team_id t))),
                  os_requests = length (team_usage d (team_id t))\<rparr>) (db_teams d)))"

record recent_usage =
  ru_org :: string
  ru_team :: string
  ru_key :: key_row
  ru_row :: usage_row

definition recent_rows :: "(usage_row \<Rightarrow> int) \<Rightarrow> nat \<Rightarrow> db \<Rightarrow> recent_usage list" where
  "recent_rows rank n d =
     take n (concat (map (\<lambda>u. concat (map (\<lambda>k. map (\<lambda>t.
           \<lparr>ru_org = kamuid_org_id t, ru_team = team_name t, ru_key = k, ru_row = u\<rparr>)
         (filter (\<lambda>t. team_id t = key_team k) (db_teams d)))
       (filter (\<lambda>k. key_id k = ul_key_id u) (db_keys d))))
     (sort_key (\<lambda>u. - ul_created_at u) (sort_key rank (db_usage d)))))"

section \<open>What the admin app shares with the api\<close>

text \<open>The copied key generator has not drifted.\<close>

lemma admin_generate_same: "admin_generate_top_level_key = generate_top_level_key"
  by (simp add: fun_eq_iff admin_generate_top_level_key_def generate_top_level_key_def prefix_live_def hash_key_def)

lemma admin_set_root_same: "admin_set_root = set_root"
  by (simp add: fun_eq_iff admin_set_root_def set_root_def)

text \<open>The row the first statement leaves: a top-level key without a root.\<close>

lemma admin_insert_key_Some:
  assumes "admin_insert_key sha256 random i now a d team label budget = Some (g, d1)"
  shows "\<exists>t k. team = Some t \<and> find_team d t \<noteq> None \<and> g = generate_top_level_key sha256 random \<and>
    d1 = insert_key d k \<and> key_id k = i \<and> key_team k = t \<and> key_kind k = Top \<and> top_ok k \<and> key_root k = None \<and>
    key_parent k = None \<and> key_hash k = Some (gen_hash g) \<and> key_status k = Active \<and> key_expires_at k = None"
  using assms
  by (auto simp: admin_insert_key_def admin_generate_same Let_def top_key_row_def top_ok_def split: option.splits if_splits)

lemma admin_insert_key_ok [wf_intros]:
  assumes "admin_insert_key sha256 random i now a d team label budget = Some (g, d1)" "keys_ok d" "\<not> key_exists d i"
  shows "keys_ok d1"
proof -
  obtain k where "d1 = insert_key d k" "key_id k = i" "key_kind k = Top" "top_ok k"
    using admin_insert_key_Some[OF assms(1)] by blast
  then show ?thesis using keys_ok_insert_top[OF assms(2), of k d1] assms(3) by (simp add: insert_key_def)
qed

text \<open>The three ways an admin mint ends.\<close>

lemma admin_mint_cases:
  assumes "admin_mint sha256 random i now second a d team label budget = (r, d')"
  obtains (refused) "admin_insert_key sha256 random i now a d team label budget = None"
      "r = Failure 500 Admin_sql_error" "d' = d"
    | (rootless) g d1 where "admin_insert_key sha256 random i now a d team label budget = Some (g, d1)"
      "second = None" "r = Failure 500 Admin_sql_error" "d' = d1"
    | (minted) g d1 now' others where "admin_insert_key sha256 random i now a d team label budget = Some (g, d1)"
      "second = Some (now', others)" "r = Answer 201 (i, g)" "d' = set_root now' i (others d1)"
proof (cases "admin_insert_key sha256 random i now a d team label budget")
  case None
  have "r = Failure 500 Admin_sql_error" "d' = d" using assms by (simp_all add: admin_mint_def None)
  then show ?thesis by (rule refused[OF None])
next
  case (Some p)
  obtain g d1 where p: "p = (g, d1)" by (cases p)
  note ins = Some[unfolded p]
  show ?thesis
  proof (cases second)
    case None
    have "r = Failure 500 Admin_sql_error" "d' = d1" using assms by (simp_all add: admin_mint_def ins None)
    then show ?thesis by (rule rootless[OF ins None])
  next
    case (Some x)
    obtain now' others where x: "x = (now', others)" by (cases x)
    have "r = Answer 201 (i, g)" "d' = set_root now' i (others d1)"
      using assms by (simp_all add: admin_mint_def ins Some x admin_set_root_same)
    then show ?thesis by (rule minted[OF ins Some[unfolded x]])
  qed
qed

text \<open>Where the api lets a user revoke, the admin revoke does the same to every row, up to
  the name it records.\<close>

lemma admin_revoke_agrees:
  assumes "revoke_key now user d id_text = (Answer st n, d1)"
  shows "\<exists>d2. admin_revoke now a d id_text = (Answer st n, d2) \<and>
    map (\<lambda>k. k\<lparr>key_revoked_by := None\<rparr>) (db_keys d2) = map (\<lambda>k. k\<lparr>key_revoked_by := None\<rparr>) (db_keys d1) \<and>
    db_usage d2 = db_usage d1 \<and> db_spend d2 = db_spend d1"
proof -
  obtain i where i: "pg_uuid id_text = Some i" "st = 200" "n = length (filter (in_subtree i) (db_keys d))"
    "\<exists>k\<in>set (visible_keys d user). key_id k = i"
    "d1 = update_keys (in_subtree i) (\<lambda>k. k\<lparr>key_status := Revoked, key_revoked_at := Some now,
        key_revoked_by := Some user, key_updated_at := now\<rparr>) d"
    using revoke_key_Answer[OF assms] by metis
  then have "filter (in_subtree i) (db_keys d) \<noteq> []"
    by (auto simp: filter_empty_conv visible_keys_iff in_subtree_def)
  then show ?thesis using i by (simp add: admin_revoke_def frame_simps) (simp add: update_keys_def)
qed

section \<open>The page shows the price ingest charges\<close>

lemma sorted_key_unique:
  fixes f :: "'a \<Rightarrow> 'b::linorder"
  assumes "sorted (map f xs)" "sorted (map f ys)" "mset xs = mset ys" "distinct (map f xs)"
  shows "xs = ys"
proof -
  have set: "set xs = set ys" using assms(3) by (rule mset_eq_setD)
  have "distinct (map f ys)" using assms(3,4) by (metis mset_eq_imp_distinct_iff mset_map)
  then have "map f xs = map f ys"
    using assms(1,2,4) set by (intro sorted_distinct_set_unique) simp_all
  moreover have "inj_on f (set xs \<union> set ys)" using assms(4) set by (simp add: distinct_map)
  ultimately show ?thesis by (rule map_inj_on)
qed

lemma admin_table_agrees:
  assumes "distinct (map mp_valid_from (filter (\<lambda>r. mp_model r = m) rows))"
  shows "pick_price (admin_load_table rank rows) m t = pick_price (load_prices (price_query rank' rows)) m t"
proof -
  let ?P = "\<lambda>r. mp_model r = m" and ?f = "\<lambda>r. - mp_valid_from r"
  have "distinct (map ?f (filter ?P rows))"
    using assms by (simp add: distinct_map inj_on_def)
  then have "filter ?P (admin_price_query rank rows) = filter ?P (price_query rank' rows)"
    by (intro sorted_key_unique[of ?f] sorted_filter)
      (simp_all add: admin_price_query_def price_query_def filter_sort distinct_map inj_on_def)
  then show ?thesis by (simp add: pick_price_find admin_load_table_def load_prices_lookup)
qed

section \<open>Spend across organisations\<close>

lemma sum_list_sort_key:
  fixes w :: "'a \<Rightarrow> 'b::comm_monoid_add"
  shows "sum_list (map w (sort_key f xs)) = sum_list (map w xs)"
  by (metis mset_map mset_sort sum_mset_sum_list)

text \<open>Rows split by a key that is one of a list without repetition add up to all of them.\<close>

lemma sum_by_key:
  fixes w :: "'b \<Rightarrow> 'c::comm_monoid_add"
  assumes "distinct ks" "\<And>u. u \<in> set us \<Longrightarrow> f u \<in> set ks"
  shows "sum_list (map (\<lambda>k. sum_list (map w (filter (\<lambda>u. f u = k) us))) ks) = sum_list (map w us)"
  using assms(2)
proof (induction us)
  case (Cons u us)
  have "sum_list (map (\<lambda>k. if f u = k then w u else 0) ks) = w u"
  proof -
    have zero: "sum_list (map (\<lambda>k. if x = k then w u else 0) zs) = 0" if "x \<notin> set zs" for x zs
      using that by (induction zs) auto
    have "sum_list (map (\<lambda>k. if x = k then w u else 0) zs) = w u" if "x \<in> set zs" "distinct zs" for x zs
      using that by (induction zs) (auto simp: zero)
    then show ?thesis using Cons.prems[of u] assms(1) by simp
  qed
  moreover have "sum_list (map (\<lambda>k. sum_list (map w (filter (\<lambda>v. f v = k) (u # us)))) ks) =
      sum_list (map (\<lambda>k. (if f u = k then w u else 0) + sum_list (map w (filter (\<lambda>v. f v = k) us))) ks)"
    by (intro arg_cong[of _ _ sum_list] map_cong refl) auto
  ultimately show ?case using Cons by (simp add: sum_list_addf)
qed simp

text \<open>Every stored row is in the spend of exactly one organisation.\<close>

lemma sum_concat_map: "sum_list (map w (concat (map g xs))) = sum_list (map (\<lambda>x. sum_list (map w (g x))) xs)"
  for w :: "'b \<Rightarrow> 'c::comm_monoid_add"
  by (induction xs) simp_all

lemma spend_by_org_total:
  assumes "distinct (map team_id (db_teams d))" "distinct (map key_id (db_keys d))"
    and keys: "\<And>u. u \<in> set (db_usage d) \<Longrightarrow> key_exists d (ul_key_id u)"
    and teams: "\<And>k. k \<in> set (db_keys d) \<Longrightarrow> key_team k \<in> team_id ` set (db_teams d)"
  shows "sum_list (map os_total (spend_by_org rank d)) = sum_list (map cost_of (db_usage d))"
proof -
  let ?spend = "\<lambda>k. sum_list (map cost_of (filter (\<lambda>u. ul_key_id u = k) (db_usage d)))"
  have team: "sum_list (map cost_of (team_usage d t)) = sum_list (map (\<lambda>k. ?spend (key_id k)) (filter (\<lambda>k. key_team k = t) (db_keys d)))" for t
    by (simp add: team_usage_def sum_concat_map)
  have "sum_list (map os_total (spend_by_org rank d)) = sum_list (map (\<lambda>t. sum_list (map cost_of (team_usage d t))) (map team_id (db_teams d)))"
    by (simp add: spend_by_org_def sum_list_sort_key comp_def)
  also have "\<dots> = sum_list (map (\<lambda>k. ?spend (key_id k)) (db_keys d))"
    unfolding team by (rule sum_by_key[OF assms(1)]) (use teams in auto)
  also have "\<dots> = sum_list (map ?spend (map key_id (db_keys d)))" by (simp add: comp_def)
  also have "\<dots> = sum_list (map cost_of (db_usage d))"
    by (rule sum_by_key[OF assms(2)]) (use keys in \<open>simp add: key_exists_def\<close>)
  finally show ?thesis .
qed

text \<open>An unchecked \<open>Number\<close> stores \<open>NaN\<close> as the default budget.\<close>

lemma settings_store_NaN:
  assumes "js_number (field form ''default_budget_usd'') = NaN" "field form ''default_budget_usd'' \<noteq> []"
  shows "fst (post_settings now a d form) = Answer 302 ()"
    "default_budget (db_settings (snd (post_settings now a d form))) = Some NaN"
  using assms by (simp_all add: post_settings_def settings_budget_def form_budget_def Let_def)

end
