(* ===== verification/System.thy ===== *)
theory System
  imports Usage_Poller Admin_Pages Teams_Sync
begin

text \<open>
  The control plane as one state machine: the transactions that all the handlers, the admin
  pages and the poller run against the database, in any order.  Between two of them
  anything may happen, so what is read in an earlier statement is only known to have
  held once, and a mint is two steps, of which the second may never come.
\<close>

section \<open>The transactions\<close>

text \<open>A generated id is not a key's, nor the root a usage row of a deleted key names.\<close>

definition fresh_key :: "db \<Rightarrow> uuid \<Rightarrow> bool" where
  "fresh_key d i \<longleftrightarrow> \<not> key_exists d i \<and> (\<forall>u\<in>set (db_usage d). ul_root u \<noteq> Some i)"

text \<open>\<open>derive\<close> read its parent in an earlier statement: the row may have changed since, but
  its lineage has at most got its root.\<close>

definition read_earlier :: "db \<Rightarrow> key_row \<Rightarrow> bool" where
  "read_earlier d p \<longleftrightarrow> key_kind p = Top \<and> (\<exists>q\<in>set (db_keys d). keeps_lineage p q)"

text \<open>The id of a mint's second statement is that of the row its first one inserted.\<close>

definition top_only :: "db \<Rightarrow> uuid \<Rightarrow> bool" where
  "top_only d i \<longleftrightarrow> (\<forall>k\<in>set (db_keys d). key_id k = i \<longrightarrow> key_kind k = Top)"

inductive system_step :: "db \<Rightarrow> db \<Rightarrow> bool" where
  mints: "fresh_key d i \<Longrightarrow> create_insert dr sha256 random i now user d body = (r, d') \<Longrightarrow> system_step d d'"
| roots: "top_only d i \<Longrightarrow> system_step d (set_root now i d)"
| derives: "fresh_key d i \<Longrightarrow> read_earlier d p \<Longrightarrow> derive_tx e dr i now p rq d = (out, d') \<Longrightarrow> system_step d d'"
| revokes: "revoke_key now user d id_text = (r, d') \<Longrightarrow> system_step d d'"
| admin_mints: "fresh_key d i \<Longrightarrow>
    admin_insert_key sha256 random i now a d team label budget = Some (g, d') \<Longrightarrow> system_step d d'"
| admin_roots: "top_only d i \<Longrightarrow> system_step d (admin_set_root now i d)"
| admin_revokes: "admin_revoke now a d id_text = (reply, d') \<Longrightarrow> system_step d d'"
| ingests: "page_tx now d rows = Some (n, d') \<Longrightarrow> system_step d d'"
| syncs: "sync_statement user d d' \<Longrightarrow> system_step d d'"
| prices: "insert_price dr m who p d = Some (row, d') \<Longrightarrow> system_step d d'"
| settings: "post_settings now a d form = (reply, d') \<Longrightarrow> system_step d d'"

inductive_cases system_stepE: "system_step d d'"

section \<open>The invariant\<close>

text \<open>No active key has been charged up to its budget.\<close>

definition budgets_ok :: "db \<Rightarrow> bool" where
  "budgets_ok d \<longleftrightarrow> (\<forall>k\<in>set (db_keys d). key_status k = Active \<longrightarrow> charges (db_usage d) (key_id k) \<noteq> [] \<longrightarrow>
     \<not> past_budget d k)"

definition system_ok :: "db \<Rightarrow> bool" where
  "system_ok d \<longleftrightarrow> keys_ok d \<and> ledger_ok d \<and> budgets_ok d"

text \<open>What a row may turn into: its lineage is kept, its models and budget stay, a revoked row stays
  revoked and no row comes back to active.\<close>

definition key_evolves :: "key_row \<Rightarrow> key_row \<Rightarrow> bool" where
  "key_evolves a b \<longleftrightarrow> keeps_lineage a b \<and> key_models b = key_models a \<and> key_budget b = key_budget a \<and>
     (key_status a = Revoked \<longrightarrow> key_status b = Revoked) \<and> (key_status b = Active \<longrightarrow> key_status a = Active)"

definition evolves :: "db \<Rightarrow> db \<Rightarrow> bool" where
  "evolves d d' \<longleftrightarrow> set (db_usage d) \<subseteq> set (db_usage d') \<and>
     (\<exists>bs new. db_keys d' = bs @ new \<and> list_all2 key_evolves (db_keys d) bs)"

lemma key_evolves_refl [simp]: "key_evolves k k"
  by (simp add: key_evolves_def)

lemma key_evolves_trans: "key_evolves a b \<Longrightarrow> key_evolves b c \<Longrightarrow> key_evolves a c"
  unfolding key_evolves_def by (elim conjE, intro conjI impI) (simp_all add: keeps_lineage_trans[of a b c])

lemma evolves_same_keys:
  "db_keys d' = db_keys d \<Longrightarrow> set (db_usage d) \<subseteq> set (db_usage d') \<Longrightarrow> evolves d d'"
  unfolding evolves_def by (intro conjI exI[of _ "db_keys d"] exI[of _ "[]"]) (simp_all add: list_all2_refl)

lemma evolves_trans:
  assumes "evolves a b" "evolves b c"
  shows "evolves a c"
proof -
  obtain xs xn ys yn where b: "db_keys b = xs @ xn" "list_all2 key_evolves (db_keys a) xs"
    and c: "db_keys c = ys @ yn" "list_all2 key_evolves (xs @ xn) ys"
    using assms by (auto simp: evolves_def)
  from c(2) obtain zs zn where z: "ys = zs @ zn" "list_all2 key_evolves xs zs"
    unfolding list_all2_append1 by blast
  have "list_all2 key_evolves (db_keys a) zs"
    by (rule list_all2_trans[OF _ b(2) z(2)]) (rule key_evolves_trans)
  then show ?thesis using assms c(1) z(1) by (auto simp: evolves_def)
qed

lemma evolves_map:
  assumes "db_keys d' = map f (db_keys d)" "\<And>k. k \<in> set (db_keys d) \<Longrightarrow> key_evolves k (f k)"
    and "set (db_usage d) \<subseteq> set (db_usage d')"
  shows "evolves d d'"
  unfolding evolves_def using assms
  by (intro conjI exI[of _ "map f (db_keys d)"] exI[of _ "[]"]) (simp_all add: list_all2_map2 list_all2_same)

lemma evolves_keys:
  assumes "evolves d d'" "k \<in> set (db_keys d)"
  shows "\<exists>k'\<in>set (db_keys d'). key_evolves k k'"
proof -
  obtain bs new where d': "db_keys d' = bs @ new" and bs: "list_all2 key_evolves (db_keys d) bs"
    using assms(1) by (auto simp: evolves_def)
  from bs assms(2) have "\<exists>k'\<in>set bs. key_evolves k k'"
    by (induction rule: list_all2_induct) auto
  then show ?thesis unfolding d' by auto
qed

section \<open>The shapes of a transaction\<close>

text \<open>A transaction adds an active key, takes keys out of service, ingests, or leaves keys and
  usage alone; each shape keeps the invariant.\<close>

lemma system_ok_frame:
  assumes "system_ok d" "db_keys d' = db_keys d" "db_usage d' = db_usage d" "db_spend d' = db_spend d"
  shows "system_ok d'"
proof -
  have "key_exists d' = key_exists d" "stored_spend d' = stored_spend d" "past_budget d' = past_budget d"
    using assms(2,4) by (simp_all add: fun_eq_iff key_exists_def stored_spend_def past_budget_def split: option.split)
  then show ?thesis
    using assms keys_ok_frame[of d d'] by (simp add: system_ok_def ledger_ok_def budgets_ok_def usage_ids_def)
qed

lemma system_ok_update:
  assumes ok: "system_ok d" and f: "\<And>k. k \<in> set (db_keys d) \<Longrightarrow> P k \<Longrightarrow> key_evolves k (f k)"
  shows "system_ok (update_keys P f d)"
proof -
  let ?d = "update_keys P f d"
  have g: "keeps_lineage k (f k)" "key_budget (f k) = key_budget k" "key_status (f k) = Active \<Longrightarrow> key_status k = Active"
    if "k \<in> set (db_keys d)" "P k" for k using f[OF that] by (simp_all add: key_evolves_def)
  have ids: "map key_id (db_keys ?d) = map key_id (db_keys d)"
    using keeps_lineageD(1)[OF g(1)] by (simp add: update_keys_def)
  have "key_exists ?d = key_exists d"
    using arg_cong[OF ids, of set] by (auto simp: key_exists_def fun_eq_iff simp flip: set_map)
  moreover have spend: "stored_spend ?d = stored_spend d" by (simp add: fun_eq_iff stored_spend_def frame_simps)
  ultimately have "ledger_ok ?d"
    using ok unfolding system_ok_def ledger_ok_def usage_ids_def frame_simps by (elim conjE) (intro conjI; simp)
  moreover have "budgets_ok ?d"
    unfolding budgets_ok_def frame_simps
  proof (intro ballI impI)
    fix k assume "k \<in> set (db_keys ?d)" and k: "key_status k = Active" "charges (db_usage d) (key_id k) \<noteq> []"
    then obtain k0 where k0: "k0 \<in> set (db_keys d)" "k = (if P k0 then f k0 else k0)"
      unfolding set_update_keys by blast
    have same: "key_status k0 = Active" "key_id k0 = key_id k" "key_budget k = key_budget k0"
      using k(1) k0 g(2,3)[OF k0(1)] keeps_lineageD(1)[OF g(1)[OF k0(1)]] by (auto split: if_splits)
    then have "\<not> past_budget d k0" using ok k(2) k0(1) unfolding system_ok_def budgets_ok_def by metis
    then show "\<not> past_budget ?d k" unfolding past_budget_def spend same by simp
  qed
  ultimately show ?thesis using ok keys_ok_update[OF _ g(1)] by (simp add: system_ok_def)
qed

lemma fresh_uncharged: "ledger_ok d \<Longrightarrow> fresh_key d i \<Longrightarrow> charges (db_usage d) i = []"
  by (auto simp: ledger_ok_def fresh_key_def charges_def billed_def charge_keys_def filter_empty_conv
      split: option.splits)

lemma ledger_ok_insert:
  assumes l: "ledger_ok d" and new: "fresh_key d (key_id k)"
  shows "ledger_ok (insert_key d k)"
proof -
  have ex: "key_exists (insert_key d k) j \<longleftrightarrow> key_exists d j \<or> j = key_id k" for j
    by (auto simp: key_exists_def insert_key_def)
  have spend: "stored_spend (insert_key d k) = stored_spend d" by (simp add: fun_eq_iff stored_spend_def frame_simps)
  have "db_spend d (key_id k) = None" using l new unfolding ledger_ok_def fresh_key_def by blast
  then have "stored_spend d (key_id k) = spend_of (db_usage d) (key_id k)"
    by (simp add: stored_spend_def spend_of_uncharged[OF fresh_uncharged[OF l new]])
  then show ?thesis using l by (auto simp: ledger_ok_def ex spend frame_simps usage_ids_def)
qed

lemma past_budget_insert: "past_budget (insert_key d k) = past_budget d"
  by (simp add: fun_eq_iff past_budget_def stored_spend_def frame_simps split: option.split)

lemma system_ok_insert:
  assumes ok: "system_ok d" and new: "fresh_key d (key_id k)" and keys: "keys_ok (insert_key d k)"
  shows "system_ok (insert_key d k)"
proof -
  have l: "ledger_ok d" using ok by (simp add: system_ok_def)
  have "budgets_ok (insert_key d k)"
    using ok fresh_uncharged[OF l new]
    by (auto simp: system_ok_def budgets_ok_def frame_simps past_budget_insert) (auto simp: insert_key_def)
  then show ?thesis using keys ledger_ok_insert[OF l new] by (simp add: system_ok_def)
qed

lemma system_ok_page:
  assumes ok: "system_ok d" and tx: "page_tx now d rows = Some (n, d')"
  shows "system_ok d'"
proof -
  define ins where "ins = fst (insert_rows (db_usage d) (filter (\<lambda>u. key_exists d (ul_key_id u)) rows))"
  note * = page_tx_Some[OF tx, folded ins_def] and keys = page_tx_keys[OF tx, folded ins_def]
  have "\<not> past_budget d' k'" if k': "k' \<in> set (db_keys d')" "key_status k' = Active"
    "charges (db_usage d') (key_id k') \<noteq> []" for k'
  proof -
    obtain k where k: "k \<in> set (db_keys d)"
      "k' = (if charges ins (key_id k) \<noteq> [] \<and> key_status k = Active \<and> past_budget d' k
        then k\<lparr>key_status := Over_budget, key_updated_at := now\<rparr> else k)"
      using k'(1) unfolding keys by auto
    have "k' = k \<and> (charges ins (key_id k) = [] \<or> \<not> past_budget d' k)"
    proof (cases "charges ins (key_id k) \<noteq> [] \<and> key_status k = Active \<and> past_budget d' k")
      case True
      then have "key_status k' = Over_budget" using k(2) by simp
      then show ?thesis using k'(2) by simp
    next
      case False
      then have "k' = k" using k(2) by (simp only: if_False)
      then show ?thesis using False k'(2) by blast
    qed
    then have same: "k' = k" "charges ins (key_id k) = [] \<or> \<not> past_budget d' k" by blast+
    show ?thesis
    proof (cases "charges ins (key_id k) = []")
      case True
      then have "charges (db_usage d) (key_id k) \<noteq> []"
        using k'(3) unfolding same(1) *(2) charges_append by simp
      then have "\<not> past_budget d k" using ok k(1) k'(2) same(1) unfolding system_ok_def budgets_ok_def by blast
      moreover have "key_exists d (key_id k)" using k(1) by (simp add: key_exists_def)
      then have "stored_spend d' (key_id k) = stored_spend d (key_id k)"
        using *(4) spend_of_uncharged[OF True] by simp
      ultimately show ?thesis unfolding same(1) past_budget_def by (cases "key_budget k") simp_all
    qed (use same in simp)
  qed
  then show ?thesis
    using ok page_tx_keys_ok[OF tx] page_tx_ledger[OF _ tx] by (simp add: system_ok_def budgets_ok_def)
qed

section \<open>Every transaction keeps the invariant\<close>

lemma derive_tx_insert:
  assumes tx: "derive_tx e dr i now p rq d = (out, d')" and p: "read_earlier d p" and ok: "keys_ok d"
    and new: "\<not> key_exists d i"
  shows "d' = d \<or> (\<exists>k. d' = insert_key d k \<and> key_id k = i \<and> key_kind k = Derived \<and> key_status k = Active \<and> keys_ok d')"
proof (cases out)
  case (Inr k)
  note k = child_row_Some[OF derive_tx_Inr(1)[OF tx[unfolded Inr]]] and d' = derive_tx_Inr(2)[OF tx[unfolded Inr]]
  obtain q where q: "q \<in> set (db_keys d)" "keeps_lineage p q" "key_kind q = Top"
    using p keeps_lineageD(2) by (auto simp: read_earlier_def)
  have "top_ok q" using keys_okD(2)[OF ok q(1,3)] .
  then have "derived_ok d k" using k q by (auto simp: derived_ok_def keeps_lineage_def top_ok_def)
  then have "keys_ok d'"
    by (intro keys_ok_insert_derived[OF ok, of k]) (use new k d' in \<open>simp_all add: insert_key_def\<close>)
  then show ?thesis using d' k(1,5,7) by blast
qed (use derive_tx_Inl tx in blast)

lemma create_insert_shape:
  assumes "create_insert dr sha256 random i now user d body = (r, d')" "keys_ok d" "\<not> key_exists d i"
  shows "d' = d \<or> (\<exists>k. d' = insert_key d k \<and> key_id k = i \<and> key_parent k = None \<and> key_status k = Active \<and> keys_ok d')"
proof (cases r)
  case (Answer st x)
  obtain k s where x: "x = (k, s)" by (cases x)
  show ?thesis using create_insert_Answer(3,5,6,12)[OF assms(1)[unfolded Answer x]] create_insert_ok[OF assms] by blast
qed (use create_insert_Failure assms(1) in blast)

text \<open>The change a revocation makes to a row.\<close>

definition revoked_row :: "pg_time \<Rightarrow> string \<Rightarrow> key_row \<Rightarrow> key_row" where
  "revoked_row now who k = k\<lparr>key_status := Revoked, key_revoked_at := Some now, key_revoked_by := Some who,
     key_updated_at := now\<rparr>"

lemma revoked_row_simps [simp]:
  "keeps_lineage k (revoked_row now who k)" "key_budget (revoked_row now who k) = key_budget k"
  "key_status (revoked_row now who k) = Revoked" "key_evolves k (revoked_row now who k)"
  by (simp_all add: revoked_row_def keeps_lineage_def key_evolves_def)

lemma revoke_shape:
  "revoke_key now user d t = (r, d') \<Longrightarrow> d' = d \<or> (\<exists>P. d' = update_keys P (revoked_row now user) d)"
  unfolding revoke_key_def revoked_row_def Let_def by (auto split: option.splits if_splits)

lemma admin_revoke_shape:
  "admin_revoke now a d t = (r, d') \<Longrightarrow> d' = d \<or> (\<exists>P. d' = update_keys P (revoked_row now (admin_name a)) d)"
  unfolding admin_revoke_def revoked_row_def Let_def by (auto split: option.splits if_splits)

text \<open>A step that changes rows of the key table takes them out of service or sets their root.\<close>

definition row_update :: "db \<Rightarrow> (key_row \<Rightarrow> bool) \<Rightarrow> (key_row \<Rightarrow> key_row) \<Rightarrow> bool" where
  "row_update d P f \<longleftrightarrow> (\<forall>k\<in>set (db_keys d). P k \<longrightarrow> key_evolves k (f k) \<and>
     key_status (f k) \<in> {Revoked, key_status k} \<and> key_created_at (f k) = key_created_at k)"

lemma row_update_revoke: "row_update d P (revoked_row now who)"
  by (simp add: row_update_def) (simp add: revoked_row_def)

lemma row_update_root:
  assumes "keys_ok d" "top_only d i"
  shows "row_update d (\<lambda>r. key_id r = i) (\<lambda>r. r\<lparr>key_root := Some (key_id r), key_updated_at := now\<rparr>)"
  using root_keeps_lineage[OF assms(1)] assms(2) by (auto simp: row_update_def top_only_def key_evolves_def)

text \<open>The four shapes, once for all proofs about a step.\<close>

lemma system_step_cases:
  assumes step: "system_step d d'" and ok: "keys_ok d"
  obtains (insert) k where "fresh_key d (key_id k)" "key_status k = Active" "d' = insert_key d k" "keys_ok d'"
      "key_parent k = None \<or> key_kind k = Derived"
    | (update) P f where "d' = update_keys P f d" "row_update d P f"
    | (page) now rows n where "page_tx now d rows = Some (n, d')"
    | (frame) "db_keys d' = db_keys d" "db_usage d' = db_usage d" "db_spend d' = db_spend d"
  using step
proof cases
  case (mints i dr sha256 random now user body r)
  then show ?thesis using create_insert_shape[OF mints(2) ok] insert frame by (auto simp: fresh_key_def)
next
  case (roots i now)
  then show ?thesis using update[OF _ row_update_root[OF ok roots(2)]] by (simp add: set_root_def)
next
  case (derives i p e dr now rq out)
  then show ?thesis using derive_tx_insert[OF derives(3,2) ok] insert frame by (auto simp: fresh_key_def)
next
  case (revokes now user id_text r)
  then show ?thesis using revoke_shape[OF revokes] update row_update_revoke frame by blast
next
  case (admin_mints i sha256 random now a team label budget g)
  obtain k where "d' = insert_key d k" "key_id k = i" "key_parent k = None" "key_status k = Active"
    using admin_insert_key_Some[OF admin_mints(2)] by blast
  then show ?thesis using admin_insert_key_ok[OF admin_mints(2) ok] admin_mints(1) insert by (auto simp: fresh_key_def)
next
  case (admin_roots i now)
  then show ?thesis using update[OF _ row_update_root[OF ok admin_roots(2)]] by (simp add: admin_set_root_def)
next
  case (admin_revokes now a id_text reply)
  then show ?thesis using admin_revoke_shape[OF admin_revokes] update row_update_revoke frame by blast
next
  case (prices dr m who p row)
  then show ?thesis using frame by (auto simp: insert_price_def Let_def split: option.splits)
next
  case (settings now a form reply)
  then show ?thesis using frame by (auto simp: post_settings_def split: option.splits)
next
  case (syncs user)
  then show ?thesis using frame sync_statement_frame by blast
qed (use page in blast)

lemma system_step_ok:
  assumes ok: "system_ok d" and step: "system_step d d'"
  shows "system_ok d'"
proof -
  have "keys_ok d" using ok by (simp add: system_ok_def)
  with step show ?thesis
  proof (cases rule: system_step_cases)
    case (update P f)
    then show ?thesis using system_ok_update[OF ok] by (simp add: row_update_def)
  qed (use ok system_ok_insert system_ok_page system_ok_frame in blast)+
qed

interpretation control_plane: step_system system_step system_ok
  by unfold_locales (rule system_step_ok)

section \<open>Nothing comes back\<close>

lemma page_tx_evolves:
  assumes "page_tx now d rows = Some (n, d')"
  shows "evolves d d'"
proof (rule evolves_map[OF page_tx_keys[OF assms]])
  show "set (db_usage d) \<subseteq> set (db_usage d')" unfolding page_tx_Some(2)[OF assms] by simp
qed (simp add: key_evolves_def keeps_lineage_def)

lemma system_step_evolves:
  assumes "system_step d d'" "keys_ok d"
  shows "evolves d d'"
  using assms
proof (cases rule: system_step_cases)
  case (insert k)
  then show ?thesis
      unfolding evolves_def by (intro conjI exI[of _ "db_keys d"] exI[of _ "[k]"])
        (simp_all add: frame_simps list_all2_refl, simp add: insert_key_def)
next
  case (update P f)
  then show ?thesis by (intro evolves_map[of d' "\<lambda>k. if P k then f k else k"])
      (simp_all add: update_keys_def row_update_def)
qed (simp_all add: page_tx_evolves evolves_same_keys)

lemma system_run_evolves:
  assumes "system_step\<^sup>*\<^sup>* d d'" "system_ok d"
  shows "evolves d d'"
  by (rule control_plane.run_rel[OF assms])
    (auto intro: evolves_trans system_step_evolves simp: evolves_same_keys system_ok_def)

text \<open>A revoked row shuts out its subtree; a revoked root does so in every later state, later
  members included.\<close>

lemma revoked_row_shuts_out:
  assumes keys: "keys_ok d'"
    and r': "r' \<in> set (db_keys d')" "key_status r' = Revoked"
    and verify: "verify_gateway_credential sha256 verify_jwt now d' presented = Inr (Some sc)"
    and k: "k \<in> set (db_keys d')" "key_id k = scope_key sc" "in_subtree (key_id r') k"
  shows False
proof -
  have found: "find_key d' (key_id r') = Some r'"
    using find_key_iff[OF keys_okD(1)[OF keys]] r'(1) by blast
  have "dead d' (key_id k)"
    unfolding dead_def
  proof (intro ballI impI)
    fix j assume "j \<in> set (db_keys d')" "key_id j = key_id k"
    then have j: "j = k" using distinct_map_unique[OF keys_okD(1)[OF keys]] k(1) by blast
    consider "key_id k = key_id r'" | "key_root k = Some (key_id r')" using k(3) by (auto simp: in_subtree_def)
    then show "key_status j = Revoked \<or> (\<exists>r. find_key d' (root_of j) = Some r \<and> key_status r = Revoked)"
    proof cases
      case 1
      then have "k = r'" using distinct_map_unique[OF keys_okD(1)[OF keys] k(1) r'(1)] by simp
      then show ?thesis using r'(2) j by simp
    next
      case 2
      then show ?thesis using found r'(2) j by (simp add: root_of_def)
    qed
  qed
  then show False using verify_not_dead[OF verify] k(2) by simp
qed

lemma revoked_root_shuts_out:
  assumes run: "system_step\<^sup>*\<^sup>* d d'" and ok: "system_ok d"
    and r: "r \<in> set (db_keys d)" "key_status r = Revoked"
    and verify: "verify_gateway_credential sha256 verify_jwt now d' presented = Inr (Some sc)"
    and k: "k \<in> set (db_keys d')" "key_id k = scope_key sc" "in_subtree (key_id r) k"
  shows False
proof -
  have keys: "keys_ok d'" using control_plane.run_ok[OF run ok] by (simp add: system_ok_def)
  obtain r' where r': "r' \<in> set (db_keys d')" "key_evolves r r'"
    using evolves_keys[OF system_run_evolves[OF run ok] r(1)] by blast
  then have "key_id r' = key_id r" "key_status r' = Revoked" using r(2) by (auto simp: key_evolves_def keeps_lineage_def)
  then show False using revoked_row_shuts_out[OF keys r'(1) _ verify k(1,2)] k(3) by simp
qed

section \<open>A poll is a run of transactions\<close>

lemma poll_page_run:
  assumes "poll_page env k page st = (ok, st')"
  shows "system_step\<^sup>*\<^sup>* (ps_db st) (ps_db st')"
proof -
  consider "ps_db st' = ps_db st"
    | rows now n where "page_tx now (ps_db st) rows = Some (n, ps_db st')"
    using assms by (auto simp: poll_page_def split_beta Let_def ingest_page_rows split: option.splits if_splits)
  then show ?thesis by cases (auto intro: system_step.ingests)
qed

lemma poll_loop_run:
  "poll_loop env k c st = Some y \<Longrightarrow> system_step\<^sup>*\<^sup>* (ps_db st) (ps_db (snd y))"
proof (induction env k c st y rule: poll_loop_induct)
  case (more env k c st page st' y)
  then show ?case using poll_page_run rtranclp_trans by metis
qed (auto dest: poll_page_run)

lemma poll_targets_run:
  "poll_targets env ss st = Some (failed, st') \<Longrightarrow> system_step\<^sup>*\<^sup>* (ps_db st) (ps_db st')"
proof (induction ss arbitrary: st failed)
  case (Cons s ss)
  then obtain res a f where a: "poll_once (env s) (with_overlap (newest_stored (sat_machine s) (ps_db st))) st = Some (res, a)"
    "poll_targets env ss a = Some (f, st')" by (auto split: option.splits)
  have "system_step\<^sup>*\<^sup>* (ps_db st) (ps_db a)"
    using poll_loop_run[OF a(1)[unfolded poll_once_def]] by simp
  then show ?case using Cons.IH[OF a(2)] by (rule rtranclp_trans)
qed simp

lemma poll_all_run:
  "poll_all url dns env st = Some (failed, st') \<Longrightarrow> system_step\<^sup>*\<^sup>* (ps_db st) (ps_db st')"
  by (auto simp: poll_all_def poll_targets_run split: option.splits)

section \<open>A projection of memberships is a run of transactions\<close>

lemma sync_run_system: "(sync_statement user)\<^sup>*\<^sup>* d d' \<Longrightarrow> system_step\<^sup>*\<^sup>* d d'"
  by (induction rule: rtranclp_induct) (auto intro: system_step.syncs rtranclp.rtrancl_into_rtrancl)

section \<open>A mint is a run of transactions\<close>

text \<open>The second statement of a mint meets the row of the first, whatever ran in between: a
  top-level key stays one.\<close>

lemma top_only_run:
  assumes run: "system_step\<^sup>*\<^sup>* d d'" and ok: "system_ok d" and k: "k \<in> set (db_keys d)" "key_kind k = Top"
  shows "top_only d' (key_id k)"
proof -
  have keys: "keys_ok d'" using control_plane.run_ok[OF run ok] by (simp add: system_ok_def)
  obtain k' where k': "k' \<in> set (db_keys d')" "key_evolves k k'"
    using evolves_keys[OF system_run_evolves[OF run ok] k(1)] by blast
  then have "key_id k' = key_id k" "key_kind k' = Top" using k(2) by (simp_all add: key_evolves_def keeps_lineage_def)
  then show ?thesis
    unfolding top_only_def using distinct_map_unique[OF keys_okD(1)[OF keys] _ k'(1)] by metis
qed

text \<open>However far an admin mint gets.\<close>

lemma admin_mint_run:
  assumes mint: "admin_mint sha256 random i now second a d team label budget = (r, d')"
    and ok: "system_ok d" and new: "fresh_key d i"
    and others: "\<And>now' f x. second = Some (now', f) \<Longrightarrow> system_step\<^sup>*\<^sup>* x (f x)"
  shows "system_step\<^sup>*\<^sup>* d d'"
  using mint
proof (cases rule: admin_mint_cases)
  case (rootless g d1)
  then show ?thesis using system_step.admin_mints[OF new rootless(1)] by blast
next
  case (minted g d1 now' f)
  have first: "system_step\<^sup>*\<^sup>* d d1" using system_step.admin_mints[OF new minted(1)] by blast
  obtain k where k: "d1 = insert_key d k" "key_id k = i" "key_kind k = Top"
    using admin_insert_key_Some[OF minted(1)] by blast
  have "top_only (f d1) i"
    using top_only_run[OF others[OF minted(2)] control_plane.run_ok[OF first ok], of k] k by (simp add: insert_key_def)
  then have "system_step (f d1) d'" using system_step.roots minted(4) by simp
  then show ?thesis using first others[OF minted(2)] by (meson rtranclp.rtrancl_into_rtrancl rtranclp_trans)
qed simp

end
