(* ===== verification/Budget_Writes.thy ===== *)
theory Budget_Writes
  imports System Derive_Lock
begin

text \<open>
  Budgets written by hand, with the trigger \<open>keys_reactivate_on_budget_raise\<close>
  (\<open>database/migrations/20261016150000_budget_reactivation.up.sql\<close>): the way back for a key that
  ingest took out of service.  \<open>owner_step\<close> adds such writes to the transactions of the program.
\<close>

section \<open>The trigger\<close>

text \<open>\<open>NEW.budget_usd IS NULL OR COALESCE((SELECT spent_usd \<dots>), 0) < NEW.budget_usd\<close>.\<close>

definition reactivate_on_budget_raise :: "db \<Rightarrow> key_row \<Rightarrow> key_row" where
  "reactivate_on_budget_raise d new =
     (let spent = (case db_spend d (key_id new) of None \<Rightarrow> 0 | Some s \<Rightarrow> spent_usd s)
      in if (case key_budget new of None \<Rightarrow> True | Some b \<Rightarrow> spent < b) then new\<lparr>key_status := Active\<rparr> else new)"

text \<open>It fires for a row that is over its budget before and after the write.\<close>

definition on_budget_update :: "db \<Rightarrow> key_row \<Rightarrow> key_row \<Rightarrow> key_row" where
  "on_budget_update d old new =
     (if key_status old = Over_budget \<and> key_status new = Over_budget then reactivate_on_budget_raise d new else new)"

text \<open>\<open>UPDATE llm.keys SET budget_usd = b WHERE P\<close>.\<close>

definition set_budgets :: "(key_row \<Rightarrow> bool) \<Rightarrow> (key_row \<Rightarrow> rat option) \<Rightarrow> db \<Rightarrow> db" where
  "set_budgets P b d = update_keys P (\<lambda>k. on_budget_update d k (k\<lparr>key_budget := b k\<rparr>)) d"

lemma on_budget_update_eq:
  "on_budget_update d k (k\<lparr>key_budget := v\<rparr>) =
     (if key_status k = Over_budget \<and> \<not> past_budget d (k\<lparr>key_budget := v\<rparr>)
      then k\<lparr>key_budget := v, key_status := Active\<rparr> else k\<lparr>key_budget := v\<rparr>)"
proof -
  have "(case db_spend d (key_id k) of None \<Rightarrow> 0 | Some s \<Rightarrow> spent_usd s) = spent_usd (stored_spend d (key_id k))"
    by (simp add: stored_spend_def or_else_def split: option.split)
  then show ?thesis
    by (auto simp: on_budget_update_def reactivate_on_budget_raise_def past_budget_def split: option.splits)
qed

section \<open>The steps\<close>

inductive owner_step :: "db \<Rightarrow> db \<Rightarrow> bool" where
  handlers: "system_step d d' \<Longrightarrow> owner_step d d'"
| writes_budgets: "owner_step d (set_budgets P b d)"

text \<open>Out of service for its budget only while the budget is spent.\<close>

definition over_budgets_ok :: "db \<Rightarrow> bool" where
  "over_budgets_ok d \<longleftrightarrow> (\<forall>k\<in>set (db_keys d). key_status k = Over_budget \<longrightarrow> past_budget d k)"

definition owner_ok :: "db \<Rightarrow> bool" where
  "owner_ok d \<longleftrightarrow> keys_ok d \<and> ledger_ok d \<and> over_budgets_ok d"

lemma past_budget_cong:
  "stored_spend d' (key_id k') = stored_spend d (key_id k) \<Longrightarrow> key_budget k' = key_budget k \<Longrightarrow>
     past_budget d' k' = past_budget d k"
  by (simp add: past_budget_def split: option.split)

lemma past_budget_simps [simp]:
  "past_budget d (k\<lparr>key_status := s\<rparr>) = past_budget d k"
  "past_budget d (k\<lparr>key_status := s, key_updated_at := t\<rparr>) = past_budget d k"
  "past_budget d (k\<lparr>key_budget := v, key_status := s\<rparr>) = past_budget d (k\<lparr>key_budget := v\<rparr>)"
  by (simp_all add: past_budget_def split: option.split)

text \<open>Spend never goes down.\<close>

lemma spend_of_nonneg: "0 \<le> spent_usd (spend_of us i)"
  by (auto simp: spend_of_def charges_def billed_def intro!: sum_list_nonneg)

lemma past_budget_page:
  assumes "page_tx now d rows = Some (n, d')" "k \<in> set (db_keys d)" "past_budget d k"
  shows "past_budget d' k"
proof -
  let ?ins = "fst (insert_rows (db_usage d) (filter (\<lambda>u. key_exists d (ul_key_id u)) rows))"
  have "key_exists d (key_id k)" using assms(2) by (simp add: key_exists_def)
  then have "stored_spend d' (key_id k) = add_rows (stored_spend d (key_id k)) (spend_of ?ins (key_id k))"
    by (rule page_tx_Some(4)[OF assms(1)])
  then show ?thesis
    using assms(3) spend_of_nonneg[of ?ins "key_id k"] by (auto simp: past_budget_def add_rows_def split: option.splits)
qed

section \<open>Every step keeps the invariant\<close>

text \<open>The ledger and the lineage do not look at budgets and statuses.\<close>

lemma ledger_ok_update:
  assumes "ledger_ok d" "\<And>k. k \<in> set (db_keys d) \<Longrightarrow> P k \<Longrightarrow> key_id (f k) = key_id k"
  shows "ledger_ok (update_keys P f d)"
proof -
  have "map key_id (db_keys (update_keys P f d)) = map key_id (db_keys d)"
    using assms(2) by (simp add: update_keys_def)
  then have "key_exists (update_keys P f d) = key_exists d" by (simp add: key_exists_def fun_eq_iff del: set_map)
  moreover have "stored_spend (update_keys P f d) = stored_spend d" by (simp add: fun_eq_iff stored_spend_def frame_simps)
  ultimately show ?thesis using assms(1) by (simp add: ledger_ok_def usage_ids_def frame_simps)
qed

lemma owner_ok_budgets:
  assumes "owner_ok d"
  shows "owner_ok (set_budgets P b d)"
proof -
  let ?f = "\<lambda>k. on_budget_update d k (k\<lparr>key_budget := b k\<rparr>)"
  have f: "keeps_lineage k (?f k)" for k by (simp add: on_budget_update_eq keeps_lineage_def)
  have spend: "stored_spend (set_budgets P b d) = stored_spend d"
    by (simp add: set_budgets_def fun_eq_iff stored_spend_def frame_simps)
  have "past_budget (set_budgets P b d) k" if k: "k \<in> set (db_keys (set_budgets P b d))" "key_status k = Over_budget" for k
  proof -
    obtain k0 where k0: "k0 \<in> set (db_keys d)" "k = (if P k0 then ?f k0 else k0)"
      using k(1) unfolding set_budgets_def set_update_keys by blast
    have "past_budget d k"
    proof (cases "P k0")
      case True
      then show ?thesis using k(2) k0(2) by (auto simp: on_budget_update_eq split: if_splits)
    next
      case False
      then show ?thesis using k(2) k0 assms by (simp add: owner_ok_def over_budgets_ok_def)
    qed
    then show ?thesis using past_budget_cong spend by metis
  qed
  then show ?thesis
    using assms keys_ok_update[OF _ f] ledger_ok_update[of d P ?f] keeps_lineageD(1)[OF f]
    by (simp add: owner_ok_def over_budgets_ok_def set_budgets_def)
qed

lemma owner_ok_handlers:
  assumes ok: "owner_ok d" and step: "system_step d d'"
  shows "owner_ok d'"
proof -
  have keys: "keys_ok d" and ledger: "ledger_ok d" and over: "over_budgets_ok d" using ok by (simp_all add: owner_ok_def)
  from step keys show ?thesis
  proof (cases rule: system_step_cases)
    case (insert k)
    have "over_budgets_ok d'"
      using over insert(2) by (auto simp: over_budgets_ok_def insert(3) past_budget_insert) (auto simp: insert_key_def)
    then show ?thesis using insert(3,4) ledger_ok_insert[OF ledger insert(1)] by (simp add: owner_ok_def)
  next
    case (update P f)
    have f: "keeps_lineage k (f k)" "key_budget (f k) = key_budget k" "key_status (f k) \<in> {Revoked, key_status k}"
      if "k \<in> set (db_keys d)" "P k" for k using update(2) that by (auto simp: row_update_def key_evolves_def)
    have spend: "stored_spend d' = stored_spend d" by (simp add: fun_eq_iff stored_spend_def update(1) frame_simps)
    have "past_budget d' k" if k: "k \<in> set (db_keys d')" "key_status k = Over_budget" for k
    proof -
      obtain k0 where k0: "k0 \<in> set (db_keys d)" "k = (if P k0 then f k0 else k0)"
        using k(1) unfolding update(1) set_update_keys by blast
      have "key_status k0 = Over_budget" "key_id k = key_id k0" "key_budget k = key_budget k0"
        using k(2) k0 f[OF k0(1)] by (auto simp: keeps_lineage_def split: if_splits)
      then show ?thesis using over k0(1) past_budget_cong[of d' k d k0] spend by (simp add: over_budgets_ok_def)
    qed
    then show ?thesis
      using keys_ok_update[OF keys f(1)] ledger_ok_update[OF ledger keeps_lineageD(1)[OF f(1)]]
      by (simp add: owner_ok_def over_budgets_ok_def update(1))
  next
    case (page now rows n)
    have "over_budgets_ok d'"
      unfolding over_budgets_ok_def page_tx_keys[OF page]
    proof (intro ballI impI)
      fix k' assume k': "k' \<in> set (map (\<lambda>k. if charges (fst (insert_rows (db_usage d) (filter (\<lambda>u. key_exists d (ul_key_id u)) rows))) (key_id k) \<noteq> [] \<and>
          key_status k = Active \<and> past_budget d' k then k\<lparr>key_status := Over_budget, key_updated_at := now\<rparr> else k) (db_keys d))"
        "key_status k' = Over_budget"
      then obtain k where k: "k \<in> set (db_keys d)" "k' = k \<and> key_status k = Over_budget \<or>
          k' = k\<lparr>key_status := Over_budget, key_updated_at := now\<rparr> \<and> past_budget d' k" by (auto split: if_splits)
      from k(2) show "past_budget d' k'"
      proof
        assume same: "k' = k \<and> key_status k = Over_budget"
        then have "past_budget d k" using over k(1) by (simp add: over_budgets_ok_def)
        then show ?thesis using past_budget_page[OF page k(1)] same by simp
      qed auto
    qed
    then show ?thesis using page_tx_keys_ok[OF page keys] page_tx_ledger[OF ledger page] by (simp add: owner_ok_def)
  next
    case frame
    have "stored_spend d' = stored_spend d" "past_budget d' = past_budget d" "key_exists d' = key_exists d"
      using frame by (simp_all add: fun_eq_iff stored_spend_def past_budget_def key_exists_def split: option.split)
    then show ?thesis
      using ok keys_ok_frame[OF keys frame(1)] frame by (simp add: owner_ok_def ledger_ok_def over_budgets_ok_def usage_ids_def)
  qed
qed

interpretation budgeted: step_system owner_step owner_ok
proof unfold_locales
  show "owner_ok d'" if "owner_ok d" "owner_step d d'" for d d'
    using that(2,1) by cases (auto intro: owner_ok_handlers owner_ok_budgets)
qed

section \<open>What no step undoes\<close>

definition persists :: "db \<Rightarrow> db \<Rightarrow> bool" where
  "persists d d' \<longleftrightarrow> (\<forall>k\<in>set (db_keys d). \<exists>k'\<in>set (db_keys d').
     keeps_lineage k k' \<and> (key_status k = Revoked \<longrightarrow> key_status k' = Revoked))"

lemma persists_refl: "persists d d"
  unfolding persists_def using keeps_lineage_refl by blast

lemma persists_trans: "persists a b \<Longrightarrow> persists b c \<Longrightarrow> persists a c"
  unfolding persists_def using keeps_lineage_trans by metis

lemma owner_step_persists:
  assumes "owner_step d d'" "owner_ok d"
  shows "persists d d'"
  using assms(1)
proof cases
  case handlers
  then have "evolves d d'" using system_step_evolves assms(2) by (simp add: owner_ok_def)
  then show ?thesis using evolves_keys by (fastforce simp: persists_def key_evolves_def)
next
  case (writes_budgets P b)
  show ?thesis
    unfolding persists_def
  proof
    fix k assume k: "k \<in> set (db_keys d)"
    let ?k = "if P k then on_budget_update d k (k\<lparr>key_budget := b k\<rparr>) else k"
    have "?k \<in> set (db_keys d')" using k unfolding writes_budgets set_budgets_def set_update_keys by blast
    moreover have "keeps_lineage k ?k \<and> (key_status k = Revoked \<longrightarrow> key_status ?k = Revoked)"
      by (simp add: on_budget_update_eq keeps_lineage_def)
    ultimately show "\<exists>k'\<in>set (db_keys d'). keeps_lineage k k' \<and> (key_status k = Revoked \<longrightarrow> key_status k' = Revoked)"
      by blast
  qed
qed

lemma owner_run_persists:
  assumes "owner_step\<^sup>*\<^sup>* d d'" "owner_ok d"
  shows "persists d d'"
  by (rule budgeted.run_rel[OF assms]) (auto intro: persists_refl persists_trans owner_step_persists)

lemma system_ok_owner: "system_ok d \<Longrightarrow> over_budgets_ok d \<Longrightarrow> owner_ok d"
  by (simp add: system_ok_def owner_ok_def)

lemma system_run_owner: "system_step\<^sup>*\<^sup>* d d' \<Longrightarrow> owner_step\<^sup>*\<^sup>* d d'"
  by (induction rule: rtranclp_induct) (auto intro: owner_step.handlers rtranclp.rtrancl_into_rtrancl)

lemma owner_run_top_only:
  assumes run: "owner_step\<^sup>*\<^sup>* d d'" and ok: "owner_ok d" and k: "k \<in> set (db_keys d)" "key_kind k = Top"
  shows "top_only d' (key_id k)"
proof -
  have keys: "keys_ok d'" using budgeted.run_ok[OF run ok] by (simp add: owner_ok_def)
  obtain k' where k': "k' \<in> set (db_keys d')" "keeps_lineage k k'"
    using owner_run_persists[OF run ok] k(1) by (auto simp: persists_def)
  then have "key_id k' = key_id k" "key_kind k' = Top" using k(2) by (simp_all add: keeps_lineage_def)
  then show ?thesis
    unfolding top_only_def using distinct_map_unique[OF keys_okD(1)[OF keys] _ k'(1)] by metis
qed

section \<open>The other writers of the derive lock\<close>

text \<open>Every step but the insert of a child is quiet, and every write of budgets steady.\<close>

lemma system_step_quiet:
  assumes "system_step d d'" "keys_ok d"
  shows "quiet d d' \<or> (\<exists>k. d' = insert_key d k \<and> key_kind k = Derived)"
  using assms
proof (cases rule: system_step_cases)
  case (insert k)
  then show ?thesis using quiet_insert_top by blast
next
  case (update P f)
  let ?g = "\<lambda>k. if P k then f k else k"
  have "quiet_row k (?g k)" if "k \<in> set (db_keys d)" for k
    using update(2) that by (auto simp: row_update_def key_evolves_def keeps_lineage_def quiet_row_def steady_row_def)
  then have "quiet d d'"
    unfolding rows_by_def update(1) update_keys_def
    by (intro exI[of _ "map ?g (db_keys d)"] exI[of _ "[]"]) (simp_all add: list_all2_map2 list_all2_same)
  then show ?thesis ..
next
  case (page now rows n)
  have "quiet d d'"
    unfolding rows_by_def page_tx_keys[OF page]
    by (rule exI, rule exI[of _ "[]"], intro conjI, simp)
      (auto simp: list_all2_map2 quiet_row_def steady_row_def intro!: list_all2_refl)
  then show ?thesis ..
qed (use quiet_same in blast)

lemma set_budgets_steady: "steady d (set_budgets P b d)"
  unfolding set_budgets_def by (rule rows_by_update) (simp_all add: on_budget_update_eq steady_row_def)

text \<open>The statuses a write of budgets leaves: raising one past the spend is the only way back.\<close>

lemma set_budgets_status:
  assumes "k \<in> set (db_keys d)"
  shows "\<exists>k'\<in>set (db_keys (set_budgets P b d)). key_id k' = key_id k \<and>
    key_budget k' = (if P k then b k else key_budget k) \<and>
    key_status k' = (if P k \<and> key_status k = Over_budget \<and> \<not> past_budget d k' then Active else key_status k)"
proof -
  let ?k = "if P k then on_budget_update d k (k\<lparr>key_budget := b k\<rparr>) else k"
  have "?k \<in> set (db_keys (set_budgets P b d))" using assms unfolding set_budgets_def set_update_keys by blast
  then show ?thesis by (intro bexI[of _ ?k]) (auto simp: on_budget_update_eq)
qed

text \<open>What the derive route makes of the key before and after.\<close>

lemma derive_parent_budgets:
  assumes "find (\<lambda>r. key_hash r = Some (hash_key sha256 (bearer_token h)) \<and> key_kind r = Top) (db_keys d) = Some k"
    and "bearer_token h \<noteq> []" "starts_with prefix_live (bearer_token h)" "key_parent k = None" "key_status k = Over_budget"
  shows "derive_parent sha256 d h = Inl (401, Unknown_parent)"
    "derive_parent sha256 (set_budgets (\<lambda>r. key_id r = key_id k) (\<lambda>_. v) d) h =
       (if past_budget d (k\<lparr>key_budget := v\<rparr>) then Inl (401, Unknown_parent)
        else Inr (k\<lparr>key_budget := v, key_status := Active\<rparr>))"
proof -
  let ?Q = "\<lambda>r. key_hash r = Some (hash_key sha256 (bearer_token h)) \<and> key_kind r = Top"
  let ?f = "\<lambda>r. if key_id r = key_id k then on_budget_update d r (r\<lparr>key_budget := v\<rparr>) else r"
  show "derive_parent sha256 d h = Inl (401, Unknown_parent)"
    using assms by (simp add: derive_parent_def Let_def)
  have "?Q (?f r) = ?Q r" for r by (simp add: on_budget_update_eq)
  then have "find ?Q (map ?f (db_keys d)) = map_option ?f (find ?Q (db_keys d))" by (rule find_map_same)
  then have "find ?Q (db_keys (set_budgets (\<lambda>r. key_id r = key_id k) (\<lambda>_. v) d)) = Some (?f k)"
    using assms(1) by (simp add: set_budgets_def update_keys_def)
  then show "derive_parent sha256 (set_budgets (\<lambda>r. key_id r = key_id k) (\<lambda>_. v) d) h =
       (if past_budget d (k\<lparr>key_budget := v\<rparr>) then Inl (401, Unknown_parent)
        else Inr (k\<lparr>key_budget := v, key_status := Active\<rparr>))"
    using assms(2-5) by (simp add: derive_parent_def Let_def on_budget_update_eq)
qed

end
