(* ===== verification/Ingest_Barrier.thy ===== *)
theory Ingest_Barrier
  imports Prelude
begin

text \<open>
  The ingest barrier of \<open>api/src/lib/usage-poller.ts\<close>: the variables \<open>running\<close> and \<open>queued\<close>,
  \<open>start\<close>, \<open>ingestNow\<close> and the interval tick, as a state machine whose steps are the turns
  of the event loop that touch them.  Passes and calls are numbered in the order they
  are made; a call's promise follows one pass once that pass has started.
\<close>

section \<open>State and operations\<close>

text \<open>\<open>br_queued = Some (p, cs)\<close>: the promise chained on pass \<open>p\<close> that the calls \<open>cs\<close> share.\<close>

record barrier =
  br_clock :: nat
  br_started :: "nat list"
  br_settled :: "nat set"
  br_running :: "nat option"
  br_queued :: "(nat \<times> nat list) option"
  br_calls :: "nat list"
  br_follows :: "(nat \<times> nat) list"

definition barrier_start :: barrier where
  "barrier_start = \<lparr>br_clock = 0, br_started = [], br_settled = {}, br_running = None,
     br_queued = None, br_calls = [], br_follows = []\<rparr>"

definition advance :: "barrier \<Rightarrow> barrier" where
  "advance s = s\<lparr>br_clock := Suc (br_clock s)\<rparr>"

text \<open>\<open>start()\<close>: a new pass, which the given calls follow.\<close>

definition start_pass :: "nat list \<Rightarrow> barrier \<Rightarrow> barrier" where
  "start_pass cs s =
     (let p = length (br_started s)
      in s\<lparr>br_started := br_started s @ [br_clock s], br_running := Some p,
           br_follows := br_follows s @ map (\<lambda>i. (i, p)) cs\<rparr>)"

definition ingest_now :: "barrier \<Rightarrow> barrier" where
  "ingest_now s =
     (let i = length (br_calls s); s1 = s\<lparr>br_calls := br_calls s @ [br_clock s]\<rparr>
      in advance
          (case br_running s of
             None \<Rightarrow> start_pass [i] s1
           | Some p \<Rightarrow>
               s1\<lparr>br_queued := Some (case br_queued s of None \<Rightarrow> (p, [i]) | Some (q, cs) \<Rightarrow> (q, cs @ [i]))\<rparr>))"

text \<open>The \<open>finally\<close> handler of a pass that ended.\<close>

definition settle :: "nat \<Rightarrow> barrier \<Rightarrow> barrier" where
  "settle p s =
     advance (s\<lparr>br_settled := insert p (br_settled s),
                br_running := (if br_running s = Some p then None else br_running s)\<rparr>)"

text \<open>The callback of the queued promise, once the pass it is chained on has settled.\<close>

definition run_queued :: "nat list \<Rightarrow> barrier \<Rightarrow> barrier" where
  "run_queued cs s = advance (start_pass cs (s\<lparr>br_queued := None\<rparr>))"

definition tick :: "barrier \<Rightarrow> barrier" where
  "tick s = advance (if br_running s = None then start_pass [] s else s)"

text \<open>A tick is a turn of the event loop of its own, which begins only when no callback is due; a call
  may come from any code that runs, callbacks of other promises included.\<close>

definition callback_due :: "barrier \<Rightarrow> bool" where
  "callback_due s = (case br_queued s of None \<Rightarrow> False | Some (p, cs) \<Rightarrow> p \<in> br_settled s)"

inductive barrier_step :: "barrier \<Rightarrow> barrier \<Rightarrow> bool" where
  call: "barrier_step s (ingest_now s)"
| interval: "\<not> callback_due s \<Longrightarrow> barrier_step s (tick s)"
| pass_ends: "p < length (br_started s) \<Longrightarrow> p \<notin> br_settled s \<Longrightarrow> barrier_step s (settle p s)"
| chained: "br_queued s = Some (p, cs) \<Longrightarrow> p \<in> br_settled s \<Longrightarrow> barrier_step s (run_queued cs s)"

inductive_cases barrier_stepE: "barrier_step s s'"

definition barrier_reach :: "barrier \<Rightarrow> bool" where
  "barrier_reach = (barrier_step\<^sup>*\<^sup>* barrier_start)"

text \<open>A call is answered when the pass it follows has settled.\<close>

definition answered :: "barrier \<Rightarrow> nat \<Rightarrow> bool" where
  "answered s i \<longleftrightarrow> (\<exists>p. (i, p) \<in> set (br_follows s) \<and> p \<in> br_settled s)"

section \<open>The invariant\<close>

text \<open>A pass followed by a call started no earlier than the call; every call either follows
  a pass or waits in the queue.\<close>

definition queued_calls :: "barrier \<Rightarrow> nat list" where
  "queued_calls s = (case br_queued s of None \<Rightarrow> [] | Some (p, cs) \<Rightarrow> cs)"

definition barrier_inv :: "barrier \<Rightarrow> nat set \<Rightarrow> bool" where
  "barrier_inv s waiting \<longleftrightarrow>
     (\<forall>i p. (i, p) \<in> set (br_follows s) \<longrightarrow>
        p < length (br_started s) \<and> br_calls s ! i \<le> br_started s ! p) \<and>
     (\<forall>i<length (br_calls s). br_calls s ! i \<le> br_clock s) \<and>
     fst ` set (br_follows s) \<union> waiting = {..<length (br_calls s)} \<and>
     (\<forall>p. br_running s = Some p \<longrightarrow> p < length (br_started s) \<and> p \<notin> br_settled s) \<and>
     br_settled s \<subseteq> {..<length (br_started s)}"

definition barrier_ok :: "barrier \<Rightarrow> bool" where
  "barrier_ok s \<longleftrightarrow> barrier_inv s (set (queued_calls s)) \<and>
     (\<forall>p cs. br_queued s = Some (p, cs) \<longrightarrow> p < length (br_started s))"

lemma barrier_ok_start: "barrier_ok barrier_start"
  by (simp add: barrier_ok_def barrier_inv_def barrier_start_def queued_calls_def)

lemma barrier_inv_advance [wf_intros]: "barrier_inv s w \<Longrightarrow> barrier_inv (advance s) w"
  by (auto simp: barrier_inv_def advance_def intro: le_SucI)

lemma barrier_inv_queue [simp]: "barrier_inv (s\<lparr>br_queued := q\<rparr>) w \<longleftrightarrow> barrier_inv s w"
  by (simp add: barrier_inv_def)

lemma barrier_invD:
  assumes "barrier_inv s w"
  shows "(i, p) \<in> set (br_follows s) \<Longrightarrow> i < length (br_calls s) \<and> p < length (br_started s) \<and> br_calls s ! i \<le> br_started s ! p"
    and "i < length (br_calls s) \<Longrightarrow> br_calls s ! i \<le> br_clock s"
    and "fst ` set (br_follows s) \<union> w = {..<length (br_calls s)}"
    and "br_running s = Some p \<Longrightarrow> p < length (br_started s) \<and> p \<notin> br_settled s"
    and "br_settled s \<subseteq> {..<length (br_started s)}"
proof -
  show sets: "fst ` set (br_follows s) \<union> w = {..<length (br_calls s)}"
    using assms by (simp only: barrier_inv_def)
  show "i < length (br_calls s) \<and> p < length (br_started s) \<and> br_calls s ! i \<le> br_started s ! p"
    if "(i, p) \<in> set (br_follows s)"
  proof -
    have "i \<in> fst ` set (br_follows s) \<union> w" using that by force
    then have "i < length (br_calls s)" unfolding sets by simp
    then show ?thesis using assms that unfolding barrier_inv_def by blast
  qed
  show "i < length (br_calls s) \<Longrightarrow> br_calls s ! i \<le> br_clock s"
    and "br_running s = Some p \<Longrightarrow> p < length (br_started s) \<and> p \<notin> br_settled s"
    and "br_settled s \<subseteq> {..<length (br_started s)}"
    using assms by (simp_all add: barrier_inv_def)
qed

lemma barrier_inv_call [wf_intros]:
  assumes "barrier_inv s w"
  shows "barrier_inv (s\<lparr>br_calls := br_calls s @ [br_clock s]\<rparr>) (insert (length (br_calls s)) w)"
proof -
  note inv = barrier_invD[OF assms]
  have "fst ` set (br_follows s) \<union> insert (length (br_calls s)) w = {..<Suc (length (br_calls s))}"
    using inv(3) by (simp add: lessThan_Suc)
  moreover have "(br_calls s @ [br_clock s]) ! i \<le> br_started s ! p" if "(i, p) \<in> set (br_follows s)" for i p
    using inv(1)[OF that] by (simp add: nth_append)
  moreover have "(br_calls s @ [br_clock s]) ! i \<le> br_clock s" if "i < Suc (length (br_calls s))" for i
    using inv(2) that by (simp add: nth_append)
  ultimately show ?thesis using inv(1,4,5) by (simp add: barrier_inv_def)
qed

lemma barrier_inv_start_pass [wf_intros]:
  assumes inv: "barrier_inv s w" and cs: "set cs \<subseteq> w"
  shows "barrier_inv (start_pass cs s) (w - set cs)"
proof -
  note * = barrier_invD[OF inv]
  let ?p = "length (br_started s)"
  have waiting: "br_calls s ! i \<le> br_clock s" if "i \<in> set cs" for i
  proof -
    have "i \<in> fst ` set (br_follows s) \<union> w" using cs that by blast
    then show ?thesis unfolding *(3) using *(2) by simp
  qed
  have "fst ` (set (br_follows s) \<union> (\<lambda>i. (i, ?p)) ` set cs) \<union> (w - set cs) = fst ` set (br_follows s) \<union> w"
    using cs by (auto simp: image_Un image_image)
  then have "fst ` (set (br_follows s) \<union> (\<lambda>i. (i, ?p)) ` set cs) \<union> (w - set cs) = {..<length (br_calls s)}"
    unfolding *(3) .
  moreover have "q < Suc ?p \<and> br_calls s ! i \<le> (br_started s @ [br_clock s]) ! q"
    if "(i, q) \<in> set (br_follows s) \<union> (\<lambda>i. (i, ?p)) ` set cs" for i q
    using that *(1) waiting by (auto simp: nth_append less_SucI)
  moreover have "?p \<notin> br_settled s" "br_settled s \<subseteq> {..<Suc ?p}" using *(5) by auto
  ultimately show ?thesis using *(2) by (simp add: barrier_inv_def start_pass_def Let_def)
qed

lemma barrier_inv_settle [wf_intros]:
  "barrier_inv s w \<Longrightarrow> p < length (br_started s) \<Longrightarrow> barrier_inv (settle p s) w"
  unfolding settle_def by (rule barrier_inv_advance) (auto simp: barrier_inv_def)

lemma barrier_step_ok [wf_intros]:
  assumes ok: "barrier_ok s" and step: "barrier_step s s'"
  shows "barrier_ok s'"
  using step
proof (cases rule: barrier_step.cases)
  case call
  let ?i = "length (br_calls s)"
  have inv: "barrier_inv (s\<lparr>br_calls := br_calls s @ [br_clock s]\<rparr>) (insert ?i (set (queued_calls s)))"
    using ok by (intro barrier_inv_call) (simp add: barrier_ok_def)
  have fresh: "?i \<notin> set (queued_calls s)"
    using ok unfolding barrier_ok_def barrier_inv_def by auto
  show ?thesis
  proof (cases "br_running s")
    case None
    then have "s' = advance (start_pass [?i] (s\<lparr>br_calls := br_calls s @ [br_clock s]\<rparr>))"
      by (simp add: call ingest_now_def Let_def)
    moreover have "barrier_inv s' (set (queued_calls s))"
      unfolding calculation using barrier_inv_start_pass[OF inv, of "[?i]"] fresh
      by (intro barrier_inv_advance) simp
    ultimately show ?thesis
      using ok by (auto simp: barrier_ok_def advance_def start_pass_def Let_def queued_calls_def less_Suc_eq)
  next
    case (Some p)
    let ?q = "case br_queued s of None \<Rightarrow> (p, [?i]) | Some (q, cs) \<Rightarrow> (q, cs @ [?i])"
    have s': "s' = advance (s\<lparr>br_calls := br_calls s @ [br_clock s], br_queued := Some ?q\<rparr>)"
      using Some by (simp add: call ingest_now_def Let_def)
    have "set (queued_calls s') = insert ?i (set (queued_calls s))"
      by (auto simp: s' advance_def queued_calls_def split: option.splits)
    moreover have "barrier_inv s' (insert ?i (set (queued_calls s)))"
      unfolding s' using inv by (intro barrier_inv_advance) (simp add: barrier_inv_def)
    moreover have "p < length (br_started s)" using ok Some unfolding barrier_ok_def barrier_inv_def by blast
    then have "q < length (br_started s')" if "br_queued s' = Some (q, cs)" for q cs
      using ok that by (auto simp: barrier_ok_def s' advance_def split: option.splits)
    ultimately show ?thesis by (simp add: barrier_ok_def)
  qed
next
  case interval
  have "barrier_inv (start_pass [] s) (set (queued_calls s))"
    using barrier_inv_start_pass[of s "set (queued_calls s)" "[]"] ok by (simp add: barrier_ok_def)
  then have "barrier_inv s' (set (queued_calls s))"
    using ok by (simp add: interval(1) tick_def barrier_ok_def barrier_inv_advance)
  then show ?thesis
    using ok by (auto simp: barrier_ok_def interval(1) tick_def advance_def start_pass_def Let_def queued_calls_def less_Suc_eq)
next
  case (pass_ends p)
  have "barrier_inv s' (set (queued_calls s))"
    unfolding pass_ends(1) using ok pass_ends(2) by (intro barrier_inv_settle) (simp_all add: barrier_ok_def)
  then show ?thesis
    using ok by (simp add: barrier_ok_def pass_ends(1) settle_def advance_def queued_calls_def)
next
  case (chained p cs)
  have "barrier_inv (start_pass cs (s\<lparr>br_queued := None\<rparr>)) {}"
    using barrier_inv_start_pass[of "s\<lparr>br_queued := None\<rparr>" "set cs" cs] ok chained(2)
    by (simp add: barrier_ok_def queued_calls_def)
  then have "barrier_inv s' {}" unfolding chained(1) run_queued_def by (rule barrier_inv_advance)
  moreover have "br_queued s' = None"
    by (simp add: chained(1) run_queued_def advance_def start_pass_def Let_def)
  ultimately show ?thesis by (simp add: barrier_ok_def queued_calls_def)
qed

interpretation barrier: step_system barrier_step barrier_ok
  by unfold_locales (rule barrier_step_ok)

lemma barrier_reach_ok: "barrier_reach s \<Longrightarrow> barrier_ok s"
  unfolding barrier_reach_def by (rule barrier.run_ok[OF _ barrier_ok_start])

section \<open>Every call is answered\<close>

text \<open>The steps the process takes on its own, once no calls or ticks come in.\<close>

inductive internal_step :: "barrier \<Rightarrow> barrier \<Rightarrow> bool" where
  ends: "p < length (br_started s) \<Longrightarrow> p \<notin> br_settled s \<Longrightarrow> internal_step s (settle p s)"
| chains: "br_queued s = Some (p, cs) \<Longrightarrow> p \<in> br_settled s \<Longrightarrow> internal_step s (run_queued cs s)"

lemma internal_step_barrier: "internal_step s s' \<Longrightarrow> barrier_step s s'"
  by (induction rule: internal_step.induct) (auto intro: pass_ends chained)

definition unsettled :: "barrier \<Rightarrow> nat set" where
  "unsettled s = {..<length (br_started s)} - br_settled s"

definition pending_work :: "barrier \<Rightarrow> nat" where
  "pending_work s = card (unsettled s) + (if br_queued s = None then 0 else 2)"

lemma internal_step_less: "internal_step s s' \<Longrightarrow> pending_work s' < pending_work s"
proof (induction rule: internal_step.induct)
  case (ends p s)
  have "unsettled (settle p s) = unsettled s - {p}" "p \<in> unsettled s"
    using ends by (auto simp: unsettled_def settle_def advance_def)
  moreover have "finite (unsettled s)" by (simp add: unsettled_def)
  ultimately show ?case
    using card_Diff1_less[of "unsettled s" p] by (simp add: pending_work_def settle_def advance_def)
next
  case (chains s p cs)
  have "unsettled (run_queued cs s) \<subseteq> insert (length (br_started s)) (unsettled s)"
    by (auto simp: unsettled_def run_queued_def advance_def start_pass_def Let_def)
  then have "card (unsettled (run_queued cs s)) \<le> card (insert (length (br_started s)) (unsettled s))"
    by (intro card_mono) (simp_all add: unsettled_def)
  moreover have "length (br_started s) \<notin> unsettled s" "finite (unsettled s)" by (simp_all add: unsettled_def)
  ultimately have "card (unsettled (run_queued cs s)) \<le> Suc (card (unsettled s))" by simp
  moreover have "br_queued (run_queued cs s) = None"
    by (simp add: run_queued_def advance_def start_pass_def Let_def)
  ultimately show ?case using chains by (simp add: pending_work_def)
qed

lemma idle_all_answered:
  assumes ok: "barrier_ok s" and idle: "\<And>s'. \<not> internal_step s s'" and i: "i < length (br_calls s)"
  shows "answered s i"
proof -
  have settled: "p \<in> br_settled s" if "p < length (br_started s)" for p
    using idle[of "settle p s"] internal_step.ends[OF that] by blast
  have "br_queued s = None"
  proof (cases "br_queued s")
    case (Some q)
    then obtain p cs where q: "br_queued s = Some (p, cs)" by (cases q) auto
    then have "p \<in> br_settled s" using ok settled by (simp add: barrier_ok_def)
    then show ?thesis using idle[of "run_queued cs s"] internal_step.chains[OF q] by blast
  qed simp
  then have "barrier_inv s {}" using ok by (simp add: barrier_ok_def queued_calls_def)
  note inv = barrier_invD[OF this]
  have "i \<in> fst ` set (br_follows s) \<union> {}" unfolding inv(3) using i by simp
  then obtain p where p: "(i, p) \<in> set (br_follows s)" by auto
  then show ?thesis using inv(1)[OF p] settled unfolding answered_def by blast
qed

section \<open>A burst costs one pass\<close>

lemma ingest_now_running:
  assumes "br_running s = Some p"
  shows "br_running (ingest_now s) = Some p" "br_started (ingest_now s) = br_started s"
    "br_settled (ingest_now s) = br_settled s" "br_follows (ingest_now s) = br_follows s"
    "br_queued (ingest_now s) = Some (case br_queued s of None \<Rightarrow> (p, [length (br_calls s)])
       | Some (q, cs) \<Rightarrow> (q, cs @ [length (br_calls s)]))"
    "length (br_calls (ingest_now s)) = Suc (length (br_calls s))"
  using assms by (simp_all add: ingest_now_def advance_def Let_def)

lemma burst_queued:
  assumes "br_running s = Some p" "br_queued s = None"
  shows "br_running ((ingest_now ^^ n) s) = Some p \<and> br_started ((ingest_now ^^ n) s) = br_started s \<and>
    length (br_calls ((ingest_now ^^ n) s)) = length (br_calls s) + n \<and>
    br_queued ((ingest_now ^^ n) s) =
      (if n = 0 then None else Some (p, [length (br_calls s)..<length (br_calls s) + n]))"
proof (induction n)
  case (Suc n)
  then show ?case using ingest_now_running[of "(ingest_now ^^ n) s" p] by auto
qed (use assms in simp)

lemma burst_one_pass:
  assumes "br_running s = Some p" "br_queued s = None" "0 < n"
  defines "cs \<equiv> [length (br_calls s)..<length (br_calls s) + n]"
  defines "s' \<equiv> run_queued cs (settle p ((ingest_now ^^ n) s))"
  shows "br_queued (settle p ((ingest_now ^^ n) s)) = Some (p, cs)"
    "length (br_started s') = Suc (length (br_started s))"
    "i \<in> set cs \<Longrightarrow> (i, length (br_started s)) \<in> set (br_follows s')"
  using burst_queued[OF assms(1,2), of n] assms(3)
  by (auto simp: s'_def cs_def run_queued_def settle_def advance_def start_pass_def Let_def)

text \<open>Between the \<open>finally\<close> handler and the queued callback another call may start a pass of
  its own, so two passes can be in flight; they dedupe on \<open>usage_id\<close>.\<close>

lemma overlapping_passes:
  "\<exists>s. barrier_reach s \<and> card (unsettled s) = 2"
proof -
  let ?s1 = "ingest_now barrier_start"
  let ?s2 = "ingest_now ?s1"
  let ?s3 = "settle 0 ?s2"
  let ?s4 = "ingest_now ?s3"
  let ?s5 = "run_queued [1] ?s4"
  have "barrier_step ?s2 ?s3"
    by (rule pass_ends) (simp_all add: ingest_now_def barrier_start_def start_pass_def advance_def Let_def)
  moreover have "barrier_step ?s4 ?s5"
    by (rule chained[where p = 0])
      (simp_all add: ingest_now_def barrier_start_def start_pass_def settle_def advance_def Let_def)
  ultimately have "barrier_reach ?s5"
    unfolding barrier_reach_def
    by (meson barrier_step.call rtranclp.rtrancl_into_rtrancl rtranclp.rtrancl_refl)
  moreover have "unsettled ?s5 = {1, 2}"
    by (auto simp: unsettled_def ingest_now_def barrier_start_def start_pass_def run_queued_def
        settle_def advance_def Let_def)
  ultimately show ?thesis by (intro exI[of _ ?s5]) simp
qed

end
