(* ===== verification/Usage_Cursor.thy ===== *)
theory Usage_Cursor
  imports Uuid_Order Js_Number
begin

text \<open>
  The cross-machine cursor of \<open>api/src/routes/usage.ts\<close>: \<open>cursorOf\<close> packs the timestamp and
  counter of a version 7 id into one number, \<open>usageIdAtLeast\<close> gives the smallest id at
  or above a cursor.  Both run on doubles; the facts say for which ids they are exact.
\<close>

section \<open>Definitions\<close>

definition cursor_epoch_ms :: rat where
  "cursor_epoch_ms = 1767225600000"

definition cursor_of :: "string \<Rightarrow> js_num" where
  "cursor_of usage_id =
     (let hex = remove_all CHR ''-'' usage_id
      in case (parse_int16 (slice 0 12 hex), parse_int16 (slice 13 16 hex)) of
           (Fin ms, Fin counter) \<Rightarrow> Fin (js_add (js_mul (js_sub ms cursor_epoch_ms) 4096) counter)
         | _ \<Rightarrow> NaN)"

text \<open>\<open>toString(16)\<close>; of a fraction only the point is kept, which is all that matters
  for a text that is cast to \<open>uuid\<close>.\<close>

definition js_hex :: "js_num \<Rightarrow> string" where
  "js_hex n =
     (case n of
        NaN \<Rightarrow> ''NaN''
      | Infinity neg \<Rightarrow> (if neg then ''-Infinity'' else ''Infinity'')
      | Fin x \<Rightarrow> (if x < 0 then ''-'' else []) @ to_hex (nat \<lfloor>\<bar>x\<bar>\<rfloor>) @
          (if \<bar>x\<bar> = of_int \<lfloor>\<bar>x\<bar>\<rfloor> then [] else ''.''))"

text \<open>\<open>Math.floor(cursor / 4096) + CURSOR_EPOCH_MS\<close> and \<open>cursor % 4096\<close>.\<close>

definition cursor_ms :: "js_num \<Rightarrow> js_num" where
  "cursor_ms c =
     (case c of
        Fin x \<Rightarrow> Fin (js_add (of_int \<lfloor>js_div x 4096\<rfloor>) cursor_epoch_ms)
      | other \<Rightarrow> other)"

definition cursor_counter :: "js_num \<Rightarrow> js_num" where
  "cursor_counter c =
     (case c of
        Fin x \<Rightarrow> Fin (if 0 \<le> x then x - 4096 * of_int \<lfloor>x / 4096\<rfloor> else - (- x - 4096 * of_int \<lfloor>- x / 4096\<rfloor>))
      | _ \<Rightarrow> NaN)"

definition usage_id_at_least :: "js_num \<Rightarrow> string" where
  "usage_id_at_least cursor =
     (let hex = pad_start 12 CHR ''0'' (js_hex (cursor_ms cursor))
      in take 8 hex @ ''-'' @ drop 8 hex @ ''-7'' @
         pad_start 3 CHR ''0'' (js_hex (cursor_counter cursor)) @ ''-0000-000000000000'')"

section \<open>Exactness\<close>

definition cursor_value :: "uuid \<Rightarrow> int" where
  "cursor_value u = (int (uuid_ms u) - 1767225600000) * 4096 + int (uuid_counter u)"

text \<open>Ids stamped from 2026 on, for the next 34 years.\<close>

definition recent :: "uuid \<Rightarrow> bool" where
  "recent u \<longleftrightarrow> 1767225600000 \<le> uuid_ms u \<and> uuid_ms u < 1767225600000 + 2 ^ 40"

lemma recent_cursor: "recent u \<Longrightarrow> 0 \<le> cursor_value u \<and> cursor_value u < 2 ^ 52"
proof -
  assume u: "recent u"
  have c: "uuid_counter u < 4096" by (simp add: uuid_counter_def)
  show ?thesis using u c unfolding recent_def cursor_value_def by simp
qed

lemma slice_counter: "slice 13 16 (hex_digits 32 (unat u)) = hex_digits 3 (uuid_counter u)"
proof -
  have "slice 13 16 (hex_digits 32 (unat u)) = hex_digits 3 (unat u div 16 ^ 16)"
    by (simp add: slice_hex_digits)
  also have "\<dots> = hex_digits 3 (uuid_counter u)"
    unfolding hex_digits_eq uuid_counter_def by simp
  finally show ?thesis .
qed

lemma cursor_of_uuid:
  assumes "recent u"
  shows "cursor_of (uuid_text u) = Fin (of_int (cursor_value u))"
proof -
  let ?d = "int (uuid_ms u) - 1767225600000"
  have d: "\<bar>?d\<bar> \<le> 2 ^ 53" "\<bar>?d * 4096\<bar> \<le> 2 ^ 53" "\<bar>cursor_value u\<bar> \<le> 2 ^ 53"
    using assms recent_cursor[OF assms] by (auto simp: recent_def)
  have slices: "slice 0 12 (hex_digits 32 (unat u)) = hex_digits 12 (uuid_ms u)"
    by (simp add: slice_hex_digits uuid_ms_def)
  have counter: "parse_int16 (hex_digits 3 (uuid_counter u)) = Fin (of_nat (uuid_counter u))"
    using parse_int16_hex_digits[of 3 "uuid_counter u"] by (simp add: uuid_counter_def)
  have sub: "js_sub (of_nat (uuid_ms u)) cursor_epoch_ms = of_int ?d"
    using fl_of_int[OF d(1)] by (simp add: js_sub_def cursor_epoch_ms_def)
  have mul: "js_mul (of_int ?d) 4096 = of_int (?d * 4096)"
    using fl_of_int[OF d(2)] by (simp add: js_mul_def)
  have add: "js_add (of_int (?d * 4096)) (of_nat (uuid_counter u)) = of_int (cursor_value u)"
    using fl_of_int[OF d(3)] by (simp add: js_add_def cursor_value_def)
  show ?thesis
    unfolding cursor_of_def Let_def uuid_text_no_dash slices slice_counter
    by (simp only: parse_uuid_ms counter prod.case js_num.case sub mul add)
qed

section \<open>The smallest id of a cursor\<close>

definition least_id :: "nat \<Rightarrow> nat" where
  "least_id n = ((n div 4096 + 1767225600000) * 2 ^ 16 + 7 * 2 ^ 12 + n mod 4096) * 2 ^ 64"

lemma least_id_parts:
  assumes "n \<le> 2 ^ 52"
  shows "least_id n < 2 ^ 128" "least_id n div 16 ^ 20 = n div 4096 + 1767225600000"
    "least_id n div 16 ^ 24 = (n div 4096 + 1767225600000) div 16 ^ 4"
    "least_id n div 16 ^ 16 = (n div 4096 + 1767225600000) * 2 ^ 16 + 7 * 2 ^ 12 + n mod 4096"
    "least_id n div 16 ^ 12 mod 16 ^ 4 = 0" "least_id n mod 16 ^ 12 = 0"
proof -
  let ?h = "(n div 4096 + 1767225600000) * 2 ^ 16 + 7 * 2 ^ 12 + n mod 4096"
  have k: "7 * 2 ^ 12 + n mod 4096 < (2::nat) ^ 16" by simp
  have m: "n div 4096 + 1767225600000 < 2 ^ 48" using assms by simp
  then have "?h < 2 ^ 64" using k by simp
  then show "least_id n < 2 ^ 128" unfolding least_id_def by simp
  have "?h div 2 ^ 16 = n div 4096 + 1767225600000" using k by simp
  moreover have e: "least_id n div 16 ^ 16 = ?h" by (simp add: least_id_def)
  moreover have "least_id n div 16 ^ 20 = least_id n div 16 ^ 16 div 2 ^ 16"
    by (simp add: div_mult2_eq[symmetric])
  ultimately show ms: "least_id n div 16 ^ 20 = n div 4096 + 1767225600000" by simp
  have "least_id n div 16 ^ 24 = least_id n div 16 ^ 20 div 16 ^ 4"
    by (simp add: div_mult2_eq[symmetric])
  then show "least_id n div 16 ^ 24 = (n div 4096 + 1767225600000) div 16 ^ 4" unfolding ms .
  show "least_id n div 16 ^ 16 = ?h" by (rule e)
  have "least_id n div 16 ^ 12 = ?h * 16 ^ 4" by (simp add: least_id_def)
  then show "least_id n div 16 ^ 12 mod 16 ^ 4 = 0" by simp
  have "least_id n = ?h * 2 ^ 16 * 16 ^ 12" by (simp add: least_id_def)
  then show "least_id n mod 16 ^ 12 = 0" by (metis mod_mult_self2_is_0)
qed

lemma zeros_digits: "v mod 16 ^ n = 0 \<Longrightarrow> hex_digits n v = replicate n CHR ''0''"
proof -
  assume "v mod 16 ^ n = 0"
  then have "hex_digits n v = hex_digits n 0" by (simp add: hex_digits_eq)
  also have "hex_digits k 0 = replicate k CHR ''0''" for k
    by (induction k) (simp_all add: hex_char_def flip: replicate_append_same)
  finally show ?thesis .
qed

lemma js_hex_of_nat: "js_hex (Fin (of_nat v)) = to_hex v"
  by (simp add: js_hex_def)

lemma cursor_parts:
  assumes "n \<le> 2 ^ 52"
  shows "cursor_ms (Fin (of_nat n)) = Fin (of_nat (n div 4096 + 1767225600000))"
    "cursor_counter (Fin (of_nat n)) = Fin (of_nat (n mod 4096))"
proof -
  have "is_double (of_nat n / 4096)"
    using fl_exact[of "int n" "-12"] assms by (simp add: power_int_minus field_simps)
  then have "js_div (of_nat n) 4096 = of_nat n / 4096" unfolding js_div_def .
  moreover have fl: "\<lfloor>of_nat n / (4096::rat)\<rfloor> = int (n div 4096)"
    using floor_divide_of_nat_eq[of n 4096, where 'a = rat] by simp
  moreover have "n div 4096 + 1767225600000 \<le> 2 ^ 53" using assms by simp
  then have "js_add (of_nat (n div 4096)) cursor_epoch_ms = of_nat (n div 4096 + 1767225600000)"
    using fl_of_int[of "int (n div 4096 + 1767225600000)"] by (simp add: js_add_def cursor_epoch_ms_def)
  ultimately show "cursor_ms (Fin (of_nat n)) = Fin (of_nat (n div 4096 + 1767225600000))"
    by (simp only: cursor_ms_def js_num.case fl of_int_of_nat_eq)
  have "(of_nat n :: rat) = of_nat (4096 * (n div 4096) + n mod 4096)" by simp
  then have "of_nat n - 4096 * of_nat (n div 4096) = (of_nat (n mod 4096) :: rat)"
    unfolding of_nat_add of_nat_mult by simp
  then show "cursor_counter (Fin (of_nat n)) = Fin (of_nat (n mod 4096))"
    by (simp add: cursor_counter_def fl)
qed

lemma usage_id_at_least_text:
  assumes n: "n \<le> 2 ^ 52"
  shows "usage_id_at_least (Fin (of_nat n)) = uuid_text (of_nat (least_id n))"
proof -
  let ?m = "n div 4096 + 1767225600000"
  note parts = least_id_parts[OF n]
  have m: "?m < 16 ^ 12" using n by simp
  have hex: "pad_start 12 CHR ''0'' (to_hex ?m) = hex_digits 12 ?m"
    "pad_start 3 CHR ''0'' (to_hex (n mod 4096)) = hex_digits 3 (n mod 4096)"
    using pad_to_hex[OF m] pad_to_hex[of "n mod 4096" 3] by simp_all
  have split: "take 8 (hex_digits 12 ?m) = hex_digits 8 (?m div 16 ^ 4)" "drop 8 (hex_digits 12 ?m) = hex_digits 4 ?m"
    using take_hex_digits[of 8 12 ?m] drop_hex_digits[of 8 12 ?m] by simp_all
  have spelt: "usage_id_at_least (Fin (of_nat n)) = hex_digits 8 (?m div 16 ^ 4) @ ''-'' @ hex_digits 4 ?m @ ''-7'' @
      hex_digits 3 (n mod 4096) @ ''-0000-000000000000''"
    unfolding usage_id_at_least_def Let_def cursor_parts[OF n] js_hex_of_nat hex split ..
  have unat_id: "unat (of_nat (least_id n) :: uuid) = least_id n"
    using parts(1) by (simp add: unsigned_of_nat take_bit_nat_eq_self)
  let ?v = "least_id n div 16 ^ 16"
  have v: "?v = (?m * 16 + 7) * 4096 + n mod 4096" unfolding parts(4) by simp
  have "?v mod 4096 = n mod 4096" unfolding v mod_mult_self3 by simp
  moreover have "?v div 4096 = ?m * 16 + 7"
    unfolding v by (subst div_mult_self3) (simp_all only: mod_div_trivial add_0_right numeral_neq_zero not_False_eq_True)
  moreover have "(?m * 16 + 7) mod 16 = 7" unfolding mod_mult_self3 by simp
  ultimately have "?v mod 16 ^ 3 = n mod 4096 mod 16 ^ 3" "?v div 16 ^ 3 mod 16 ^ 1 = 7 mod 16 ^ 1" by simp_all
  then have digits: "hex_digits 3 ?v = hex_digits 3 (n mod 4096)" "hex_digits 1 (?v div 16 ^ 3) = hex_digits 1 7"
    unfolding hex_digits_eq .
  have "hex_digits 4 ?v = hex_digits 1 7 @ hex_digits 3 (n mod 4096)"
    using hex_digits_append[of 1 3 ?v] unfolding digits by simp
  moreover have "hex_digits 1 7 = ''7''" by (simp add: hex_char_def)
  ultimately have third: "hex_digits 4 (least_id n div 16 ^ 16) = ''7'' @ hex_digits 3 (n mod 4096)" by simp
  have zeros: "hex_digits 4 (least_id n div 16 ^ 12) = ''0000''" "hex_digits 12 (least_id n) = ''000000000000''"
  proof -
    have r: "replicate 4 CHR ''0'' = ''0000''" "replicate 12 CHR ''0'' = ''000000000000''"
      by (simp_all add: numeral_eq_Suc)
    show "hex_digits 4 (least_id n div 16 ^ 12) = ''0000''" "hex_digits 12 (least_id n) = ''000000000000''"
      unfolding zeros_digits[OF parts(5)] zeros_digits[OF parts(6)] by (rule r)+
  qed
  show ?thesis
    unfolding spelt uuid_text_digits unat_id parts(2,3) third zeros
    by (simp only: append.simps)
qed

section \<open>Cursors order ids\<close>

lemma pack_le_iff:
  fixes a b c d :: nat
  assumes "b < 4096" "d < 4096"
  shows "a * 2 ^ 16 + b \<le> c * 2 ^ 16 + d \<longleftrightarrow> a * 4096 + b \<le> c * 4096 + d"
proof (cases a c rule: linorder_cases)
  case less
  then have "Suc a * 4096 \<le> c * 4096" "Suc a * 2 ^ 16 \<le> c * 2 ^ 16" by simp_all
  then show ?thesis using assms by simp
next
  case greater
  then have "Suc c * 4096 \<le> a * 4096" "Suc c * 2 ^ 16 \<le> a * 2 ^ 16" by simp_all
  then show ?thesis using assms by simp
qed simp

lemma unat_version7:
  assumes "version7 u"
  shows "unat u div 2 ^ 64 = uuid_ms u * 2 ^ 16 + 7 * 2 ^ 12 + uuid_counter u"
proof -
  let ?h = "unat u div 2 ^ 64"
  have v: "?h div 2 ^ 12 mod 16 = 7" using assms by (simp add: version7_def div_mult2_eq[symmetric])
  have "?h div 2 ^ 12 = 16 * (?h div 2 ^ 12 div 16) + 7" using v by (metis mult_div_mod_eq)
  moreover have "?h div 2 ^ 12 div 16 = uuid_ms u" by (simp add: uuid_ms_def div_mult2_eq[symmetric])
  moreover have "?h = 2 ^ 12 * (?h div 2 ^ 12) + uuid_counter u"
    unfolding uuid_counter_def by (metis mult_div_mod_eq)
  ultimately show ?thesis by simp
qed

text \<open>The ids from \<open>usageIdAtLeast n\<close> on are exactly those with a cursor of at least \<open>n\<close>.\<close>

lemma least_id_le_iff:
  assumes u: "version7 u" "recent u" and n: "n \<le> 2 ^ 52"
  shows "of_nat (least_id n) \<le> u \<longleftrightarrow> int n \<le> cursor_value u"
proof -
  let ?a = "n div 4096" and ?b = "n mod 4096" and ?c = "uuid_ms u - 1767225600000" and ?d = "uuid_counter u"
  have bounds: "?b < 4096" "?d < 4096" by (simp_all add: uuid_counter_def)
  have ms: "uuid_ms u = ?c + 1767225600000" using u(2) by (simp add: recent_def)
  have unat_id: "unat (of_nat (least_id n) :: uuid) = least_id n"
    using least_id_parts(1)[OF n] by (simp add: unsigned_of_nat take_bit_nat_eq_self)
  have "of_nat (least_id n) \<le> u \<longleftrightarrow> least_id n \<le> unat u"
    unfolding word_le_nat_alt unat_id ..
  also have "\<dots> \<longleftrightarrow> (?a + 1767225600000) * 2 ^ 16 + 7 * 2 ^ 12 + ?b \<le> unat u div 2 ^ 64"
    unfolding least_id_def by (simp add: less_eq_div_iff_mult_less_eq)
  also have "\<dots> \<longleftrightarrow> ?a * 2 ^ 16 + ?b \<le> ?c * 2 ^ 16 + ?d"
    unfolding unat_version7[OF u(1)] by (subst ms) simp
  also have "\<dots> \<longleftrightarrow> ?a * 4096 + ?b \<le> ?c * 4096 + ?d"
    using bounds by (rule pack_le_iff)
  also have "?c * 4096 + ?d = nat (cursor_value u)"
    unfolding cursor_value_def by (subst (2) ms) simp
  also have "?a * 4096 + ?b \<le> nat (cursor_value u) \<longleftrightarrow> int n \<le> cursor_value u"
    using recent_cursor[OF u(2)] by (simp add: nat_le_iff le_nat_iff)
  finally show ?thesis .
qed

lemma cursor_mono:
  assumes "version7 u" "version7 v" "u \<le> v"
  shows "cursor_value u \<le> cursor_value v"
proof -
  have "unat u div 2 ^ 64 \<le> unat v div 2 ^ 64" using assms(3) by (simp add: word_le_nat_alt div_le_mono)
  moreover have "uuid_counter u < 4096" "uuid_counter v < 4096" by (simp_all add: uuid_counter_def)
  ultimately show ?thesis
    using pack_le_iff[of "uuid_counter u" "uuid_counter v" "uuid_ms u" "uuid_ms v"]
    unfolding unat_version7[OF assms(1)] unat_version7[OF assms(2)] cursor_value_def by simp
qed

end
