(* ===== verification/Key_Usage.thy ===== *)
theory Key_Usage
  imports Usage_Cursor Usage_Ledger Js_Parse
begin

text \<open>
  The key holder's \<open>GET /usage\<close> of \<open>api/src/routes/usage.ts\<close>: a credential reads the rows of
  its own scope from a cursor on, a page at a time, with the tail of rows that share the
  last cursor kept in the page.
\<close>

section \<open>The request\<close>

record usage_query =
  qu_since :: "string option"
  qu_limit :: "string option"
  qu_key_id :: "string option"
  qu_jti :: "string option"
  qu_name :: "string option"

text \<open>\<open>c.req.query(name) || undefined\<close>.\<close>

definition given :: "string option \<Rightarrow> string option" where
  "given v = (case v of Some [] \<Rightarrow> None | _ \<Rightarrow> v)"

text \<open>\<open>Number(text ?? d) || d\<close>.\<close>

definition number_or :: "string option \<Rightarrow> rat \<Rightarrow> js_num" where
  "number_or v d =
     (case v of
        None \<Rightarrow> Fin d
      | Some s \<Rightarrow> (case js_number s of NaN \<Rightarrow> Fin d | Fin x \<Rightarrow> Fin (if x = 0 then d else x) | n \<Rightarrow> n))"

definition max_limit :: rat where
  "max_limit = 5000"

definition since_of :: "usage_query \<Rightarrow> js_num" where
  "since_of q =
     (case number_or (given (qu_since q)) 0 of
        Fin x \<Rightarrow> Fin (max 0 x)
      | Infinity neg \<Rightarrow> (if neg then Fin 0 else Infinity False)
      | NaN \<Rightarrow> NaN)"

definition limit_of :: "usage_query \<Rightarrow> rat" where
  "limit_of q =
     (case number_or (given (qu_limit q)) max_limit of
        Fin x \<Rightarrow> min max_limit (max 1 x)
      | Infinity neg \<Rightarrow> (if neg then 1 else max_limit)
      | NaN \<Rightarrow> max_limit)"

definition js_succ :: "js_num \<Rightarrow> js_num" where
  "js_succ n = (case n of Fin x \<Rightarrow> Fin (js_add x 1) | other \<Rightarrow> other)"

definition key_filters :: "usage_query \<Rightarrow> string list" where
  "key_filters q = List.map_filter given [qu_key_id q, qu_jti q]"

section \<open>The rows\<close>

definition in_scope :: "usage_scope \<Rightarrow> usage_row \<Rightarrow> bool" where
  "in_scope scope u =
     (case scope_type scope of
        Top \<Rightarrow> ul_root u = Some (scope_key scope)
      | Derived \<Rightarrow> ul_key_id u = scope_key scope)"

text \<open>The \<open>WHERE\<close> clause without the range: the scope, the filters, and the join with the key.\<close>

definition wanted :: "db \<Rightarrow> usage_scope \<Rightarrow> string list \<Rightarrow> string option \<Rightarrow> usage_row \<Rightarrow> bool" where
  "wanted d scope keys name u \<longleftrightarrow> in_scope scope u \<and>
     list_all (\<lambda>k. uuid_text (ul_key_id u) = k) keys \<and>
     (case find_key d (ul_key_id u) of
        None \<Rightarrow> False
      | Some k \<Rightarrow> (case name of None \<Rightarrow> True | Some n \<Rightarrow> key_label k = n))"

text \<open>Rows without a \<open>usage_id\<close> are in no range.\<close>

definition row_uuid :: "usage_row \<Rightarrow> uuid" where
  "row_uuid u = or_else (ul_usage_id u) 0"

definition select_rows :: "db \<Rightarrow> (usage_row \<Rightarrow> bool) \<Rightarrow> (uuid \<Rightarrow> bool) \<Rightarrow> nat \<Rightarrow> usage_row list" where
  "select_rows d want in_page n =
     take n (sort_key row_uuid
       (filter (\<lambda>u. ul_usage_id u \<noteq> None \<and> want u \<and> in_page (row_uuid u)) (db_usage d)))"

record key_usage_row =
  ku_id :: js_num
  ku_usage_id :: string
  ku_machine_id :: "string option"
  ku_key_id :: string
  ku_jti :: string
  ku_name :: string
  ku_parent :: "string option"
  ku_root :: "string option"
  ku_model :: "string option"
  ku_input_tokens :: int
  ku_output_tokens :: int
  ku_cache_read_tokens :: int
  ku_cache_write_tokens :: int
  ku_provider_cost :: "rat option"
  ku_currency :: "string option"
  ku_cost_usd :: "rat option"
  ku_price_id :: "string option"
  ku_created_at :: js_time

text \<open>\<open>NUMERIC\<close> values come as \<open>float8\<close> or as text for \<open>Number\<close>, the nearest double either
  way; \<open>created_at\<close> is its text to the millisecond.\<close>

definition usage_view :: "db \<Rightarrow> usage_row \<Rightarrow> key_usage_row" where
  "usage_view d u =
     \<lparr>ku_id = cursor_of (uuid_text (row_uuid u)), ku_usage_id = uuid_text (row_uuid u),
      ku_machine_id = ul_machine_id u, ku_key_id = uuid_text (ul_key_id u), ku_jti = uuid_text (ul_key_id u),
      ku_name = (case find_key d (ul_key_id u) of Some k \<Rightarrow> key_label k | None \<Rightarrow> []),
      ku_parent = map_option uuid_text (ul_parent u), ku_root = map_option uuid_text (ul_root u),
      ku_model = ul_model u, ku_input_tokens = ul_tokens_in u, ku_output_tokens = ul_tokens_out u,
      ku_cache_read_tokens = ul_cache_read u, ku_cache_write_tokens = ul_cache_write u,
      ku_provider_cost = map_option fl (ul_provider_cost u), ku_currency = ul_provider_currency u,
      ku_cost_usd = map_option fl (ul_cost u), ku_price_id = map_option uuid_text (ul_price_id u),
      ku_created_at = js_date (ul_created_at u)\<rparr>"

record key_totals =
  kt_requests :: rat
  kt_input_tokens :: rat
  kt_output_tokens :: rat
  kt_cache_read_tokens :: rat
  kt_cache_write_tokens :: rat
  kt_cost_usd :: rat

definition add_totals :: "key_usage_row \<Rightarrow> key_totals \<Rightarrow> key_totals" where
  "add_totals r t =
     \<lparr>kt_requests = js_add (kt_requests t) 1,
      kt_input_tokens = js_add (kt_input_tokens t) (of_int (ku_input_tokens r)),
      kt_output_tokens = js_add (kt_output_tokens t) (of_int (ku_output_tokens r)),
      kt_cache_read_tokens = js_add (kt_cache_read_tokens t) (of_int (ku_cache_read_tokens r)),
      kt_cache_write_tokens = js_add (kt_cache_write_tokens t) (of_int (ku_cache_write_tokens r)),
      kt_cost_usd = (case ku_cost_usd r of None \<Rightarrow> kt_cost_usd t | Some c \<Rightarrow> js_add (kt_cost_usd t) c)\<rparr>"

definition key_totals_of :: "key_usage_row list \<Rightarrow> key_totals" where
  "key_totals_of rows =
     fold add_totals rows
       \<lparr>kt_requests = 0, kt_input_tokens = 0, kt_output_tokens = 0, kt_cache_read_tokens = 0,
        kt_cache_write_tokens = 0, kt_cost_usd = 0\<rparr>"

section \<open>The page\<close>

text \<open>\<open>None\<close>: a range bound that is no \<open>uuid\<close>, or a limit that is no integer, fails the
  statement.\<close>

definition page_rows_of :: "db \<Rightarrow> (usage_row \<Rightarrow> bool) \<Rightarrow> js_num \<Rightarrow> rat \<Rightarrow> usage_row list option" where
  "page_rows_of d want since limit =
     (case pg_uuid (usage_id_at_least (js_succ since)) of
        None \<Rightarrow> None
      | Some lo \<Rightarrow>
          if limit \<noteq> of_int \<lfloor>limit\<rfloor> then None
          else
            (let n = nat \<lfloor>limit\<rfloor>; rows = select_rows d want (\<lambda>i. lo \<le> i) n
             in if length rows = n then
                  (let last = row_uuid (List.last rows)
                   in case pg_uuid (usage_id_at_least (js_succ (cursor_of (uuid_text last)))) of
                        None \<Rightarrow> None
                      | Some hi \<Rightarrow> Some (rows @ select_rows d want (\<lambda>i. last < i \<and> i < hi) 5000))
                else Some rows))"

record key_usage_page =
  kp_rows :: "key_usage_row list"
  kp_max_id :: "js_num option"
  kp_totals :: key_totals
  kp_partial :: "string list"

datatype usage_error = Credential_rejected | Usage_sql_error

text \<open>The handler: \<open>failed\<close> is what the ingest barrier answered, or \<open>timeout\<close>; \<open>d0\<close> is the
  database when the credential is checked, \<open>d\<close> after the barrier.\<close>

definition key_usage ::
  "(bytes \<Rightarrow> bytes) \<Rightarrow> (string \<Rightarrow> json option) \<Rightarrow> pg_time \<Rightarrow> db \<Rightarrow> (string \<Rightarrow> string option) \<Rightarrow>
     string list \<Rightarrow> db \<Rightarrow> usage_query \<Rightarrow> (usage_error, key_usage_page) reply" where
  "key_usage sha256 verify_jwt now d0 headers failed d q =
     (case verify_gateway_credential sha256 verify_jwt now d0 (extract_credential headers) of
        Inl _ \<Rightarrow> Failure 500 Usage_sql_error
      | Inr None \<Rightarrow> Failure 401 Credential_rejected
      | Inr (Some scope) \<Rightarrow>
          (case page_rows_of d (wanted d scope (key_filters q) (given (qu_name q))) (since_of q) (limit_of q) of
             None \<Rightarrow> Failure 500 Usage_sql_error
           | Some us \<Rightarrow>
               (let rows = map (usage_view d) us
                in Answer 200 \<lparr>kp_rows = rows,
                     kp_max_id = (if rows = [] then None else Some (ku_id (last rows))),
                     kp_totals = key_totals_of rows, kp_partial = failed\<rparr>)))"

section \<open>What a page holds\<close>

definition usage_base :: "db \<Rightarrow> (usage_row \<Rightarrow> bool) \<Rightarrow> usage_row list" where
  "usage_base d want = sort_key row_uuid (filter (\<lambda>u. ul_usage_id u \<noteq> None \<and> want u) (db_usage d))"

definition row_cursor :: "usage_row \<Rightarrow> int" where
  "row_cursor u = cursor_value (row_uuid u)"

definition rows_after :: "db \<Rightarrow> (usage_row \<Rightarrow> bool) \<Rightarrow> int \<Rightarrow> usage_row list" where
  "rows_after d want c = filter (\<lambda>u. c < row_cursor u) (usage_base d want)"

text \<open>The ids in the table are ids the proxies made, and at most 5000 rows share a cursor.\<close>

definition ids_ok :: "db \<Rightarrow> bool" where
  "ids_ok d \<longleftrightarrow> distinct (usage_ids d) \<and>
     (\<forall>u\<in>set (db_usage d). ul_usage_id u \<noteq> None \<longrightarrow> version7 (row_uuid u) \<and> recent (row_uuid u)) \<and>
     (\<forall>c. length (filter (\<lambda>u. ul_usage_id u \<noteq> None \<and> row_cursor u = c) (db_usage d)) \<le> 5000)"

lemma select_rows_base: "select_rows d want in_page n = take n (filter (\<lambda>u. in_page (row_uuid u)) (usage_base d want))"
  unfolding select_rows_def usage_base_def filter_sort filter_filter by (simp add: conj_ac cong: conj_cong)

lemma usage_base_sorted: "sorted (map row_uuid (usage_base d want))"
  by (simp add: usage_base_def)

lemma usage_base_set:
  "u \<in> set (usage_base d want) \<longleftrightarrow> u \<in> set (db_usage d) \<and> ul_usage_id u \<noteq> None \<and> want u"
  by (auto simp: usage_base_def)

lemma distinct_row_uuid:
  "distinct (List.map_filter ul_usage_id us) \<Longrightarrow> distinct (map row_uuid (filter (\<lambda>u. ul_usage_id u \<noteq> None \<and> want u) us))"
proof (induction us)
  case (Cons u us)
  then show ?case
    by (cases "ul_usage_id u") (force simp: List.map_filter_simps row_uuid_def set_map_filter image_iff)+
qed simp

lemma usage_base_distinct: "ids_ok d \<Longrightarrow> distinct (map row_uuid (usage_base d want))"
proof -
  assume "ids_ok d"
  then have "distinct (map row_uuid (filter (\<lambda>u. ul_usage_id u \<noteq> None \<and> want u) (db_usage d)))"
    by (intro distinct_row_uuid) (simp add: ids_ok_def usage_ids_def)
  then show ?thesis unfolding usage_base_def distinct_map by simp
qed

text \<open>The first \<open>n\<close> of a list sorted without repetition are those up to the \<open>n\<close>-th.\<close>

lemma take_drop_sorted:
  fixes f :: "'a \<Rightarrow> 'b::linorder"
  assumes "sorted (map f xs)" "distinct (map f xs)" "0 < n" "n \<le> length xs"
  defines "l \<equiv> f (last (take n xs))"
  shows "\<And>x. x \<in> set (take n xs) \<Longrightarrow> f x \<le> l" "\<And>x. x \<in> set (drop n xs) \<Longrightarrow> l < f x"
proof -
  obtain ys y where ys: "take n xs = ys @ [y]" using assms(3,4) by (cases "take n xs" rule: rev_cases) auto
  have xs: "xs = ys @ y # drop n xs" using append_take_drop_id[of n xs] ys by simp
  have l: "l = f y" by (simp add: l_def ys)
  have "sorted (map f (ys @ y # drop n xs))" "distinct (map f (ys @ y # drop n xs))"
    using assms(1,2) by (simp_all only: flip: xs)
  then show "f x \<le> l" if "x \<in> set (take n xs)" for x
    using that unfolding l ys by (auto simp: sorted_append)
  show "l < f x" if "x \<in> set (drop n xs)" for x
    using that \<open>sorted (map f (ys @ y # drop n xs))\<close> \<open>distinct (map f (ys @ y # drop n xs))\<close>
    unfolding l by (auto simp: sorted_append order.strict_iff_order image_iff)
qed

lemma sorted_split:
  fixes f :: "'a \<Rightarrow> 'b::linorder"
  shows "sorted (map f xs) \<Longrightarrow> filter (\<lambda>x. f x \<le> m) xs @ filter (\<lambda>x. m < f x) xs = xs"
proof (induction xs)
  case (Cons x xs)
  show ?case
  proof (cases "f x \<le> m")
    case False
    then have "filter (\<lambda>x. f x \<le> m) xs = []" "filter (\<lambda>x. m < f x) xs = xs"
      using Cons.prems by (auto simp: filter_empty_conv filter_id_conv)
    then show ?thesis using False by simp
  qed (use Cons in auto)
qed simp

lemma length_filter_drop: "length (filter P (drop n xs)) \<le> length (filter P xs)"
proof -
  have "length (filter P xs) = length (filter P (take n xs)) + length (filter P (drop n xs))"
    by (metis append_take_drop_id filter_append length_append)
  then show ?thesis by simp
qed

lemma rows_at_cursor:
  assumes "ids_ok d"
  shows "length (filter (\<lambda>u. row_cursor u = m) (drop n (rows_after d want c))) \<le> 5000"
proof -
  have "length (filter (\<lambda>u. row_cursor u = m) (drop n (rows_after d want c))) \<le>
      length (filter (\<lambda>u. row_cursor u = m) (rows_after d want c))" by (rule length_filter_drop)
  also have "\<dots> = length (filter (\<lambda>u. c < row_cursor u \<and> want u) (filter (\<lambda>u. ul_usage_id u \<noteq> None \<and> row_cursor u = m) (db_usage d)))"
    unfolding rows_after_def usage_base_def filter_sort filter_filter length_sort
    by (rule arg_cong[of _ _ length]) (rule filter_cong, auto)
  also have "\<dots> \<le> length (filter (\<lambda>u. ul_usage_id u \<noteq> None \<and> row_cursor u = m) (db_usage d))"
    by (rule length_filter_le)
  also have "\<dots> \<le> 5000" using assms by (simp add: ids_ok_def)
  finally show ?thesis .
qed

text \<open>A page and what comes after its last cursor make up what comes after \<open>since\<close>.\<close>

lemma usage_base_id: "u \<in> set (usage_base d want) \<Longrightarrow> ids_ok d \<Longrightarrow> version7 (row_uuid u) \<and> recent (row_uuid u)"
  by (auto simp: usage_base_set ids_ok_def)

lemma bound_reads_back:
  assumes "c < 2 ^ 52"
  shows "pg_uuid (usage_id_at_least (js_succ (Fin (of_nat c)))) = Some (of_nat (least_id (Suc c)))"
proof -
  have "js_succ (Fin (of_nat c)) = Fin (of_nat (Suc c))"
    using fl_of_int[of "int (Suc c)"] assms by (simp add: js_succ_def js_add_def add.commute)
  then show ?thesis using assms usage_id_at_least_text[of "Suc c"] pg_uuid_uuid_text by simp
qed

lemma page_rows_partition:
  assumes ok: "ids_ok d" and c: "c < 2 ^ 52" and n: "0 < n"
  obtains us where "page_rows_of d want (Fin (of_nat c)) (of_nat n) = Some us"
    "us = [] \<longrightarrow> rows_after d want (int c) = []"
    "us \<noteq> [] \<longrightarrow> rows_after d want (int c) = us @ rows_after d want (row_cursor (last us))"
    "us \<noteq> [] \<longrightarrow> int c < row_cursor (last us)"
proof -
  let ?base = "usage_base d want" and ?all = "rows_after d want (int c)"
  have ids: "version7 (row_uuid u)" "recent (row_uuid u)" if "u \<in> set ?base" for u
    using usage_base_id[OF that ok] by simp_all
  have first: "select_rows d want (\<lambda>i. of_nat (least_id (Suc c)) \<le> i) n = take n ?all"
  proof -
    have "filter (\<lambda>u. of_nat (least_id (Suc c)) \<le> row_uuid u) ?base = filter (\<lambda>u. int c < row_cursor u) ?base"
      using least_id_le_iff[OF ids] c by (intro filter_cong refl) (auto simp: row_cursor_def)
    then show ?thesis by (simp add: select_rows_base rows_after_def)
  qed
  have all: "sorted (map row_uuid ?all)" "distinct (map row_uuid ?all)" "set ?all \<subseteq> set ?base"
    unfolding rows_after_def
    by (rule sorted_filter[OF usage_base_sorted], rule List.distinct_map_filter[OF usage_base_distinct[OF ok]], simp)
  show ?thesis
  proof (cases "length (take n ?all) = n")
    case False
    then have short: "take n ?all = ?all" by (simp add: min_def split: if_splits)
    then have "length ?all \<noteq> n" using False by simp
    then have page: "page_rows_of d want (Fin (of_nat c)) (of_nat n) = Some ?all"
      unfolding page_rows_of_def bound_reads_back[OF c] option.case floor_of_nat nat_int first Let_def short by simp
    have "rows_after d want (row_cursor (last ?all)) = []" if "?all \<noteq> []"
    proof -
      have last: "last ?all \<in> set ?all" using that by simp
      then have "int c < row_cursor (last ?all)" by (simp add: rows_after_def)
      moreover have "row_cursor u \<le> row_cursor (last ?all)" if u: "u \<in> set ?all" for u
      proof -
        have "?all \<noteq> []" using u by auto
        then have "row_uuid u \<le> row_uuid (last ?all)"
          using take_drop_sorted(1)[OF all(1,2), of "length ?all" u] u by simp
        then show ?thesis using cursor_mono ids all(3) u last unfolding row_cursor_def by blast
      qed
      ultimately have "\<not> row_cursor (last ?all) < row_cursor u" if "u \<in> set ?base" for u
        using that by (cases "int c < row_cursor u") (auto simp: rows_after_def not_less)
      then show ?thesis unfolding rows_after_def[of d want "row_cursor _"] filter_empty_conv by blast
    qed
    moreover have "int c < row_cursor (last ?all)" if "?all \<noteq> []"
      using last_in_set[OF that] by (simp add: rows_after_def)
    ultimately show ?thesis using that[OF page] by simp
  next
    case True
    define l where "l = last (take n ?all)"
    let ?m = "row_cursor l"
    have le: "n \<le> length ?all" using True by simp
    have l: "l \<in> set ?all" unfolding l_def using n True by (metis in_set_takeD last_in_set length_0_conv less_irrefl)
    then have lb: "l \<in> set ?base" using all(3) by blast
    have m: "int c < ?m" "?m < 2 ^ 52" "0 \<le> ?m"
      using l recent_cursor[OF ids(2)[OF lb]] by (auto simp: rows_after_def row_cursor_def)
    have cur: "cursor_of (uuid_text (row_uuid l)) = Fin (of_nat (nat ?m))"
      using cursor_of_uuid[OF ids(2)[OF lb]] m(3) by (simp add: row_cursor_def)
    note split = take_drop_sorted[OF all(1,2) n le, folded l_def]
    let ?tail = "filter (\<lambda>u. row_cursor u \<le> ?m) (drop n ?all)"
    have later: "row_cursor u \<ge> ?m" if "u \<in> set ?base" "row_uuid l \<le> row_uuid u" for u
      using cursor_mono[of "row_uuid l" "row_uuid u"] ids that lb unfolding row_cursor_def by blast
    have below: "row_uuid u < of_nat (least_id (Suc (nat ?m))) \<longleftrightarrow> row_cursor u \<le> ?m" if "u \<in> set ?base" for u
      using least_id_le_iff[OF ids[OF that], of "Suc (nat ?m)"] m by (auto simp: row_cursor_def not_le[symmetric])
    have tail: "select_rows d want (\<lambda>i. row_uuid l < i \<and> i < of_nat (least_id (Suc (nat ?m)))) 5000 = ?tail"
    proof -
      let ?in = "\<lambda>u. row_uuid l < row_uuid u \<and> row_uuid u < of_nat (least_id (Suc (nat ?m)))"
      have "filter ?in ?base = filter ?in ?all"
        unfolding rows_after_def filter_filter using later m(1) by (intro filter_cong refl) fastforce
      also have "\<dots> = filter ?in (take n ?all) @ filter ?in (drop n ?all)"
        unfolding filter_append[symmetric] append_take_drop_id ..
      also have "filter ?in (take n ?all) = []"
        unfolding filter_empty_conv using split(1) by (metis linorder_not_less)
      also have "filter ?in (drop n ?all) = ?tail"
        using split(2) below all(3) by (intro filter_cong refl) (metis in_set_dropD subsetD)
      finally have "filter ?in ?base = ?tail" by simp
      moreover have "?tail = filter (\<lambda>u. row_cursor u = ?m) (drop n ?all)"
        using split(2) later all(3) by (intro filter_cong refl) (metis in_set_dropD subsetD order.antisym order.refl less_imp_le)
      ultimately show ?thesis using rows_at_cursor[OF ok, of ?m n want "int c"] by (simp add: select_rows_base)
    qed
    have len: "length (take n ?all) = n" by (rule True)
    have m_nat: "nat ?m < 2 ^ 52" using m by simp
    have page: "page_rows_of d want (Fin (of_nat c)) (of_nat n) = Some (take n ?all @ ?tail)"
      unfolding page_rows_of_def bound_reads_back[OF c] option.case floor_of_nat nat_int first Let_def len l_def[symmetric] cur
        bound_reads_back[OF m_nat] option.case tail by simp
    have last: "row_cursor (last (take n ?all @ ?tail)) = ?m"
    proof (cases "?tail = []")
      case False
      then have "last ?tail \<in> set ?tail" by (rule last_in_set)
      then have t: "last ?tail \<in> set (drop n ?all)" "row_cursor (last ?tail) \<le> ?m"
        unfolding set_filter mem_Collect_eq by blast+
      have "?m \<le> row_cursor (last ?tail)"
        using later[of "last ?tail"] split(2)[OF t(1)] in_set_dropD[OF t(1)] all(3) by auto
      then show ?thesis using t(2) False by simp
    qed (simp flip: l_def)
    have "sorted_wrt (\<lambda>x y. row_cursor x \<le> row_cursor y) ?all"
    proof (rule sorted_wrt_mono_rel[OF _ all(1)[unfolded sorted_map]])
      fix x y assume "x \<in> set ?all" "y \<in> set ?all" "row_uuid x \<le> row_uuid y"
      then show "row_cursor x \<le> row_cursor y"
        using cursor_mono[of "row_uuid x" "row_uuid y"] ids(1) all(3) unfolding row_cursor_def by blast
    qed
    then have cursors: "sorted (map row_cursor (drop n ?all))"
      unfolding sorted_map by (rule sorted_wrt_drop)
    have "rows_after d want ?m = filter (\<lambda>u. ?m < row_cursor u) (drop n ?all)"
    proof -
      have "rows_after d want ?m = filter (\<lambda>u. ?m < row_cursor u) ?all"
        unfolding rows_after_def filter_filter using m(1) by (intro filter_cong refl) auto
      also have "\<dots> = filter (\<lambda>u. ?m < row_cursor u) (take n ?all) @ filter (\<lambda>u. ?m < row_cursor u) (drop n ?all)"
        unfolding filter_append[symmetric] append_take_drop_id ..
      also have "filter (\<lambda>u. ?m < row_cursor u) (take n ?all) = []"
        unfolding filter_empty_conv
      proof
        fix u assume u: "u \<in> set (take n ?all)"
        then have "u \<in> set ?base" using all(3) by (metis in_set_takeD subsetD)
        then show "\<not> ?m < row_cursor u"
          using cursor_mono[of "row_uuid u" "row_uuid l"] split(1)[OF u] ids lb unfolding row_cursor_def by fastforce
      qed
      finally show ?thesis by simp
    qed
    then have "?all = (take n ?all @ ?tail) @ rows_after d want (row_cursor (last (take n ?all @ ?tail)))"
      unfolding last using sorted_split[OF cursors, of ?m] by simp
    moreover have "take n ?all @ ?tail \<noteq> []" using n len by auto
    ultimately show ?thesis using that[OF page] m(1) last by auto
  qed
qed

section \<open>Only its own rows\<close>

lemma page_rows_wanted:
  assumes "page_rows_of d want since limit = Some us" "u \<in> set us"
  shows "u \<in> set (db_usage d) \<and> want u"
proof -
  have "set (select_rows d want in_page n) \<subseteq> {u \<in> set (db_usage d). want u}" for in_page n
    unfolding select_rows_def by (rule subset_trans[OF set_take_subset]) auto
  then show ?thesis
    using assms by (fastforce simp: page_rows_of_def Let_def split: option.splits if_splits)
qed

lemma key_usage_scope:
  assumes "key_usage sha256 verify_jwt now d0 headers failed d q = Answer st page"
  obtains scope us where "st = 200" "kp_rows page = map (usage_view d) us" "kp_partial page = failed"
    "verify_gateway_credential sha256 verify_jwt now d0 (extract_credential headers) = Inr (Some scope)"
    "set us \<subseteq> {u \<in> set (db_usage d). wanted d scope (key_filters q) (given (qu_name q)) u}"
  using assms page_rows_wanted
  by (fastforce simp: key_usage_def Let_def split: sum.splits option.splits)

section \<open>Totals\<close>

text \<open>While the sums stay below 2^53 every count is exact.\<close>

lemma js_add_int: "\<bar>a + b\<bar> \<le> 2 ^ 53 \<Longrightarrow> js_add (of_int a) (of_int b) = of_int (a + b)"
  using fl_of_int[of "a + b"] by (simp add: js_add_def)

lemma fold_totals_exact:
  assumes "\<And>r. r \<in> set rows \<Longrightarrow> 0 \<le> ku_input_tokens r \<and> 0 \<le> ku_output_tokens r"
    and "kt_requests t = of_int a" "kt_input_tokens t = of_int b" "kt_output_tokens t = of_int c"
    and "0 \<le> a" "0 \<le> b" "0 \<le> c"
    and "a + int (length rows) \<le> 2 ^ 53" "b + sum_list (map ku_input_tokens rows) \<le> 2 ^ 53"
      "c + sum_list (map ku_output_tokens rows) \<le> 2 ^ 53"
  shows "kt_requests (fold add_totals rows t) = of_int (a + int (length rows)) \<and>
    kt_input_tokens (fold add_totals rows t) = of_int (b + sum_list (map ku_input_tokens rows)) \<and>
    kt_output_tokens (fold add_totals rows t) = of_int (c + sum_list (map ku_output_tokens rows))"
  using assms
proof (induction rows arbitrary: t a b c)
  case (Cons r rows)
  let ?t = "add_totals r t"
  have rest: "0 \<le> sum_list (map ku_input_tokens rows)" "0 \<le> sum_list (map ku_output_tokens rows)"
    using Cons.prems(1) by (auto intro!: sum_list_nonneg)
  have r: "0 \<le> ku_input_tokens r" "0 \<le> ku_output_tokens r" using Cons.prems(1) by auto
  have "js_add (of_int a) 1 = of_int (a + 1)" using js_add_int[of a 1] Cons.prems(5,8) by simp
  moreover have "js_add (of_int b) (of_int (ku_input_tokens r)) = of_int (b + ku_input_tokens r)"
    using js_add_int[of b "ku_input_tokens r"] Cons.prems(6,9) r rest by simp
  moreover have "js_add (of_int c) (of_int (ku_output_tokens r)) = of_int (c + ku_output_tokens r)"
    using js_add_int[of c "ku_output_tokens r"] Cons.prems(7,10) r rest by simp
  ultimately have t: "kt_requests ?t = of_int (a + 1)" "kt_input_tokens ?t = of_int (b + ku_input_tokens r)"
    "kt_output_tokens ?t = of_int (c + ku_output_tokens r)"
    by (simp_all add: add_totals_def Cons.prems(2-4))
  have "kt_requests (fold add_totals rows ?t) = of_int (a + 1 + int (length rows)) \<and>
    kt_input_tokens (fold add_totals rows ?t) = of_int (b + ku_input_tokens r + sum_list (map ku_input_tokens rows)) \<and>
    kt_output_tokens (fold add_totals rows ?t) = of_int (c + ku_output_tokens r + sum_list (map ku_output_tokens rows))"
    by (rule Cons.IH[OF _ t]) (use Cons.prems r in auto)
  then show ?case by (simp add: algebra_simps)
qed simp

end
