(* ===== verification/Usage_Routes.thy ===== *)
theory Usage_Routes
  imports Usage_Ledger "HOL-Library.Multiset"
begin

text \<open>
  The dashboard reads of \<open>api/src/routes/usage.ts\<close>: the breakdown per day, key and model,
  the totals per key and the filter facets, each over the rows the user may see.
\<close>

section \<open>Parameters\<close>

text \<open>The server's reading of a time stamp, the day of an instant in its time zone as text, and
  the place of a text in its collation.\<close>

record usage_server =
  us_time :: "string \<Rightarrow> pg_time option"
  us_day :: "pg_time \<Rightarrow> string"
  us_collate :: "string \<Rightarrow> int"

record usage_filters =
  uf_key_id :: "string option"
  uf_model :: "string option"
  uf_from :: "string option"
  uf_to :: "string option"

text \<open>A filter that is absent or empty adds no condition; one that cannot be cast fails the
  statement (\<open>None\<close>).\<close>

definition condition :: "string option \<Rightarrow> (string \<Rightarrow> 'a option) \<Rightarrow> ('a \<Rightarrow> usage_row \<Rightarrow> bool) \<Rightarrow> (usage_row \<Rightarrow> bool) option" where
  "condition v cast P =
     (case v of
        None \<Rightarrow> Some (\<lambda>_. True)
      | Some s \<Rightarrow> if s = [] then Some (\<lambda>_. True) else map_option P (cast s))"

definition from_condition :: "usage_server \<Rightarrow> string option \<Rightarrow> (usage_row \<Rightarrow> bool) option" where
  "from_condition sv v = condition v (us_time sv) (\<lambda>t u. t \<le> ul_created_at u)"

definition to_condition :: "usage_server \<Rightarrow> string option \<Rightarrow> (usage_row \<Rightarrow> bool) option" where
  "to_condition sv v = condition v (us_time sv) (\<lambda>t u. ul_created_at u < t)"

section \<open>Groups\<close>

definition groups :: "(usage_row \<Rightarrow> 'k) \<Rightarrow> usage_row list \<Rightarrow> ('k \<times> usage_row list) list" where
  "groups f us = map (\<lambda>g. (g, filter (\<lambda>u. f u = g) us)) (remdups (map f us))"

text \<open>\<open>COALESCE(SUM(cost_usd), 0)::text\<close>: a sum of no cost at all is \<open>0\<close> without decimals.\<close>

definition cost_text :: "usage_row list \<Rightarrow> string" where
  "cost_text us =
     (if list_all (\<lambda>u. ul_cost u = None) us then ''0''
      else numeric_text 6 (sum_list (map cost_of us)))"

record usage_group =
  ug_cost_usd :: string
  ug_tokens_in :: int
  ug_tokens_out :: int
  ug_requests :: int

text \<open>The sums cast to \<open>int\<close>; \<open>None\<close> when one overflows.\<close>

definition group_of :: "usage_row list \<Rightarrow> usage_group option" where
  "group_of us =
     (let t = totals_of us in
      if totals_fit t
      then Some \<lparr>ug_cost_usd = cost_text us, ug_tokens_in = total_tokens_in t,
                 ug_tokens_out = total_tokens_out t, ug_requests = total_requests t\<rparr>
      else None)"

definition aggregate :: "(usage_row \<Rightarrow> 'k) \<Rightarrow> usage_row list \<Rightarrow> ('k \<times> usage_group) list option" where
  "aggregate f us = all_some (map (\<lambda>(g, rows). map_option (Pair g) (group_of rows)) (groups f us))"

section \<open>The handlers\<close>

text \<open>\<open>GET /usage\<close>: \<open>ORDER BY day DESC, key_id, model\<close>, rows without a model last.\<close>

type_synonym breakdown_row = "(string \<times> uuid \<times> string option) \<times> usage_group"

definition by_day_key_model :: "usage_server \<Rightarrow> breakdown_row list \<Rightarrow> breakdown_row list" where
  "by_day_key_model sv rows =
     sort_key (\<lambda>r. - us_collate sv (fst (fst r)))
       (sort_key (\<lambda>r. fst (snd (fst r)))
         (sort_key (\<lambda>r. if snd (snd (fst r)) = None then 1 else 0 :: nat)
           (sort_key (\<lambda>r. us_collate sv (or_else (snd (snd (fst r))) [])) rows)))"

definition usage_breakdown ::
  "usage_server \<Rightarrow> db \<Rightarrow> string \<Rightarrow> usage_filters \<Rightarrow> (unit, breakdown_row list) reply" where
  "usage_breakdown sv d uid q =
     (case (condition (uf_key_id q) pg_uuid (\<lambda>i u. ul_key_id u = i),
            condition (uf_model q) Some (\<lambda>m u. ul_model u = Some m),
            from_condition sv (uf_from q), to_condition sv (uf_to q)) of
        (Some a, Some b, Some c, Some e) \<Rightarrow>
          (case aggregate (\<lambda>u. (us_day sv (ul_created_at u), ul_key_id u, ul_model u))
                  (filter (\<lambda>u. a u \<and> b u \<and> c u \<and> e u) (visible_usage d uid)) of
             None \<Rightarrow> Failure 500 ()
           | Some rows \<Rightarrow> Answer 200 (by_day_key_model sv rows))
      | _ \<Rightarrow> Failure 500 ())"

text \<open>\<open>GET /usage/totals\<close>: \<open>ORDER BY cost_usd\<close> names the output column, which is text.\<close>

definition usage_totals_per_key ::
  "usage_server \<Rightarrow> db \<Rightarrow> string \<Rightarrow> usage_filters \<Rightarrow> (unit, (uuid \<times> usage_group) list) reply" where
  "usage_totals_per_key sv d uid q =
     (case (from_condition sv (uf_from q), to_condition sv (uf_to q)) of
        (Some c, Some e) \<Rightarrow>
          (case aggregate ul_key_id (filter (\<lambda>u. c u \<and> e u) (visible_usage d uid)) of
             None \<Rightarrow> Failure 500 ()
           | Some rows \<Rightarrow> Answer 200 (sort_key (\<lambda>r. - us_collate sv (ug_cost_usd (snd r))) rows))
      | _ \<Rightarrow> Failure 500 ())"

definition usage_facets :: "usage_server \<Rightarrow> db \<Rightarrow> string \<Rightarrow> uuid list \<times> string list" where
  "usage_facets sv d uid =
     (sort (remdups (map ul_key_id (visible_usage d uid))),
      sort_key (us_collate sv) (remdups (List.map_filter ul_model (visible_usage d uid))))"

section \<open>Every row is in exactly one group\<close>

lemma groups_mset: "mset (concat (map snd (groups f us))) = mset us"
proof -
  have "mset (concat (map (\<lambda>g. filter (\<lambda>u. f u = g) us) gs)) = mset (filter (\<lambda>u. f u \<in> set gs) us)"
    if "distinct gs" for gs
    using that
  proof (induction gs)
    case (Cons g gs)
    have "mset (filter (\<lambda>u. f u = g) us) + mset (filter (\<lambda>u. f u \<in> set gs) us) =
        mset (filter (\<lambda>u. f u \<in> set (g # gs)) us)"
      using Cons.prems by (induction us) auto
    then show ?case using Cons by simp
  qed simp
  from this[of "remdups (map f us)"] show ?thesis
    by (simp add: groups_def comp_def cong: filter_cong)
qed

lemma aggregate_Some:
  assumes "aggregate f us = Some rows"
  shows "map fst rows = map fst (groups f us)"
    "map (Some \<circ> snd) rows = map (group_of \<circ> snd) (groups f us)"
proof -
  have *: "map (\<lambda>(g, rs). map_option (Pair g) (group_of rs)) (groups f us) = map Some rows"
    using assms by (simp add: aggregate_def all_some_iff)
  have "map fst rows = map fst gs \<and> map (Some \<circ> snd) rows = map (group_of \<circ> snd) gs"
    if "map (\<lambda>(g, rs). map_option (Pair g) (group_of rs)) gs = map Some rows" for gs
    using that
  proof (induction gs arbitrary: rows)
    case (Cons g gs)
    then show ?case by (cases rows; cases g) auto
  qed simp
  from this[OF *] show "map fst rows = map fst (groups f us)"
    "map (Some \<circ> snd) rows = map (group_of \<circ> snd) (groups f us)" by simp_all
qed

text \<open>The groups add up to the rows: requests and tokens are neither lost nor counted twice.\<close>

lemma sum_groups:
  fixes w :: "usage_row \<Rightarrow> int"
  shows "sum_list (map (\<lambda>g. sum_list (map w (snd g))) (groups f us)) = sum_list (map w us)"
proof -
  have "sum_list (map (\<lambda>g. sum_list (map w (snd g))) gs) = sum_list (map w (concat (map snd gs)))"
    for gs :: "('a \<times> usage_row list) list"
    by (induction gs) simp_all
  also have "sum_list (map w (concat (map snd (groups f us)))) = sum_list (map w us)"
    using groups_mset[of f us] by (metis mset_map sum_mset_sum_list)
  finally show ?thesis .
qed

lemma aggregate_sum:
  fixes w :: "usage_row \<Rightarrow> int" and h :: "usage_group \<Rightarrow> int"
  assumes "aggregate f us = Some rows" and h: "\<And>rs g. group_of rs = Some g \<Longrightarrow> h g = sum_list (map w rs)"
  shows "sum_list (map (\<lambda>r. h (snd r)) rows) = sum_list (map w us)"
proof -
  have "sum_list (map (\<lambda>r. h (snd r)) rows) = sum_list (map (\<lambda>g. sum_list (map w (snd g))) gs)"
    if "map (Some \<circ> snd) rows = map (group_of \<circ> snd) gs" for gs :: "('a \<times> usage_row list) list"
    using that
  proof (induction gs arbitrary: rows)
    case (Cons g gs)
    then obtain r rows' where rows: "rows = r # rows'" by (cases rows) auto
    then show ?case using Cons h[of "snd g" "snd r"] by simp
  qed simp
  from this[OF aggregate_Some(2)[OF assms(1)]] show ?thesis unfolding sum_groups .
qed

lemma aggregate_sums:
  assumes "aggregate f us = Some rows"
  shows "sum_list (map (\<lambda>r. ug_requests (snd r)) rows) = int (length us)"
    "sum_list (map (\<lambda>r. ug_tokens_in (snd r)) rows) = sum_list (map ul_tokens_in us)"
    "sum_list (map (\<lambda>r. ug_tokens_out (snd r)) rows) = sum_list (map ul_tokens_out us)"
proof -
  have g: "ug_requests g = sum_list (map (\<lambda>_. 1) rs)" "ug_tokens_in g = sum_list (map ul_tokens_in rs)"
    "ug_tokens_out g = sum_list (map ul_tokens_out rs)" if "group_of rs = Some g" for rs g
    using that by (auto simp: group_of_def totals_of_def Let_def sum_list_triv split: if_splits)
  show "sum_list (map (\<lambda>r. ug_requests (snd r)) rows) = int (length us)"
    using aggregate_sum[OF assms, of ug_requests "\<lambda>_. 1"] g(1) by (simp add: sum_list_triv)
  show "sum_list (map (\<lambda>r. ug_tokens_in (snd r)) rows) = sum_list (map ul_tokens_in us)"
    using aggregate_sum[OF assms g(2)] .
  show "sum_list (map (\<lambda>r. ug_tokens_out (snd r)) rows) = sum_list (map ul_tokens_out us)"
    using aggregate_sum[OF assms g(3)] .
qed

lemma aggregate_keys:
  assumes "aggregate f us = Some rows"
  shows "distinct (map fst rows)" "set (map fst rows) = f ` set us"
  using aggregate_Some(1)[OF assms] by (simp_all add: groups_def comp_def)

text \<open>A line holds the totals of exactly the rows of its group.\<close>

lemma aggregate_line:
  assumes "aggregate f us = Some rows" "(g, x) \<in> set rows"
  shows "group_of (filter (\<lambda>u. f u = g) us) = Some x"
proof -
  have "map (\<lambda>(g, rs). map_option (Pair g) (group_of rs)) (groups f us) = map Some rows"
    using assms(1) by (simp add: aggregate_def all_some_iff)
  moreover have "Some (g, x) \<in> set (map Some rows)" using assms(2) by simp
  ultimately have "Some (g, x) \<in> set (map (\<lambda>(g, rs). map_option (Pair g) (group_of rs)) (groups f us))" by simp
  then show ?thesis by (auto simp: groups_def eq_commute[of "Some (g, x)"])
qed

text \<open>Reordering changes no sum.\<close>

lemma sum_sort_key:
  fixes w :: "'a \<Rightarrow> int"
  shows "sum_list (map w (sort_key f xs)) = sum_list (map w xs)"
  by (metis mset_map mset_sort sum_mset_sum_list)

lemma by_day_key_model_sum:
  fixes w :: "breakdown_row \<Rightarrow> int"
  shows "sum_list (map w (by_day_key_model sv rows)) = sum_list (map w rows)"
  by (simp only: by_day_key_model_def sum_sort_key)

text \<open>The rows the filters of a request select.\<close>

definition matches :: "string option \<Rightarrow> (string \<Rightarrow> 'a option) \<Rightarrow> ('a \<Rightarrow> bool) \<Rightarrow> bool" where
  "matches v cast P =
     (case v of None \<Rightarrow> True | Some s \<Rightarrow> s = [] \<or> (case cast s of None \<Rightarrow> False | Some x \<Rightarrow> P x))"

definition row_matches :: "usage_server \<Rightarrow> usage_filters \<Rightarrow> usage_row \<Rightarrow> bool" where
  "row_matches sv q u \<longleftrightarrow> matches (uf_key_id q) pg_uuid (\<lambda>i. ul_key_id u = i) \<and>
     matches (uf_model q) Some (\<lambda>m. ul_model u = Some m) \<and>
     matches (uf_from q) (us_time sv) (\<lambda>t. t \<le> ul_created_at u) \<and>
     matches (uf_to q) (us_time sv) (\<lambda>t. ul_created_at u < t)"

lemma condition_matches: "condition v cast P = Some C \<Longrightarrow> C u = matches v cast (\<lambda>x. P x u)"
  by (auto simp: condition_def matches_def split: option.splits if_splits)

lemma usage_breakdown_Answer:
  assumes "usage_breakdown sv d uid q = Answer st rows"
  shows "\<exists>rows0. rows = by_day_key_model sv rows0 \<and>
    aggregate (\<lambda>u. (us_day sv (ul_created_at u), ul_key_id u, ul_model u))
      (filter (row_matches sv q) (visible_usage d uid)) = Some rows0"
proof -
  from assms obtain a b c e where conds:
    "condition (uf_key_id q) pg_uuid (\<lambda>i u. ul_key_id u = i) = Some a"
    "condition (uf_model q) Some (\<lambda>m u. ul_model u = Some m) = Some b"
    "from_condition sv (uf_from q) = Some c" "to_condition sv (uf_to q) = Some e"
    by (auto simp: usage_breakdown_def split: option.splits)
  have "(a u \<and> b u \<and> c u \<and> e u) = row_matches sv q u" for u
    using conds by (simp add: row_matches_def from_condition_def to_condition_def condition_matches)
  then show ?thesis
    using assms conds by (auto simp: usage_breakdown_def split: option.splits)
qed

lemma by_day_key_model_mset: "mset (by_day_key_model sv rows) = mset rows"
  by (simp add: by_day_key_model_def)

end
