(* ===== verification/Claims_Usage.thy ===== *)
theory Claims_Usage
  imports Budget_Writes Ingest_Barrier Key_Usage Usage_Routes Claims_Keys
begin

text \<open>
  What metering guarantees: a usage row is charged once, spend is the sum of what was
  recorded, budgets and revocations stick, a clean pass misses no row, every caller of the
  ingest barrier is answered by a pass that began late enough, and the reading endpoints
  neither lose rows nor show foreign ones.
\<close>

section \<open>Example data\<close>

text \<open>One top-level key with a budget of 1 and a request on it that costs 2.\<close>

definition ex_id :: uuid where
  "ex_id = 2136445865850303423956603180293292032"

definition ex_budget_key :: key_row where
  "ex_budget_key = ex_top\<lparr>key_budget := Some 1\<rparr>"

definition ex_budget_db :: db where
  "ex_budget_db = ex_db\<lparr>db_keys := [ex_budget_key]\<rparr>"

definition ex_usage :: usage_row where
  "ex_usage = \<lparr>ul_usage_id = Some ex_id, ul_machine_id = Some ''m1'', ul_key_id = 7, ul_parent = None,
     ul_root = Some 7, ul_model = Some ''m'', ul_cost = Some 2, ul_price_id = None,
     ul_tokens_in = 100, ul_tokens_out = 20, ul_cache_read = 0, ul_cache_write = 0,
     ul_provider_cost = None, ul_provider_currency = None, ul_created_at = 3000000\<rparr>"

definition ex_flipped :: key_row where
  "ex_flipped = ex_budget_key\<lparr>key_status := Over_budget, key_updated_at := 5\<rparr>"

definition ex_charged_db :: db where
  "ex_charged_db = ex_budget_db\<lparr>db_keys := [ex_flipped], db_usage := [ex_usage],
     db_spend := (\<lambda>i. if i = 7 then Some \<lparr>spent_usd = 2, request_count = 1\<rparr> else None)\<rparr>"

lemma ex_budget_ok: "system_ok ex_budget_db"
  by (simp add: system_ok_def keys_ok_def top_ok_def ledger_ok_def budgets_ok_def usage_ids_def
      stored_spend_def spend_of_def charges_def billed_def List.map_filter_simps
      ex_budget_db_def ex_budget_key_def ex_top_def ex_db_def)

lemma ex_charge: "page_tx 5 ex_budget_db [ex_usage] = Some (1, ex_charged_db)"
proof -
  have keys: "charge_keys ex_usage = [7]" by (simp add: charge_keys_def ex_usage_def)
  have cost: "cost_of ex_usage = 2" by (simp add: cost_of_def ex_usage_def)
  let ?d = "ex_budget_db\<lparr>db_usage := [ex_usage]\<rparr>"
  have exists: "key_exists ?d 7" "key_exists ex_budget_db (ul_key_id ex_usage)"
    by (simp_all add: key_exists_def ex_budget_db_def ex_budget_key_def ex_top_def ex_usage_def)
  have charged: "charged_keys ?d [ex_usage] = [7]"
    by (simp add: charged_keys_def billed_def cost keys exists)
  have row: "spend_of [ex_usage] 7 = \<lparr>spent_usd = 2, request_count = 1\<rparr>"
    by (simp add: spend_of_def charges_def billed_def cost keys)
  have none: "db_spend ?d = Map.empty" by (simp add: ex_budget_db_def ex_db_def)
  let ?s = "\<lambda>i::uuid. if i = 7 then Some \<lparr>spent_usd = 2, request_count = 1\<rparr> else None"
  have add: "add_spend ?d [ex_usage] = Some (?d\<lparr>db_spend := ?s\<rparr>)"
    by (simp add: add_spend_def Let_def charged row spend_fits_def add_rows_def stored_spend_def none int4_def cong: if_cong)
  have "past_budget (?d\<lparr>db_spend := ?s\<rparr>) ex_budget_key" "key_id ex_budget_key = 7" "key_status ex_budget_key = Active"
    by (simp_all add: past_budget_def stored_spend_def ex_budget_key_def ex_top_def)
  moreover have "db_keys ex_budget_db = [ex_budget_key]" by (simp add: ex_budget_db_def)
  ultimately have "flip_over_budget 5 [7] (?d\<lparr>db_spend := ?s\<rparr>) = ex_charged_db"
    by (simp add: flip_over_budget_def update_keys_def ex_charged_db_def ex_flipped_def)
  then have "charge_spend 5 ?d [ex_usage] = Some ex_charged_db"
    by (simp add: charge_spend_def charged add)
  moreover have "insert_rows (db_usage ex_budget_db) [ex_usage] = ([ex_usage], [ex_usage])"
    by (simp add: ex_budget_db_def ex_db_def)
  ultimately show ?thesis by (simp add: page_tx_def exists)
qed

text \<open>The same request in the feed, priced by a catalog with one flat-priced model.\<close>

definition ex_feed :: feed_row where
  "ex_feed = \<lparr>input_tokens = 100, output_tokens = 20, cache_read_tokens = 0, cache_write_tokens = 0,
     fr_usage_id = uuid_text ex_id, fr_machine_id = ''m1'', fr_key_id = uuid_text 7, fr_parent = None,
     fr_root = Some (uuid_text 7), fr_model = ''m'', fr_provider_cost = None, fr_currency = None,
     fr_created_at = ''then''\<rparr>"

definition ex_models :: catalog where
  "ex_models = [(''m'', \<lparr>input_cost_per_mtok_usd = 0, output_cost_per_mtok_usd = 0,
     cache_read_cost_per_mtok_usd = Some 0, cache_write_cost_per_mtok_usd = Some 0,
     per_request_cost_usd = Some 2, long_context = None, provider_slug = ''p'',
     upstream_model_slug = None, request_overrides = None\<rparr>)]"

definition ex_dates :: date_texts where
  "ex_dates = \<lparr>js_time_of = (\<lambda>_. Some 3000), pg_time_of = (\<lambda>_. Some 3000000)\<rparr>"

lemma fl_two: "fl 2 = 2"
  using fl_of_int[of 2] by simp

lemma ex_column:
  "usage_column ex_dates (price_feed_row ex_models ex_dates (Map.empty :: stored_price price_map) ex_feed) ex_feed = Some ex_usage"
proof -
  have "price_feed_row ex_models ex_dates (Map.empty :: stored_price price_map) ex_feed = \<lparr>cost_usd = Some (Fin 2), price_id = None\<rparr>"
    by (simp add: price_feed_row_def price_usage_def pick_price_def get_model_def get_property_def
        compute_cost_usd_def token_cost_def selected_rates_def read_rate_def write_rate_def
        js_add_def js_mul_def js_div_def ex_models_def ex_dates_def ex_feed_def fl_two token_rates.truncate_def)
  moreover have "cost_column (Some (Fin 2)) = Some (Some 2)"
    using millionths(2)[of 2000000] by (simp add: cost_column_def numeric_column_def fl_two)
  moreover have "usage_column ex_dates \<lparr>cost_usd = Some (Fin 2), price_id = None\<rparr> ex_feed = Some ex_usage"
    using calculation(2)
    by (simp add: usage_column_def pg_uuid_uuid_text uuid_column_def int_column_def int4_def ex_feed_def
        ex_usage_def ex_dates_def)
  ultimately show ?thesis by (simp only:)
qed

lemma ex_ingest: "ingest_page ex_models ex_dates Map.empty 5 ex_budget_db [ex_feed] = Some (1, ex_charged_db)"
  by (simp add: ingest_page_def ex_column ex_charge)

section \<open>Charging\<close>

text \<open>Property C18.  A row is charged once.  Rows whose \<open>usage_id\<close> is already stored make no difference to
  a page, and the page just ingested, read again under any later prices and clock, adds no
  row, charges nothing and changes nothing.\<close>

theorem page_charged_once:
  assumes "ingest_page models dates table now d page = Some (n, d')"
    and "ingest_page models dates table' now' d' page = Some (n', d'')"
  shows "n' = 0 \<and> d'' = d' \<and>
    (\<forall>rows. page_tx now' d' rows = page_tx now' d' (filter (\<lambda>u. ul_usage_id u \<notin> ul_usage_id ` set (db_usage d')) rows))"
  using ingest_page_again[OF assms] page_tx_only_new by blast

theorem page_charged_once_witness:
  "ingest_page ex_models ex_dates Map.empty 9 ex_charged_db [ex_feed] = Some (0, ex_charged_db) \<and>
   page_tx 9 ex_charged_db [ex_usage] = page_tx 9 ex_charged_db []"
proof -
  have key: "key_exists ex_charged_db (ul_key_id ex_usage)"
    by (simp add: key_exists_def ex_charged_db_def ex_flipped_def ex_budget_key_def ex_top_def ex_usage_def)
  have known: "ul_usage_id ` set (db_usage ex_charged_db) = {ul_usage_id ex_usage}"
    by (simp add: ex_charged_db_def)
  have again: "ingest_page ex_models ex_dates Map.empty 9 ex_charged_db [ex_feed] = Some (0, ex_charged_db)"
    by (simp add: ingest_page_def ex_column page_tx_known key known)
  have "page_tx 9 ex_charged_db [ex_usage] =
      page_tx 9 ex_charged_db (filter (\<lambda>u. ul_usage_id u \<notin> ul_usage_id ` set (db_usage ex_charged_db)) [ex_usage])"
    using page_charged_once[OF ex_ingest again] by blast
  then show ?thesis using again by (simp add: known)
qed

text \<open>Property C8.  The spend ledger implements its specification: a page records the rows of existing
  keys, each \<open>usage_id\<close> at most once, and what \<open>llm.key_spend\<close> holds for a key, kept up
  incrementally, is the sum of the costs of the recorded rows that count for it.\<close>

theorem ledger_refines_spec:
  assumes "page_tx now d rows = Some (n, d')" "ledger_ok d"
  shows "mset (db_usage d') = fold record_row (filter (\<lambda>u. key_exists d (ul_key_id u)) rows) (mset (db_usage d)) \<and>
    (\<forall>i. key_exists d i \<longrightarrow> spent_usd (stored_spend d' i) = ledger_spend (mset (db_usage d')) i)"
  using page_tx_refines[OF assms] by blast

theorem ledger_refines_spec_witness:
  "mset (db_usage ex_charged_db) = record_row ex_usage {#} \<and>
   spent_usd (stored_spend ex_charged_db 7) = ledger_spend (mset (db_usage ex_charged_db)) 7"
proof -
  have ok: "ledger_ok ex_budget_db" using ex_budget_ok by (simp add: system_ok_def)
  have key: "key_exists ex_budget_db (ul_key_id ex_usage)" "key_exists ex_budget_db 7"
    by (simp_all add: key_exists_def ex_budget_db_def ex_budget_key_def ex_top_def ex_usage_def)
  have empty: "db_usage ex_budget_db = []" by (simp add: ex_budget_db_def ex_db_def)
  show ?thesis using ledger_refines_spec[OF ex_charge ok] key by (simp add: empty)
qed

section \<open>The system\<close>

text \<open>Property C5.  Whatever order minting, deriving, revoking, ingest, team sync, price posts and
  the admin pages run their transactions in, the two statements of a mint being a transaction each,
  the lineage of the keys stays well formed: ids are unique, a top-level key has no parent and is
  its own root, or has none as long as the second statement of its mint has not run; a derived key
  has no hash, and its root is its parent or missing.  The spend ledger equals the stored
  usage, and no active key has been charged up to its budget.\<close>

theorem system_invariant:
  assumes "system_step\<^sup>*\<^sup>* d d'" "system_ok d"
  shows "keys_ok d' \<and> ledger_ok d' \<and> budgets_ok d'"
  using control_plane.run_ok[OF assms] by (simp add: system_ok_def)

definition ex_revoked_db :: db where
  "ex_revoked_db = update_keys (in_subtree 7) (revoked_row 9 ''u'') ex_charged_db"

lemma ex_charged_revoke: "revoke_key 9 ''u'' ex_charged_db (uuid_text 7) = (Answer 200 1, ex_revoked_db)"
  by (simp add: revoke_key_def pg_uuid_uuid_text visible_keys_def user_teams_def in_subtree_def revoked_row_def [abs_def]
      ex_revoked_db_def ex_charged_db_def ex_flipped_def ex_budget_key_def ex_budget_db_def ex_top_def ex_db_def)

lemma ex_run: "system_step\<^sup>*\<^sup>* ex_budget_db ex_revoked_db"
  using system_step.ingests[OF ex_charge] system_step.revokes[OF ex_charged_revoke]
  by (meson rtranclp.rtrancl_into_rtrancl rtranclp.rtrancl_refl)

theorem system_invariant_witness:
  "keys_ok ex_revoked_db \<and> ledger_ok ex_revoked_db \<and> budgets_ok ex_revoked_db"
  by (rule system_invariant[OF ex_run ex_budget_ok])

text \<open>Property C2.  A revocation is for good: in no state the system reaches after it, writes of budgets
  by hand included, is a credential of the key or of any row under its root accepted, keys
  derived later included.\<close>

theorem revoked_for_good:
  assumes "revoke_key now user d id_text = (Answer st n, d1)" "pg_uuid id_text = Some i" "owner_ok d"
    and "owner_step\<^sup>*\<^sup>* d1 d2" "k \<in> set (db_keys d2)" "in_subtree i k"
  shows "verify_gateway_credential sha256 verify_jwt later d2 presented \<noteq> Inr (Some \<lparr>scope_key = key_id k, scope_type = ty\<rparr>)"
proof
  assume v: "verify_gateway_credential sha256 verify_jwt later d2 presented = Inr (Some \<lparr>scope_key = key_id k, scope_type = ty\<rparr>)"
  have ok: "owner_ok d1" using owner_ok_handlers[OF assms(3) system_step.revokes[OF assms(1)]] .
  obtain q where q: "q \<in> set (db_keys d)" "key_id q = i"
    "d1 = update_keys (in_subtree i) (\<lambda>k. k\<lparr>key_status := Revoked, key_revoked_at := Some now,
        key_revoked_by := Some user, key_updated_at := now\<rparr>) d"
    using revoke_key_Answer[OF assms(1)] assms(2) by (metis option.inject visible_keys_iff)
  define r where "r = q\<lparr>key_status := Revoked, key_revoked_at := Some now, key_revoked_by := Some user, key_updated_at := now\<rparr>"
  have r: "r \<in> set (db_keys d1)" "key_status r = Revoked" "key_id r = i"
    using q by (auto simp: r_def set_update_keys in_subtree_def)
  obtain r' where r': "r' \<in> set (db_keys d2)" "key_id r' = i" "key_status r' = Revoked"
    using owner_run_persists[OF assms(4) ok] r unfolding persists_def keeps_lineage_def by metis
  have "keys_ok d2" using budgeted.run_ok[OF assms(4) ok] by (simp add: owner_ok_def)
  then show False
    by (rule revoked_row_shuts_out[OF _ r'(1,3) v assms(5)]) (use r'(2) assms(6) in simp_all)
qed

lemma ex_owner_ok: "owner_ok ex_budget_db" "owner_ok ex_charged_db"
proof -
  show ok: "owner_ok ex_budget_db"
    using ex_budget_ok by (rule system_ok_owner) (simp add: over_budgets_ok_def ex_budget_db_def ex_budget_key_def ex_top_def)
  show "owner_ok ex_charged_db" using owner_ok_handlers[OF ok system_step.ingests[OF ex_charge]] .
qed

text \<open>After the revocation somebody lifts the budget of the key: it stays shut out.\<close>

lemma ex_lifted: "owner_step\<^sup>*\<^sup>* ex_revoked_db (set_budgets (\<lambda>_. True) (\<lambda>_. None) ex_revoked_db)"
  by (rule r_into_rtranclp) (rule writes_budgets)

theorem revoked_for_good_witness:
  "verify_gateway_credential (\<lambda>b. b) (ex_verify 0) 100 (set_budgets (\<lambda>_. True) (\<lambda>_. None) ex_revoked_db) ex_secret \<noteq>
     Inr (Some \<lparr>scope_key = 7, scope_type = Top\<rparr>)"
proof -
  let ?k = "(revoked_row 9 ''u'' ex_flipped)\<lparr>key_budget := None\<rparr>"
  have k: "?k \<in> set (db_keys (set_budgets (\<lambda>_. True) (\<lambda>_. None) ex_revoked_db))" "in_subtree 7 ?k" "key_id ?k = 7"
    by (simp_all add: set_budgets_def on_budget_update_eq ex_revoked_db_def ex_charged_db_def update_keys_def in_subtree_def
        revoked_row_def ex_flipped_def ex_budget_key_def ex_top_def)
  show ?thesis
    using revoked_for_good[OF ex_charged_revoke pg_uuid_uuid_text ex_owner_ok(2) ex_lifted k(1,2), of "\<lambda>b. b"] k(3) by simp
qed

section \<open>Budgets\<close>

text \<open>Property C7.  With budgets written by hand among the transactions, a key is out of service for its
  budget only while the costs recorded for it reach that budget.\<close>

theorem over_budget_means_spent:
  assumes "owner_step\<^sup>*\<^sup>* d d'" "owner_ok d" "k \<in> set (db_keys d')" "key_status k = Over_budget"
  shows "\<exists>b. key_budget k = Some b \<and> b \<le> sum_list (map cost_of (charges (db_usage d') (key_id k)))"
proof -
  have ok: "owner_ok d'" by (rule budgeted.run_ok[OF assms(1,2)])
  then have "past_budget d' k" using assms(3,4) by (simp add: owner_ok_def over_budgets_ok_def)
  moreover have "stored_spend d' (key_id k) = spend_of (db_usage d') (key_id k)"
    using ok assms(3) by (simp add: owner_ok_def ledger_ok_def key_exists_def)
  ultimately show ?thesis by (auto simp: past_budget_def spend_of_def split: option.splits)
qed

lemma ex_raise_too_little:
  "owner_step\<^sup>*\<^sup>* ex_budget_db (set_budgets (\<lambda>_. True) (\<lambda>_. Some 2) ex_charged_db)"
  "ex_flipped\<lparr>key_budget := Some 2\<rparr> \<in> set (db_keys (set_budgets (\<lambda>_. True) (\<lambda>_. Some 2) ex_charged_db))"
proof -
  show "owner_step\<^sup>*\<^sup>* ex_budget_db (set_budgets (\<lambda>_. True) (\<lambda>_. Some 2) ex_charged_db)"
    using handlers[OF system_step.ingests[OF ex_charge]] writes_budgets by (meson rtranclp.rtrancl_into_rtrancl rtranclp.rtrancl_refl)
  have "past_budget ex_charged_db (ex_flipped\<lparr>key_budget := Some 2\<rparr>)"
    by (simp add: past_budget_def stored_spend_def ex_charged_db_def ex_flipped_def ex_budget_key_def ex_top_def)
  then have "on_budget_update ex_charged_db ex_flipped (ex_flipped\<lparr>key_budget := Some 2\<rparr>) = ex_flipped\<lparr>key_budget := Some 2\<rparr>"
    by (simp add: on_budget_update_eq)
  moreover have "db_keys ex_charged_db = [ex_flipped]" by (simp add: ex_charged_db_def)
  ultimately show "ex_flipped\<lparr>key_budget := Some 2\<rparr> \<in> set (db_keys (set_budgets (\<lambda>_. True) (\<lambda>_. Some 2) ex_charged_db))"
    by (simp add: set_budgets_def update_keys_def)
qed

theorem over_budget_means_spent_witness:
  "\<exists>b. key_budget (ex_flipped\<lparr>key_budget := Some 2\<rparr>) = Some b \<and>
     b \<le> sum_list (map cost_of (charges (db_usage (set_budgets (\<lambda>_. True) (\<lambda>_. Some 2) ex_charged_db)) 7))"
proof -
  have "key_status (ex_flipped\<lparr>key_budget := Some 2\<rparr>) = Over_budget" "key_id (ex_flipped\<lparr>key_budget := Some 2\<rparr>) = 7"
    by (simp_all add: ex_flipped_def ex_budget_key_def ex_top_def)
  then show ?thesis using over_budget_means_spent[OF ex_raise_too_little(1) ex_owner_ok(1) ex_raise_too_little(2)] by simp
qed

text \<open>Property C33.  Raising the budget past the spend, or lifting it, is exactly what brings a key that
  ingest took out of service back: before, deriving from it is refused, and afterwards it is allowed
  precisely when the new budget exceeds the spend.\<close>

theorem budget_raise_restores:
  assumes "find (\<lambda>r. key_hash r = Some (hash_key sha256 (bearer_token h)) \<and> key_kind r = Top) (db_keys d) = Some k"
    and "bearer_token h \<noteq> []" "starts_with prefix_live (bearer_token h)" "key_parent k = None" "key_status k = Over_budget"
  shows "derive_parent sha256 d h = Inl (401, Unknown_parent) \<and>
    derive_parent sha256 (set_budgets (\<lambda>r. key_id r = key_id k) (\<lambda>_. v) d) h =
      (if (case v of None \<Rightarrow> True | Some b \<Rightarrow> spent_usd (stored_spend d (key_id k)) < b)
       then Inr (k\<lparr>key_budget := v, key_status := Active\<rparr>) else Inl (401, Unknown_parent))"
  using derive_parent_budgets(1)[OF assms] derive_parent_budgets(2)[OF assms, of v] by (auto simp: past_budget_def split: option.split)

lemma ex_bearer_secret: "bearer_token (Some ex_header) = ex_secret"
  by (simp add: ex_header_def bearer_token_def Let_def ex_secret_def starts_with_def to_lower_def lower_char_def
      js_trim_def trim_start_def js_space_def)

lemma ex_over_budget:
  "find (\<lambda>r. key_hash r = Some (hash_key (\<lambda>b. b) (bearer_token (Some ex_header))) \<and> key_kind r = Top) (db_keys ex_charged_db) = Some ex_flipped"
  "bearer_token (Some ex_header) \<noteq> []" "starts_with prefix_live (bearer_token (Some ex_header))"
  "key_parent ex_flipped = None" "key_status ex_flipped = Over_budget" "key_id ex_flipped = 7"
  by (simp_all add: ex_bearer_secret ex_charged_db_def ex_flipped_def ex_budget_key_def ex_top_def)
    (simp_all add: ex_secret_def starts_with_def prefix_live_def)

theorem budget_raise_restores_witness:
  "derive_parent (\<lambda>b. b) (set_budgets (\<lambda>r. key_id r = 7) (\<lambda>_. Some 2) ex_charged_db) (Some ex_header) = Inl (401, Unknown_parent) \<and>
   derive_parent (\<lambda>b. b) (set_budgets (\<lambda>r. key_id r = 7) (\<lambda>_. Some 3) ex_charged_db) (Some ex_header) =
     Inr (ex_flipped\<lparr>key_budget := Some 3, key_status := Active\<rparr>)"
proof -
  have "spent_usd (stored_spend ex_charged_db 7) = 2" by (simp add: stored_spend_def ex_charged_db_def)
  then show ?thesis
    using budget_raise_restores[OF ex_over_budget(1-5), of "Some 2"] budget_raise_restores[OF ex_over_budget(1-5), of "Some 3"]
    by (simp add: ex_over_budget(6))
qed

section \<open>Polling\<close>

text \<open>Property C12.  A pass that reports no failed machine has stored every row a machine's log held when
  it was asked, whatever the machine wrote meanwhile.  The exceptions are rows whose key does
  not exist, and rows stamped more than 10 s before a row of that machine that was stored before
  the machine's turn.\<close>

theorem clean_pass_stores_everything:
  assumes "poll_all url dns env st = Some ([], st')" "satellites url dns = Some (xs @ s # ys)"
    and "poll_targets env xs st = Some (f, a)"
    and "pe_fetch (env s) = proxy_fetch up writes" "r \<in> set (proxy_log writes 0)"
    and "fr_usage_id r = uuid_text u" "version7 u"
  shows "is_stored (ps_db st') (uuid_text u) \<or>
    (\<exists>k. \<exists>q\<in>set (proxy_log writes k). fr_usage_id q = uuid_text u \<and> keyless (ps_db st) q) \<or>
    (\<exists>row\<in>set (db_usage (ps_db a)). \<exists>v. ul_usage_id row = Some v \<and> uuid_ms u + 10000 < uuid_ms v \<and>
       (case sat_machine s of None \<Rightarrow> True | Some m \<Rightarrow> m = [] \<or> ul_machine_id row = Some m))"
proof -
  have pass: "poll_targets env (xs @ s # ys) st = Some ([], st')"
    using assms(1,2) by (simp add: poll_all_def)
  let ?c = "with_overlap (newest_stored (sat_machine s) (ps_db a))"
  obtain b n where b: "poll_once (env s) ?c a = Some (Inr n, b)" "poll_targets env ys b = Some ([], st')"
    using poll_targets_clean[OF pass] assms(3) by auto
  have keeps: "poll_keeps st a" "poll_keeps b st'"
    using poll_targets_keeps[OF assms(3)] poll_targets_keeps[OF b(2)] by blast+
  show ?thesis
  proof (cases "?c < uuid_text u")
    case True
    then have "is_stored (ps_db b) (uuid_text u) \<or>
        (\<exists>k. \<exists>q\<in>set (proxy_log writes k). fr_usage_id q = uuid_text u \<and> keyless (ps_db a) q)"
      using proxy.poll_complete[OF b(1)[unfolded poll_once_def] assms(4) with_overlap_nonempty assms(5)]
      by (simp add: assms(6))
    then show ?thesis
      unfolding poll_keeps_keyless[OF keeps(1)] using poll_keeps_stored[OF keeps(2)] by blast
  next
    case False
    then show ?thesis
      using asked_for[OF assms(7), of "sat_machine s" "ps_db a" "the (sat_machine s)"]
      by (auto split: option.splits)
  qed
qed

definition ex_url :: proxy_url where
  "ex_url = \<lparr>url_origin = ''http://localhost:8787'', url_protocol = ''http:'', url_hostname = ''localhost'', url_port = ''8787''\<rparr>"

definition ex_writes :: "nat \<Rightarrow> feed_row list" where
  "ex_writes k = (if k = 0 then [ex_feed] else [])"

definition ex_poll_env :: "satellite \<Rightarrow> poll_env" where
  "ex_poll_env s = \<lparr>pe_models = ex_models, pe_dates = ex_dates, pe_rank = (\<lambda>_. 0),
     pe_fetch = proxy_fetch (\<lambda>_. True) ex_writes, pe_clock = (\<lambda>_. 0), pe_priced = (\<lambda>_. True), pe_loaded = (\<lambda>_. 0), pe_now = (\<lambda>_. 5)\<rparr>"

definition ex_before :: poll_state where
  "ex_before = \<lparr>ps_db = ex_budget_db, ps_cache = None, ps_inserted = 0\<rparr>"

definition ex_after :: poll_state where
  "ex_after = \<lparr>ps_db = ex_charged_db, ps_cache = Some (Map.empty, 0), ps_inserted = 1\<rparr>"

definition ex_machine :: satellite where
  "ex_machine = \<lparr>sat_origin = ''http://localhost:8787'', sat_machine = None\<rparr>"

lemma ex_satellites: "satellites ex_url dns = Some [ex_machine]"
  by (simp add: satellites_def ex_url_def ends_with_def ex_machine_def)

lemma ex_id_text: "fr_usage_id ex_feed = uuid_text ex_id"
  by (simp add: ex_feed_def)

lemma ex_poll_page: "poll_page (ex_poll_env s) 0 [ex_feed] ex_before = (True, ex_after)"
proof -
  have "db_prices ex_budget_db = []" by (simp add: ex_budget_db_def ex_db_def)
  then have "price_table None 0 (price_query (\<lambda>_. 0) (db_prices ex_budget_db)) 0 = (Map.empty, Some (Map.empty, 0))"
    by (simp add: price_table_def reload_price_table_def price_query_def load_prices_def Let_def)
  then show ?thesis by (simp add: poll_page_def ex_poll_env_def ex_before_def ex_ingest ex_after_def)
qed

lemma ex_poll_all: "poll_all ex_url dns ex_poll_env ex_before = Some ([], ex_after)"
proof -
  have "db_usage (ps_db ex_before) = []" by (simp add: ex_before_def ex_budget_db_def ex_db_def)
  then have cursor: "with_overlap (newest_stored None (ps_db ex_before)) = ''0''"
    by (simp add: newest_stored_def with_overlap_def List.map_filter_simps)
  have "proxy_log ex_writes 0 = [ex_feed]" by (simp add: proxy_log_def ex_writes_def)
  then have fetch: "pe_fetch (ex_poll_env ex_machine) 0 ''0'' page_limit = Some [ex_feed]"
    by (simp add: ex_poll_env_def proxy_fetch_def proxy_page_def proxy_limit_def page_limit_def ex_id_text zero_text_less)
  have some: "fr_usage_id ex_feed \<noteq> []" using zero_text_less[of ex_id] ex_id_text by auto
  have "ex_before\<lparr>ps_inserted := 0\<rparr> = ex_before" "Suc 0 < page_limit" "ps_inserted ex_after = 1"
    by (simp_all add: ex_before_def page_limit_def ex_after_def)
  then have once: "poll_once (ex_poll_env ex_machine) ''0'' ex_before = Some (Inr 1, ex_after)"
    by (simp add: poll_once_def) (subst poll_loop.simps, simp add: fetch some ex_poll_page)
  have "sat_machine ex_machine = None" by (simp add: ex_machine_def)
  then show ?thesis by (simp add: poll_all_def ex_satellites cursor once)
qed

theorem clean_pass_stores_everything_witness:
  "is_stored ex_charged_db (uuid_text ex_id)"
proof -
  have log: "proxy_log ex_writes k = [ex_feed]" for k
    by (induction k) (simp_all add: proxy_log_def ex_writes_def)
  have "\<not> keyless (ps_db ex_before) ex_feed"
    by (simp add: keyless_def ex_feed_def pg_uuid_uuid_text key_exists_def ex_before_def ex_budget_db_def
        ex_budget_key_def ex_top_def)
  moreover have "db_usage (ps_db ex_before) = []" by (simp add: ex_before_def ex_budget_db_def ex_db_def)
  moreover have "poll_targets ex_poll_env [] ex_before = Some ([], ex_before)" by simp
  moreover have "version7 ex_id" by (simp add: version7_def ex_id_def)
  moreover have "pe_fetch (ex_poll_env ex_machine) = proxy_fetch (\<lambda>_. True) ex_writes" by (simp add: ex_poll_env_def)
  ultimately have "is_stored (ps_db ex_after) (uuid_text ex_id)"
    using clean_pass_stores_everything[OF ex_poll_all, of "\<lambda>_. None" "[]" ex_machine "[]" "[]" ex_before
        "\<lambda>_. True" ex_writes ex_feed ex_id] ex_satellites log ex_id_text by simp
  then show ?thesis by (simp add: ex_after_def)
qed

text \<open>Property C25.  A pass ends: if from some request on a machine records nothing more, its backlog is
  read to the end in finitely many requests, and the pass returns, failures included.\<close>

theorem pass_returns:
  assumes "\<And>ss s. satellites url dns = Some ss \<Longrightarrow> s \<in> set ss \<Longrightarrow>
    \<exists>up writes K. pe_fetch (env s) = proxy_fetch up writes \<and> (\<forall>k>K. writes k = [])"
  shows "\<exists>failed st'. poll_all url dns env st = Some (failed, st')"
proof (cases "satellites url dns")
  case (Some ss)
  have "\<exists>y. poll_once (env s) c a = Some y" if s: "s \<in> set ss" and c: "c \<noteq> []" for s a c
  proof -
    obtain up writes K where w: "pe_fetch (env s) = proxy_fetch up writes" "\<And>k. K < k \<Longrightarrow> writes k = []"
      using assms[OF Some s] by blast
    have "set (proxy_log writes k) \<subseteq> set (proxy_log writes K)" for k
    proof
      fix x assume "x \<in> set (proxy_log writes k)"
      then obtain j where j: "x \<in> set (writes j)" by (auto simp: proxy_log_def)
      then have "j \<le> K" using w(2)[of j] by (cases "K < j") simp_all
      then show "x \<in> set (proxy_log writes K)" using j by (auto simp: proxy_log_def simp del: upt_Suc)
    qed
    then have "fr_usage_id ` set (proxy_log writes k) \<subseteq> fr_usage_id ` set (proxy_log writes K)" for k by blast
    from proxy.poll_returns[OF w(1) _ this c] show ?thesis by (simp add: poll_once_def)
  qed
  then have "\<exists>y. poll_targets env ss st = Some y" by (rule poll_targets_returns)
  then show ?thesis by (simp add: poll_all_def Some)
qed (simp add: poll_all_def)

theorem pass_returns_witness: "\<exists>failed st'. poll_all ex_url (\<lambda>_. None) ex_poll_env ex_after = Some (failed, st')"
proof (rule pass_returns)
  fix s
  have "pe_fetch (ex_poll_env s) = proxy_fetch (\<lambda>_. True) ex_writes" "\<forall>k>0. ex_writes k = []"
    by (simp_all add: ex_poll_env_def ex_writes_def)
  then show "\<exists>up writes K. pe_fetch (ex_poll_env s) = proxy_fetch up writes \<and> (\<forall>k>K. writes k = [])" by blast
qed

section \<open>The ingest barrier\<close>

text \<open>Property C16.  \<open>ingestNow\<close> is a barrier: in every reachable state, an answered call was answered by
  a pass that had ended and that had started no earlier than the call was made.\<close>

theorem barrier_waits_for_later_pass:
  assumes "barrier_reach s" "answered s i"
  shows "\<exists>p. (i, p) \<in> set (br_follows s) \<and> p \<in> br_settled s \<and> p < length (br_started s) \<and>
    br_calls s ! i \<le> br_started s ! p"
proof -
  have "barrier_inv s (set (queued_calls s))" using barrier_reach_ok[OF assms(1)] by (simp add: barrier_ok_def)
  then show ?thesis using barrier_invD(1) assms(2) unfolding answered_def by blast
qed

definition ex_one_call :: barrier where
  "ex_one_call = settle 0 (ingest_now barrier_start)"

lemma ex_one_call_reach: "barrier_reach ex_one_call"
proof -
  have "barrier_step (ingest_now barrier_start) ex_one_call"
    unfolding ex_one_call_def by (rule pass_ends) (simp_all add: ingest_now_def barrier_start_def start_pass_def advance_def Let_def)
  then show ?thesis
    unfolding barrier_reach_def using barrier_step.call by (meson rtranclp.rtrancl_into_rtrancl rtranclp.rtrancl_refl)
qed

lemma ex_one_call_follows: "br_follows ex_one_call = [(0, 0)]" "br_settled ex_one_call = {0}"
  by (simp_all add: ex_one_call_def settle_def ingest_now_def barrier_start_def start_pass_def advance_def Let_def)

theorem barrier_waits_for_later_pass_witness:
  "\<exists>p. p \<in> br_settled ex_one_call \<and> br_calls ex_one_call ! 0 \<le> br_started ex_one_call ! p"
  using barrier_waits_for_later_pass[OF ex_one_call_reach, of 0]
  by (auto simp: answered_def ex_one_call_follows)

text \<open>Property C30.  Every call gets its answer: from any reachable state, once no more calls and ticks come
  in, the process stops after finitely many steps of its own, and then all calls made are
  answered.\<close>

theorem barrier_answers_every_call:
  assumes "barrier_reach s"
  shows "(\<forall>f. f 0 = s \<longrightarrow> (\<exists>n. \<not> internal_step (f n) (f (Suc n)))) \<and>
    (\<forall>s'. internal_step\<^sup>*\<^sup>* s s' \<longrightarrow> (\<forall>t. \<not> internal_step s' t) \<longrightarrow>
       (\<forall>i<length (br_calls s'). answered s' i))"
proof (intro conjI allI impI)
  fix f :: "nat \<Rightarrow> barrier"
  have "\<not> (\<forall>n. internal_step (f n) (f (Suc n)))"
  proof
    assume run: "\<forall>n. internal_step (f n) (f (Suc n))"
    have "pending_work (f n) + n \<le> pending_work (f 0)" for n
    proof (induction n)
      case (Suc n)
      then show ?case using internal_step_less run by (metis Suc_leI add_Suc_right add_less_cancel_right le_trans)
    qed simp
    from this[of "Suc (pending_work (f 0))"] show False by simp
  qed
  then show "\<exists>n. \<not> internal_step (f n) (f (Suc n))" by blast
next
  fix s' i assume run: "internal_step\<^sup>*\<^sup>* s s'" and idle: "\<forall>t. \<not> internal_step s' t" and i: "i < length (br_calls s')"
  have "barrier_step\<^sup>*\<^sup>* s s'"
    by (rule rtranclp_mono[THEN predicate2D, OF _ run]) (auto intro: internal_step_barrier)
  then have "barrier_ok s'" using barrier.run_ok barrier_reach_ok[OF assms] by blast
  then show "answered s' i" using idle_all_answered idle i by blast
qed

theorem barrier_answers_every_call_witness: "answered ex_one_call 0"
proof -
  have len: "br_queued ex_one_call = None" "length (br_started ex_one_call) = 1" "length (br_calls ex_one_call) = 1"
    by (simp_all add: ex_one_call_def settle_def ingest_now_def barrier_start_def start_pass_def advance_def Let_def)
  have "\<not> internal_step ex_one_call t" for t
    by (auto elim!: internal_step.cases simp: len ex_one_call_follows)
  then show ?thesis using barrier_answers_every_call[OF ex_one_call_reach] len(3) by auto
qed

text \<open>A burst costs one pass: however many calls come in while a pass runs, one pass queued
  behind it answers them all.\<close>

theorem burst_costs_one_pass:
  assumes "br_running s = Some p" "br_queued s = None" "0 < n"
  defines "cs \<equiv> [length (br_calls s)..<length (br_calls s) + n]"
  shows "br_queued (settle p ((ingest_now ^^ n) s)) = Some (p, cs) \<and>
    length (br_started (run_queued cs (settle p ((ingest_now ^^ n) s)))) = Suc (length (br_started s)) \<and>
    (\<forall>i\<in>set cs. (i, length (br_started s)) \<in> set (br_follows (run_queued cs (settle p ((ingest_now ^^ n) s)))))"
  using burst_one_pass[OF assms(1-3)] unfolding cs_def by blast

theorem burst_costs_one_pass_witness:
  "length (br_started (run_queued [1..<4] (settle 0 ((ingest_now ^^ 3) (ingest_now barrier_start))))) = 2"
proof -
  have s: "br_running (ingest_now barrier_start) = Some 0" "br_queued (ingest_now barrier_start) = None"
    "br_calls (ingest_now barrier_start) = [0]" "br_started (ingest_now barrier_start) = [0]"
    by (simp_all add: ingest_now_def barrier_start_def start_pass_def advance_def Let_def)
  show ?thesis using burst_costs_one_pass[OF s(1,2), of 3] by (simp add: s del: upt_Suc)
qed


section \<open>Reading\<close>

text \<open>Property C29.  The cursor and the ids agree: for a version 7 id stamped from 2026 on,
  \<open>usageIdAtLeast(n)\<close> is at most the id exactly when \<open>n\<close> is at most \<open>cursorOf\<close> of the id.\<close>

theorem cursor_galois:
  assumes "version7 u" "recent u" "n \<le> 2 ^ 52"
  shows "\<exists>v c. pg_uuid (usage_id_at_least (Fin (of_nat n))) = Some v \<and> cursor_of (uuid_text u) = Fin c \<and>
    (v \<le> u \<longleftrightarrow> of_nat n \<le> c)"
proof -
  have "(of_nat n :: rat) \<le> of_int (cursor_value u) \<longleftrightarrow> int n \<le> cursor_value u"
    using of_int_le_iff[of "int n" "cursor_value u", where ?'a = rat] by simp
  then show ?thesis
    using least_id_le_iff[OF assms] usage_id_at_least_text[OF assms(3)] cursor_of_uuid[OF assms(2)] pg_uuid_uuid_text
    by auto
qed

lemma ex_id_cursor: "version7 ex_id" "recent ex_id" "cursor_value ex_id = 4096000005"
  by (simp_all add: version7_def recent_def cursor_value_def uuid_ms_def uuid_counter_def ex_id_def)

theorem cursor_galois_witness:
  "\<exists>v c. pg_uuid (usage_id_at_least (Fin (of_nat 4096000005))) = Some v \<and>
    cursor_of (uuid_text ex_id) = Fin c \<and> (v \<le> ex_id \<longleftrightarrow> of_nat 4096000005 \<le> c)"
  by (rule cursor_galois[OF ex_id_cursor(1,2)]) simp

text \<open>Property C21.  Pages lose nothing and repeat nothing: a page read from \<open>since\<close> on and what comes
  after its \<open>max_id\<close> are together, in order, exactly the rows after \<open>since\<close>; an empty page
  means there are none, and a page that is not empty moves the cursor on.\<close>

theorem usage_pages_partition:
  assumes "ids_ok d" "c < 2 ^ 52" "0 < n"
  shows "\<exists>us. page_rows_of d want (Fin (of_nat c)) (of_nat n) = Some us \<and>
    (if us = [] then rows_after d want (int c) = []
     else rows_after d want (int c) = us @ rows_after d want (row_cursor (last us)) \<and>
          int c < row_cursor (last us))"
  using page_rows_partition[OF assms] by metis

lemma ex_ids_ok: "ids_ok ex_charged_db"
proof -
  have usage: "db_usage ex_charged_db = [ex_usage]" by (simp add: ex_charged_db_def)
  have row: "ul_usage_id ex_usage = Some ex_id" "row_uuid ex_usage = ex_id" by (simp_all add: ex_usage_def row_uuid_def)
  have "length (filter P [ex_usage]) \<le> 5000" for P by simp
  then show ?thesis
    using ex_id_cursor by (simp add: ids_ok_def usage row usage_ids_def List.map_filter_simps)
qed

lemma ex_rows_after: "want ex_usage \<Longrightarrow> rows_after ex_charged_db want 0 = [ex_usage]"
  by (simp add: rows_after_def usage_base_def row_cursor_def row_uuid_def ex_id_cursor ex_charged_db_def)
    (simp add: ex_usage_def ex_id_cursor)

theorem usage_pages_partition_witness:
  "\<exists>us. page_rows_of ex_charged_db (\<lambda>_. True) (Fin (of_nat 0)) (of_nat 1) = Some us \<and> us \<noteq> [] \<and> hd us = ex_usage"
proof -
  have "rows_after ex_charged_db (\<lambda>_. True) 0 = [ex_usage]" by (rule ex_rows_after) simp
  then obtain us where "page_rows_of ex_charged_db (\<lambda>_. True) (Fin (of_nat 0)) (of_nat 1) = Some us"
    "us \<noteq> []" "[ex_usage] = us @ rows_after ex_charged_db (\<lambda>_. True) (row_cursor (last us))"
    using usage_pages_partition[OF ex_ids_ok, of 0 1 "\<lambda>_. True"] by (auto split: if_splits)
  then show ?thesis by (metis hd_append list.sel(1))
qed

text \<open>Property C14.  A key holder sees its own rows only: the credential presented was accepted, and every
  row of the page is a stored one of the top-level key's subtree, or of the derived key itself, of
  a key that exists, and shows the key, the \<open>jti\<close> and the name asked for, where the query
  names them.\<close>

theorem key_usage_shows_own_rows:
  assumes "key_usage sha256 verify_jwt now d0 headers failed d q = Answer st page"
  shows "st = 200 \<and> (\<exists>scope us.
    verify_gateway_credential sha256 verify_jwt now d0 (extract_credential headers) = Inr (Some scope) \<and>
    kp_rows page = map (usage_view d) us \<and>
    (\<forall>u\<in>set us. u \<in> set (db_usage d) \<and>
       (if scope_type scope = Top then ul_root u = Some (scope_key scope) else ul_key_id u = scope_key scope) \<and>
       find_key d (ul_key_id u) \<noteq> None \<and>
       (\<forall>i. given (qu_key_id q) = Some i \<longrightarrow> ku_key_id (usage_view d u) = i) \<and>
       (\<forall>j. given (qu_jti q) = Some j \<longrightarrow> ku_jti (usage_view d u) = j) \<and>
       (\<forall>n. given (qu_name q) = Some n \<longrightarrow> ku_name (usage_view d u) = n)))"
proof -
  obtain scope us where *: "st = 200" "kp_rows page = map (usage_view d) us"
    "verify_gateway_credential sha256 verify_jwt now d0 (extract_credential headers) = Inr (Some scope)"
    "set us \<subseteq> {u \<in> set (db_usage d). wanted d scope (key_filters q) (given (qu_name q)) u}"
    using key_usage_scope[OF assms] by metis
  have "u \<in> set (db_usage d) \<and>
      (if scope_type scope = Top then ul_root u = Some (scope_key scope) else ul_key_id u = scope_key scope) \<and>
      find_key d (ul_key_id u) \<noteq> None \<and>
      (\<forall>i. given (qu_key_id q) = Some i \<longrightarrow> ku_key_id (usage_view d u) = i) \<and>
      (\<forall>j. given (qu_jti q) = Some j \<longrightarrow> ku_jti (usage_view d u) = j) \<and>
      (\<forall>n. given (qu_name q) = Some n \<longrightarrow> ku_name (usage_view d u) = n)" if "u \<in> set us" for u
  proof -
    have w: "u \<in> set (db_usage d)" "wanted d scope (key_filters q) (given (qu_name q)) u" using that *(4) by blast+
    then obtain k where k: "find_key d (ul_key_id u) = Some k" "\<forall>n. given (qu_name q) = Some n \<longrightarrow> key_label k = n"
      by (auto simp: wanted_def split: option.splits)
    have "i \<in> set (key_filters q)" if "given (qu_key_id q) = Some i \<or> given (qu_jti q) = Some i" for i
      using that by (auto simp: key_filters_def List.map_filter_simps split: option.split)
    moreover have "list_all (\<lambda>i. uuid_text (ul_key_id u) = i) (key_filters q)" "in_scope scope u"
      using w(2) by (simp_all add: wanted_def)
    ultimately show ?thesis using w(1) k
      by (cases "scope_type scope") (auto simp: in_scope_def list_all_iff usage_view_def)
  qed
  then show ?thesis using * by blast
qed

definition ex_headers :: "string \<Rightarrow> string option" where
  "ex_headers name = (if name = ''x-api-key'' then Some ex_secret else None)"

definition ex_query :: usage_query where
  "ex_query = \<lparr>qu_since = None, qu_limit = None, qu_key_id = None, qu_jti = None, qu_name = Some ''ci''\<rparr>"

lemma ex_charged_credential:
  "verify_gateway_credential (\<lambda>b. b) (ex_verify 0) 100 ex_charged_db (extract_credential ex_headers) =
     Inr (Some \<lparr>scope_key = 7, scope_type = Top\<rparr>)"
  by (simp add: verify_gateway_credential_def credential_lookup_def extract_credential_def ex_headers_def
      starts_with_def prefix_live_def ex_secret_def find_credential_def usable_def root_usable_def root_of_def find_key_def
      ex_charged_db_def ex_flipped_def ex_budget_key_def ex_top_def)

theorem key_usage_shows_own_rows_witness:
  "\<exists>page us. key_usage (\<lambda>b. b) (ex_verify 0) 100 ex_charged_db ex_headers [] ex_charged_db ex_query = Answer 200 page \<and>
     kp_rows page = map (usage_view ex_charged_db) us \<and> us \<noteq> [] \<and> ul_root (hd us) = Some 7"
proof -
  let ?want = "wanted ex_charged_db \<lparr>scope_key = 7, scope_type = Top\<rparr> [] (Some ''ci'')"
  have q: "key_filters ex_query = []" "given (qu_name ex_query) = Some ''ci''" "since_of ex_query = Fin (of_nat 0)"
    "limit_of ex_query = of_nat 5000"
    by (simp_all add: key_filters_def given_def ex_query_def since_of_def limit_of_def number_or_def max_limit_def
        List.map_filter_simps)
  have "?want ex_usage"
    by (simp add: wanted_def in_scope_def ex_usage_def find_key_def ex_charged_db_def ex_flipped_def
        ex_budget_key_def ex_top_def)
  then have after: "rows_after ex_charged_db ?want 0 = [ex_usage]" by (rule ex_rows_after)
  obtain us where us: "page_rows_of ex_charged_db ?want (Fin (of_nat 0)) (of_nat 5000) = Some us"
    "us = [] \<longrightarrow> rows_after ex_charged_db ?want (int 0) = []"
    using page_rows_partition[OF ex_ids_ok, of 0 5000 ?want] by auto
  then obtain page where page: "key_usage (\<lambda>b. b) (ex_verify 0) 100 ex_charged_db ex_headers [] ex_charged_db ex_query = Answer 200 page"
    "kp_rows page = map (usage_view ex_charged_db) us"
    by (simp add: key_usage_def ex_charged_credential q Let_def)
  have ne: "us \<noteq> []" using us(2) after by auto
  obtain vs where vs: "kp_rows page = map (usage_view ex_charged_db) vs" "\<forall>u\<in>set vs. ul_root u = Some 7"
    using key_usage_shows_own_rows[OF page(1)] ex_charged_credential by auto
  moreover have "vs \<noteq> []" using ne page(2) vs(1) by auto
  ultimately show ?thesis using page(1) by auto
qed

text \<open>Property C40.  The breakdown accounts for every row: over the rows the user may see and the filters
  select, there is one line for each day, key and model that occurs, with the cost, tokens and
  number of exactly the rows of that day, key and model, and the requests and tokens of the lines
  add up to those of all rows.\<close>

theorem usage_breakdown_accounts:
  assumes "usage_breakdown sv d uid q = Answer st rows"
  defines "us \<equiv> filter (row_matches sv q) (visible_usage d uid)"
  shows "distinct (map fst rows) \<and>
    fst ` set rows = (\<lambda>u. (us_day sv (ul_created_at u), ul_key_id u, ul_model u)) ` set us \<and>
    (\<forall>((day, key, model), line)\<in>set rows.
       (let own = filter (\<lambda>u. us_day sv (ul_created_at u) = day \<and> ul_key_id u = key \<and> ul_model u = model) us
        in ug_cost_usd line = cost_text own \<and> ug_requests line = int (length own) \<and>
           ug_tokens_in line = sum_list (map ul_tokens_in own) \<and> ug_tokens_out line = sum_list (map ul_tokens_out own))) \<and>
    sum_list (map (\<lambda>r. ug_requests (snd r)) rows) = int (length us) \<and>
    sum_list (map (\<lambda>r. ug_tokens_in (snd r)) rows) = sum_list (map ul_tokens_in us) \<and>
    sum_list (map (\<lambda>r. ug_tokens_out (snd r)) rows) = sum_list (map ul_tokens_out us)"
proof -
  obtain rows0 where r: "rows = by_day_key_model sv rows0"
    "aggregate (\<lambda>u. (us_day sv (ul_created_at u), ul_key_id u, ul_model u)) us = Some rows0"
    using usage_breakdown_Answer[OF assms(1)] unfolding us_def by blast
  have "mset (map fst rows) = mset (map fst rows0)" unfolding r(1) mset_map by_day_key_model_mset ..
  then have "distinct (map fst rows)" using aggregate_keys(1)[OF r(2)] mset_eq_imp_distinct_iff by blast
  moreover have same: "set rows = set rows0" unfolding r(1) by (metis by_day_key_model_mset set_mset_mset)
  moreover have "fst ` set rows0 = (\<lambda>u. (us_day sv (ul_created_at u), ul_key_id u, ul_model u)) ` set us"
    using aggregate_keys(2)[OF r(2)] by simp
  moreover have "let own = filter (\<lambda>u. us_day sv (ul_created_at u) = day \<and> ul_key_id u = key \<and> ul_model u = model) us
      in ug_cost_usd line = cost_text own \<and> ug_requests line = int (length own) \<and>
         ug_tokens_in line = sum_list (map ul_tokens_in own) \<and> ug_tokens_out line = sum_list (map ul_tokens_out own)"
    if "((day, key, model), line) \<in> set rows0" for day key model line
    using aggregate_line[OF r(2) that] by (auto simp: group_of_def totals_of_def Let_def split: if_splits)
  ultimately show ?thesis
    using aggregate_sums[OF r(2)] unfolding r(1) by_day_key_model_sum by blast
qed

definition ex_server :: usage_server where
  "ex_server = \<lparr>us_time = (\<lambda>_. None), us_day = (\<lambda>_. ''1970-01-01''), us_collate = (\<lambda>_. 0)\<rparr>"

definition no_filters :: usage_filters where
  "no_filters = \<lparr>uf_key_id = None, uf_model = None, uf_from = None, uf_to = None\<rparr>"

lemma ex_visible: "visible_usage ex_charged_db ''u'' = [ex_usage]"
  by (simp add: visible_usage_def user_keys_def visible_keys_def user_teams_def ex_charged_db_def ex_usage_def
      ex_flipped_def ex_budget_key_def ex_budget_db_def ex_db_def ex_top_def)

theorem usage_breakdown_accounts_witness:
  "\<exists>rows. usage_breakdown ex_server ex_charged_db ''u'' no_filters = Answer 200 rows \<and>
     sum_list (map (\<lambda>r. ug_tokens_in (snd r)) rows) = 100"
proof -
  have "group_of [ex_usage] \<noteq> None"
    by (simp add: group_of_def totals_of_def totals_fit_def int4_def ex_usage_def Let_def)
  then obtain rows where rows: "usage_breakdown ex_server ex_charged_db ''u'' no_filters = Answer 200 rows"
    by (auto simp: usage_breakdown_def no_filters_def condition_def from_condition_def to_condition_def
        aggregate_def groups_def ex_visible)
  have "row_matches ex_server no_filters u" for u by (simp add: row_matches_def matches_def no_filters_def)
  then have "sum_list (map (\<lambda>r. ug_tokens_in (snd r)) rows) = ul_tokens_in ex_usage"
    using usage_breakdown_accounts[OF rows] by (simp add: ex_visible)
  then show ?thesis using rows by (simp add: ex_usage_def)
qed

end
