(* ===== verification/Html.thy ===== *)
theory Html
  imports Internal_Prices
begin

text \<open>
  What the admin pages are built from: markup as a tree, and the conversions to text of the
  language that the pages use (\<open>toFixed\<close>, \<open>toISOString\<close>, \<open>encodeURIComponent\<close>).  Turning a
  tree into characters, with its escaping, is the view library's.
\<close>

section \<open>Markup\<close>

datatype html = Text string | Elem string "(string \<times> string) list" "html list"

text \<open>A boolean attribute is there or not; a child that is \<open>null\<close> or \<open>undefined\<close> is nothing.\<close>

definition flag :: "string \<Rightarrow> bool \<Rightarrow> (string \<times> string) list" where
  "flag name b = (if b then [(name, [])] else [])"

definition given_text :: "string option \<Rightarrow> html list" where
  "given_text v = (case v of None \<Rightarrow> [] | Some s \<Rightarrow> [Text s])"

definition when_some :: "'a option \<Rightarrow> ('a \<Rightarrow> html) \<Rightarrow> html list" where
  "when_some v f = (case v of None \<Rightarrow> [] | Some a \<Rightarrow> [f a])"

text \<open>A query parameter or form value that is absent or empty is falsy.\<close>

definition truthy_text :: "string option \<Rightarrow> string option" where
  "truthy_text v = (case v of None \<Rightarrow> None | Some s \<Rightarrow> if s = [] then None else Some s)"

text \<open>The dash of the page texts, as the three bytes of its UTF-8 encoding.\<close>

definition em_dash :: string where
  "em_dash = map char_of [226, 128, 148 :: nat]"

definition dquote :: string where
  "dquote = [CHR 0x22]"

text \<open>Where the forms of a page post to.\<close>

fun form_actions :: "html \<Rightarrow> string list" where
  "form_actions (Text s) = []"
| "form_actions (Elem tag attrs cs) =
     (if tag = ''form'' \<and> map_of attrs ''method'' = Some ''post''
      then (case map_of attrs ''action'' of None \<Rightarrow> [] | Some a \<Rightarrow> [a]) else []) @
     concat (map form_actions cs)"

text \<open>What a form posts when its inputs are left as they are.\<close>

fun form_fields :: "html \<Rightarrow> (string \<times> string) list" where
  "form_fields (Text s) = []"
| "form_fields (Elem tag attrs cs) =
     (if tag = ''input''
      then (case map_of attrs ''name'' of None \<Rightarrow> [] | Some n \<Rightarrow> [(n, or_else (map_of attrs ''value'') [])]) else []) @
     concat (map form_fields cs)"

text \<open>The texts of a page.\<close>

fun page_texts :: "html \<Rightarrow> string list" where
  "page_texts (Text s) = [s]"
| "page_texts (Elem tag attrs cs) = concat (map page_texts cs)"

section \<open>Numbers and dates as text\<close>

text \<open>\<open>Number.prototype.toFixed\<close>: the nearest decimal with \<open>f\<close> digits, the larger of two.\<close>

definition fixed_digits :: "nat \<Rightarrow> rat \<Rightarrow> string" where
  "fixed_digits f x =
     (let m = dec_text (nat \<lfloor>x * 10 ^ f + 1 / 2\<rfloor>); k = length m;
          m' = (if k \<le> f then replicate (f + 1 - k) CHR ''0'' @ m else m)
      in if f = 0 then m else take (length m' - f) m' @ ''.'' @ drop (length m' - f) m')"

definition to_fixed :: "nat \<Rightarrow> js_num \<Rightarrow> string" where
  "to_fixed f n =
     (case n of
        Fin x \<Rightarrow>
          if 10 ^ 21 \<le> \<bar>x\<bar> then num_string n
          else if x < 0 then ''-'' @ fixed_digits f (- x) else fixed_digits f x
      | _ \<Rightarrow> num_string n)"

text \<open>The proleptic Gregorian date of a day count from 1970.\<close>

definition civil_date :: "int \<Rightarrow> int \<times> int \<times> int" where
  "civil_date days =
     (let z = days + 719468; era = z div 146097; doe = z mod 146097;
          yoe = (doe - doe div 1460 + doe div 36524 - doe div 146096) div 365;
          doy = doe - (365 * yoe + yoe div 4 - yoe div 100);
          mp = (5 * doy + 2) div 153;
          m = (if mp < 10 then mp + 3 else mp - 9)
      in (yoe + era * 400 + (if m \<le> 2 then 1 else 0), m, doy - (153 * mp + 2) div 5 + 1))"

definition digits_of :: "nat \<Rightarrow> int \<Rightarrow> string" where
  "digits_of n v = pad_start n CHR ''0'' (dec_text (nat v))"

definition to_iso_string :: "js_time \<Rightarrow> string" where
  "to_iso_string t =
     (let (y, m, d) = civil_date (t div 86400000); ms = t mod 86400000
      in (if 0 \<le> y \<and> y \<le> 9999 then digits_of 4 y
          else (if y < 0 then ''-'' else ''+'') @ digits_of 6 \<bar>y\<bar>) @
         ''-'' @ digits_of 2 m @ ''-'' @ digits_of 2 d @ ''T'' @ digits_of 2 (ms div 3600000) @ '':'' @
         digits_of 2 (ms div 60000 mod 60) @ '':'' @ digits_of 2 (ms div 1000 mod 60) @ ''.'' @
         digits_of 3 (ms mod 1000) @ ''Z'')"

text \<open>\<open>s.replace(p, r)\<close> for a text \<open>p\<close>: the first occurrence.\<close>

fun replace_text :: "string \<Rightarrow> string \<Rightarrow> string \<Rightarrow> string" where
  "replace_text p r s =
     (if starts_with p s then r @ drop (length p) s
      else (case s of [] \<Rightarrow> [] | c # cs \<Rightarrow> c # replace_text p r cs))"

definition iso :: "js_time \<Rightarrow> string" where
  "iso t = replace_text ''.000Z'' ''Z'' (to_iso_string t)"

text \<open>\<open>encodeURIComponent\<close>: all but letters, digits and eight marks as the bytes of UTF-8.\<close>

definition uri_plain :: "char \<Rightarrow> bool" where
  "uri_plain c =
     (let n = of_char c :: nat
      in (48 \<le> n \<and> n \<le> 57) \<or> (65 \<le> n \<and> n \<le> 90) \<or> (97 \<le> n \<and> n \<le> 122) \<or> n = 39 \<or> c \<in> set ''-_.!~*()'')"

definition upper_hex :: "8 word \<Rightarrow> string" where
  "upper_hex b = map (\<lambda>c. if c \<in> set ''abcdef'' then char_of ((of_char c :: nat) - 32) else c) (byte_hex b)"

definition encode_uri_component :: "string \<Rightarrow> string" where
  "encode_uri_component s =
     concat (map (\<lambda>c. if uri_plain c then [c]
                      else concat (map (\<lambda>b. CHR ''%'' # upper_hex b) (utf8_char c))) s)"

end
