(* ===== verification/Http_App.thy ===== *)
theory Http_App
  imports Js_Value
begin

text \<open>
  How a Hono app answers a request, as far as the two apps rely on it: handlers and middleware
  are kept in the order they are registered, those whose method and path match run in that
  order, and the first that does not call \<open>next\<close> answers.  A locale states what it takes for
  a table of routes to put its guards in front of its endpoints, and what then holds of
  every request.
\<close>

section \<open>Paths\<close>

datatype seg = Exactly string | Param | Any_rest

type_synonym path_pattern = "seg list"

fun path_matches :: "path_pattern \<Rightarrow> string list \<Rightarrow> bool" where
  "path_matches [] xs = (xs = [])"
| "path_matches (Any_rest # p) xs = True"
| "path_matches (Exactly s # p) (x # xs) = (s = x \<and> path_matches p xs)"
| "path_matches (Param # p) (x # xs) = (x \<noteq> [] \<and> path_matches p xs)"
| "path_matches (_ # p) [] = False"

definition segments :: "string \<Rightarrow> string list" where
  "segments path = tl (split_on (CHR ''/'') path)"

text \<open>Every path the second pattern matches, the first does.\<close>

fun path_covers :: "path_pattern \<Rightarrow> path_pattern \<Rightarrow> bool" where
  "path_covers (Any_rest # p) q = True"
| "path_covers [] [] = True"
| "path_covers (Exactly s # p) (Exactly t # q) = (s = t \<and> path_covers p q)"
| "path_covers (Param # p) (Exactly t # q) = (t \<noteq> [] \<and> path_covers p q)"
| "path_covers (Param # p) (Param # q) = path_covers p q"
| "path_covers _ _ = False"

lemma path_covers_matches: "path_covers p q \<Longrightarrow> path_matches q xs \<Longrightarrow> path_matches p xs"
proof (induction p q arbitrary: xs rule: path_covers.induct)
  case (3 s p t q)
  then show ?case by (cases xs) auto
next
  case (4 p t q)
  then show ?case by (cases xs) auto
next
  case (5 p q)
  then show ?case by (cases xs) auto
qed simp_all

section \<open>Routes\<close>

text \<open>\<open>rt_method = None\<close>: registered by \<open>use\<close>, for every method.\<close>

record 'h route =
  rt_method :: "string option"
  rt_path :: path_pattern
  rt_handler :: 'h

definition mount :: "string \<Rightarrow> 'h route list \<Rightarrow> 'h route list" where
  "mount prefix rs =
     (if prefix = ''/'' then rs else map (\<lambda>r. r\<lparr>rt_path := map Exactly (segments prefix) @ rt_path r\<rparr>) rs)"

definition route_matches :: "string \<Rightarrow> string list \<Rightarrow> 'h route \<Rightarrow> bool" where
  "route_matches verb xs r \<longleftrightarrow> (rt_method r = None \<or> rt_method r = Some verb) \<and> path_matches (rt_path r) xs"

definition handler_chain :: "'h route list \<Rightarrow> string \<Rightarrow> string list \<Rightarrow> 'h list" where
  "handler_chain rs verb xs = map rt_handler (filter (route_matches verb xs) rs)"

text \<open>The handler that answers: the first that does not pass the request on; \<open>None\<close> is the
  router's own 404.\<close>

definition answers :: "('h \<Rightarrow> bool) \<Rightarrow> 'h list \<Rightarrow> 'h option" where
  "answers continues hs = find (\<lambda>h. \<not> continues h) hs"

lemma answers_split:
  "answers continues hs = Some h \<Longrightarrow> \<exists>xs ys. hs = xs @ h # ys \<and> (\<forall>g\<in>set xs. continues g)"
proof (induction hs)
  case (Cons g hs)
  show ?case
  proof (cases "continues g")
    case True
    then obtain xs ys where "hs = xs @ h # ys" "\<forall>g\<in>set xs. continues g"
      using Cons by (auto simp: answers_def)
    then show ?thesis using True by (intro exI[of _ "g # xs"] exI[of _ ys] conjI) auto
  next
    case False
    then show ?thesis using Cons.prems by (intro exI[of _ "[]"] exI[of _ hs] conjI) (simp_all add: answers_def)
  qed
qed (simp add: answers_def)

lemma filter_split:
  "filter P xs = as @ r # bs \<Longrightarrow> \<exists>ps qs. xs = ps @ r # qs \<and> as = filter P ps \<and> P r"
proof (induction xs arbitrary: as)
  case (Cons x xs)
  show ?case
  proof (cases "P x \<and> as = []")
    case True
    then show ?thesis using Cons.prems by (intro exI[of _ "[]"] exI[of _ xs] conjI) simp_all
  next
    case False
    then obtain cs where "filter P xs = cs @ r # bs" "as = (if P x then x # cs else cs)"
      using Cons.prems by (cases as) (auto split: if_splits)
    then show ?thesis using Cons.IH by (metis append_Cons filter.simps(2))
  qed
qed simp

section \<open>Guards\<close>

definition route_covers :: "'h route \<Rightarrow> 'h route \<Rightarrow> bool" where
  "route_covers r q \<longleftrightarrow> (rt_method r = None \<or> rt_method r = rt_method q) \<and> path_covers (rt_path r) (rt_path q)"

lemma route_covers_matches: "route_covers r q \<Longrightarrow> route_matches verb xs q \<Longrightarrow> route_matches verb xs r"
  by (auto simp: route_covers_def route_matches_def path_covers_matches)

text \<open>Each handler comes after routes that cover its own for all the guards it needs.\<close>

fun well_guarded :: "('h \<Rightarrow> 'h list) \<Rightarrow> 'h route list \<Rightarrow> 'h route list \<Rightarrow> bool" where
  "well_guarded needs seen [] = True"
| "well_guarded needs seen (r # rs) =
     (list_all (\<lambda>g. list_ex (\<lambda>q. rt_handler q = g \<and> route_covers q r) seen) (needs (rt_handler r)) \<and>
      well_guarded needs (seen @ [r]) rs)"

lemma well_guarded_at:
  "well_guarded needs seen (xs @ r # ys) \<Longrightarrow> g \<in> set (needs (rt_handler r)) \<Longrightarrow>
    \<exists>q\<in>set (seen @ xs). rt_handler q = g \<and> route_covers q r"
  by (induction xs arbitrary: seen) (fastforce simp: list_all_iff list_ex_iff)+

locale guarded_app =
  fixes routes :: "'h route list" and needs :: "'h \<Rightarrow> 'h list"
  assumes guarded: "well_guarded needs [] routes"
begin

lemma needed_guard_before:
  assumes "handler_chain routes verb xs = us @ h # vs" "g \<in> set (needs h)"
  shows "g \<in> set us"
proof -
  obtain as cs where cs: "filter (route_matches verb xs) routes = as @ cs" "us = map rt_handler as"
    "map rt_handler cs = h # vs"
    using assms(1)[unfolded handler_chain_def map_eq_append_conv] by (elim exE conjE) (rule that, simp_all)
  then obtain r bs where r: "cs = r # bs" "rt_handler r = h" by (cases cs) auto
  obtain ps qs where ps: "routes = ps @ r # qs" "as = filter (route_matches verb xs) ps" "route_matches verb xs r"
    using filter_split[OF cs(1)[unfolded r(1)]] by blast
  obtain q where q: "q \<in> set ps" "rt_handler q = g" "route_covers q r"
    using well_guarded_at[of needs "[]" ps r qs g] guarded assms(2) unfolding ps(1) r(2) by auto
  then have "q \<in> set as" using ps(2,3) route_covers_matches by auto
  then show ?thesis using q(2) cs(2) by auto
qed

lemma needed_guard_passed:
  assumes "answers continues (handler_chain routes verb xs) = Some h" "g \<in> set (needs h)"
  shows "continues g"
proof -
  obtain us vs where *: "handler_chain routes verb xs = us @ h # vs" "\<forall>g\<in>set us. continues g"
    using answers_split[OF assms(1)] by blast
  show ?thesis using needed_guard_before[OF *(1) assms(2)] *(2) by blast
qed

end

end
