(* ===== verification/Admin_Views.thy ===== *)
theory Admin_Views
  imports Html Admin_Pages Http_App
begin

text \<open>
  The pages of the admin app as trees of markup: the frame (\<open>admin/src/views/layout.tsx\<close>), the
  keys, prices, usage and settings pages and the login form, each with the queries it runs.
  Ties of the database's orderings and the text of its
  timestamps are parameters.
\<close>

section \<open>The frame\<close>

abbreviation td :: "html list \<Rightarrow> html" where "td \<equiv> Elem ''td'' []"
abbreviation th :: "string \<Rightarrow> html" where "th s \<equiv> Elem ''th'' [] [Text s]"
abbreviation tr :: "html list \<Rightarrow> html" where "tr \<equiv> Elem ''tr'' []"
abbreviation br :: html where "br \<equiv> Elem ''br'' [] []"
abbreviation muted :: "(string \<times> string)" where "muted \<equiv> (''class'', ''muted'')"

definition page_header :: "string \<Rightarrow> html" where
  "page_header admin =
     Elem ''header'' []
       [Elem ''a'' [(''class'', ''brand''), (''href'', ''/'')] [Text ''llm-proxy-admin''],
        Elem ''a'' [(''href'', ''/usage'')] [Text ''Usage''],
        Elem ''a'' [(''href'', ''/keys'')] [Text ''Keys''],
        Elem ''a'' [(''href'', ''/prices'')] [Text ''Prices''],
        Elem ''a'' [(''href'', ''/settings'')] [Text ''Settings''],
        Elem ''span'' [muted, (''style'', ''margin-left:auto'')] [Text admin],
        Elem ''form'' [(''method'', ''post''), (''action'', ''/logout''), (''class'', ''inline'')]
          [Elem ''button'' [(''type'', ''submit'')] [Text ''Sign out'']]]"

definition page_style :: string where
  "page_style = join_with [CHR 0x0A]
     [[],
      ''  body { font-family: system-ui, sans-serif; margin: 0; background: #0b0d12; color: #e6e8eb; }'',
      ''  header { padding: 12px 24px; border-bottom: 1px solid #2a2e37; display: flex; gap: 20px; align-items: center; }'',
      ''  header a { color: #9fb4ff; text-decoration: none; font-size: 14px; }'',
      ''  header a.brand { color: #fff; font-weight: 600; font-size: 15px; }'',
      ''  main { padding: 24px; max-width: 1100px; margin: 0 auto; }'',
      ''  table { border-collapse: collapse; width: 100%; margin-top: 12px; }'',
      ''  th, td { text-align: left; padding: 6px 10px; border-bottom: 1px solid #2a2e37; font-size: 13px; }'',
      ''  th { color: #9098a8; font-weight: 500; }'',
      ''  form.inline { display: inline; }'',
      ''  input, button, select { background: #171a21; color: #e6e8eb; border: 1px solid #2a2e37; border-radius: 6px; padding: 6px 10px; font-size: 13px; }'',
      ''  button { cursor: pointer; }'',
      ''  button.danger { background: #3a1418; border-color: #7a2a30; color: #ffb4ba; }'',
      ''  .card { background: #12141a; border: 1px solid #2a2e37; border-radius: 10px; padding: 16px; margin-bottom: 16px; }'',
      ''  .muted { color: #9098a8; font-size: 12px; }'',
      ''  .flash { background: #14251a; border: 1px solid #2b5c3a; color: #b7f0c6; padding: 8px 12px; border-radius: 8px; margin-bottom: 16px; font-size: 13px; }'',
      ''  .err { background: #2a1416; border: 1px solid #6c2a30; color: #ffb4ba; padding: 8px 12px; border-radius: 8px; margin-bottom: 16px; font-size: 13px; }'',
      ''  code { background: #1c1f28; padding: 2px 6px; border-radius: 4px; }'',
      []]"

definition layout :: "string \<Rightarrow> string option \<Rightarrow> html list \<Rightarrow> html" where
  "layout title admin children =
     Elem ''html'' []
       [Elem ''head'' []
          [Elem ''meta'' [(''charset'', ''utf-8'')] [],
           Elem ''title'' [] [Text title, Text ('' '' @ em_dash @ '' llm-proxy-admin'')],
           Elem ''style'' [] [Text page_style]],
        Elem ''body'' [] (when_some (truthy_text admin) page_header @ [Elem ''main'' [] children])]"

section \<open>The login page\<close>

definition login_page :: "string option \<Rightarrow> html" where
  "login_page err =
     layout ''Sign in'' None
       [Elem ''div'' [(''class'', ''card''), (''style'', ''max-width:360px;margin:64px auto'')]
         (Elem ''h2'' [(''style'', ''margin-top:0'')] [Text ''llm-proxy-admin''] #
          when_some (truthy_text err) (\<lambda>_. Elem ''div'' [(''class'', ''err'')] [Text ''Invalid email or password.'']) @
          [Elem ''form'' [(''method'', ''post''), (''action'', ''/login'')]
            [Elem ''div'' [(''style'', ''margin-bottom:10px'')]
               [Elem ''input'' [(''name'', ''email''), (''type'', ''email''), (''placeholder'', ''email''), (''required'', []),
                  (''style'', ''width:100%;box-sizing:border-box'')] []],
             Elem ''div'' [(''style'', ''margin-bottom:10px'')]
               [Elem ''input'' [(''name'', ''password''), (''type'', ''password''), (''placeholder'', ''password''),
                  (''required'', []), (''style'', ''width:100%;box-sizing:border-box'')] []],
             Elem ''button'' [(''type'', ''submit''), (''style'', ''width:100%'')] [Text ''Sign in'']]])]"

text \<open>The answer of \<open>signInEmail\<close> or \<open>signOut\<close>: a status and its cookie.  The reply is a
  redirect, with the cookie passed on.\<close>

definition post_login :: "nat \<times> string option \<Rightarrow> string \<times> string option" where
  "post_login res =
     (if fst res \<noteq> 200 then (''/login?err=1'', None) else (''/'', truthy_text (snd res)))"

definition post_logout :: "nat \<times> string option \<Rightarrow> string \<times> string option" where
  "post_logout res = (''/login'', truthy_text (snd res))"

section \<open>Keys\<close>

text \<open>\<open>ORDER BY name\<close> is the server's collation.\<close>

definition list_teams :: "(string \<Rightarrow> int) \<Rightarrow> (team_row \<Rightarrow> int) \<Rightarrow> db \<Rightarrow> team_row list" where
  "list_teams collate rank d = sort_key (\<lambda>t. collate (team_name t)) (sort_key rank (db_teams d))"

definition key_type_text :: "key_type \<Rightarrow> string" where
  "key_type_text t = (case t of Top \<Rightarrow> ''top'' | Derived \<Rightarrow> ''derived'')"

definition key_status_text :: "key_status \<Rightarrow> string" where
  "key_status_text s = (case s of Active \<Rightarrow> ''active'' | Revoked \<Rightarrow> ''revoked'' | Over_budget \<Rightarrow> ''over_budget'')"

definition revoke_action :: "key_row \<Rightarrow> string" where
  "revoke_action k = ''/keys/'' @ uuid_text (key_id k) @ ''/revoke''"

definition key_line :: "(pg_time \<Rightarrow> string) \<Rightarrow> key_row \<times> string \<Rightarrow> html" where
  "key_line pg_text p =
     (let k = fst p; org = snd p in
      tr [td [Text org],
          td [Text (key_label k)],
          td [Elem ''code'' [] [Text (or_else (key_prefix k) ''(derived)'')]],
          td [Text (key_type_text (key_kind k))],
          td [Text (key_status_text (key_status k))],
          td [Text (case key_budget k of None \<Rightarrow> ''-'' | Some b \<Rightarrow> numeric_text 4 b)],
          Elem ''td'' [muted] [Text (pg_text (key_created_at k))],
          td (if key_status k = Active
              then [Elem ''form'' [(''method'', ''post''), (''action'', revoke_action k), (''class'', ''inline'')]
                      [Elem ''button'' [(''class'', ''danger''), (''type'', ''submit'')] [Text ''Revoke'']]]
              else [])])"

definition mint_form :: "team_row list \<Rightarrow> html" where
  "mint_form teams =
     Elem ''form'' [(''method'', ''post''), (''action'', ''/keys'')]
       [Elem ''div'' [(''style'', ''display:flex;gap:8px;flex-wrap:wrap;align-items:center'')]
         [Elem ''select'' [(''name'', ''team_id''), (''required'', [])]
            (map (\<lambda>t. Elem ''option'' [(''value'', uuid_text (team_id t))]
                        [Text (team_name t), Text '' ('', Text (kamuid_org_id t), Text '')'']) teams),
          Elem ''input'' [(''name'', ''label''), (''placeholder'', ''label''), (''required'', [])] [],
          Elem ''input'' [(''name'', ''budget_usd''), (''placeholder'', ''budget_usd (optional)'')] [],
          Elem ''button'' [(''type'', ''submit'')] [Text ''Create key'']]]"

definition keys_page ::
  "(pg_time \<Rightarrow> string) \<Rightarrow> admin_user \<Rightarrow> (key_row \<times> string) list \<Rightarrow> team_row list \<Rightarrow> string option \<Rightarrow> string option \<Rightarrow> html" where
  "keys_page pg_text a rows teams flash err =
     layout ''Keys'' (Some (au_email a))
       (when_some (truthy_text flash) (\<lambda>s. Elem ''div'' [(''class'', ''flash'')]
          [Text ''New key secret (shown once): '', Elem ''code'' [] [Text s]]) @
        when_some (truthy_text err) (\<lambda>s. Elem ''div'' [(''class'', ''err'')] [Text s]) @
        [Elem ''div'' [(''class'', ''card'')]
           [Elem ''h3'' [(''style'', ''margin-top:0'')] [Text ''Mint a top-level key''], mint_form teams],
         Elem ''h2'' [] [Text (''All keys (all orgs '' @ em_dash @ '' superuser view)'')],
         Elem ''table'' []
           [Elem ''thead'' [] [tr [th ''Org'', th ''Label'', th ''Prefix'', th ''Type'', th ''Status'', th ''Budget'',
                                   th ''Created'', Elem ''th'' [] []]],
            Elem ''tbody'' [] (map (key_line pg_text) rows)]])"

definition get_keys_page ::
  "(pg_time \<Rightarrow> string) \<Rightarrow> (string \<Rightarrow> int) \<Rightarrow> (key_row \<Rightarrow> int) \<Rightarrow> (team_row \<Rightarrow> int) \<Rightarrow> admin_user \<Rightarrow> db \<Rightarrow>
     string option \<Rightarrow> string option \<Rightarrow> html" where
  "get_keys_page pg_text collate rank rank' a d flash err =
     keys_page pg_text a (admin_list_keys rank d) (list_teams collate rank' d) flash err"

section \<open>Prices\<close>

definition rate_columns :: "((full_rates \<Rightarrow> rat) \<times> string \<times> string) list" where
  "rate_columns =
     [(input_rate, ''input_cost_per_mtok_usd'', ''Input $/Mtok''),
      (output_rate, ''output_cost_per_mtok_usd'', ''Output $/Mtok''),
      (cache_read_rate, ''cache_read_cost_per_mtok_usd'', ''Cache read $/Mtok''),
      (cache_write_rate, ''cache_write_cost_per_mtok_usd'', ''Cache write $/Mtok''),
      (per_request_rate, ''per_request_cost_usd'', ''Per request $'')]"

text \<open>\<open>String(eff.rates[name])\<close>.  The rates of an inherited property are \<open>undefined\<close>, the
  derived cache rates \<open>NaN\<close>, and the request rate falls back to 0.\<close>

definition rate_text :: "rat \<Rightarrow> string" where
  "rate_text r = num_string (Fin r)"

definition prefill :: "effective \<Rightarrow> string list" where
  "prefill eff =
     (case effective_rates eff of
        Some rs \<Rightarrow> map (\<lambda>(f, _). rate_text (f rs)) rate_columns
      | None \<Rightarrow> [''undefined'', ''undefined'', ''NaN'', ''NaN'', ''0''])"

fun eff_model :: "effective \<Rightarrow> string" where
  "eff_model (Eff_db m _ _ _) = m"
| "eff_model (Eff_catalog m _ _ _) = m"
| "eff_model (Eff_undefined m) = m"

fun eff_long_context :: "effective \<Rightarrow> bool" where
  "eff_long_context (Eff_db _ l _ _) = l"
| "eff_long_context (Eff_catalog _ l _ _) = l"
| "eff_long_context (Eff_undefined _) = False"

definition add_form :: "effective \<Rightarrow> html" where
  "add_form eff =
     (if eff_long_context eff
      then Elem ''div'' [(''class'', ''err'')]
        [Text (eff_model eff), Text '' '',
         Text (''has a long-context tier in the catalog. model_prices has no tier columns, so a DB row would bill '' @
               ''every request at the base rate and override the tier. Adding rows for this model is blocked; '' @
               ''it stays on the catalog price.'')]
      else Elem ''form'' [(''method'', ''post''), (''action'', ''/prices'')]
        [Elem ''input'' [(''type'', ''hidden''), (''name'', ''model''), (''value'', eff_model eff)] [],
         Elem ''div'' [(''style'', ''display:flex;gap:8px;flex-wrap:wrap;align-items:flex-end'')]
           (map (\<lambda>((_, name, label), v).
              Elem ''div'' []
                [Elem ''label'' [muted] [Text label], br,
                 Elem ''input'' ([(''name'', name), (''value'', v), (''inputmode'', ''decimal''), (''size'', ''10'')] @
                   flag ''required'' (name \<noteq> ''per_request_cost_usd'')) []])
              (zip rate_columns (prefill eff))),
         Elem ''div'' [(''style'', ''display:flex;gap:8px;flex-wrap:wrap;align-items:flex-end;margin-top:10px'')]
           [Elem ''div'' []
              [Elem ''label'' [muted] [Text ''valid_from (UTC, blank = now)''], br,
               Elem ''input'' [(''type'', ''datetime-local''), (''name'', ''valid_from'')] []],
            Elem ''div'' []
              [Elem ''label'' [muted] [Text ''source''], br,
               Elem ''input'' [(''name'', ''source''), (''value'', ''manual''), (''required'', [])] []],
            Elem ''div'' [(''style'', ''flex:1'')]
              [Elem ''label'' [muted] [Text ''note''], br,
               Elem ''input'' [(''name'', ''note''), (''style'', ''width:100%;box-sizing:border-box'')] []],
            Elem ''button'' [(''type'', ''submit'')] [Text ''Add price row'']],
         Elem ''p'' [muted]
           [Text (''Prefilled with the current price. Rows are append-only: a correction is a new row. '' @
                  ''Ingest picks the row up within 30 s; it prices usage ingested after that and never reprices stored rows.'')]])"

text \<open>The last cell of a row of the history.\<close>

definition history_mark :: "uuid option \<Rightarrow> js_time \<Rightarrow> stored_price \<Rightarrow> string" where
  "history_mark current now p =
     (if Some (row_id p) = current then ''current'' else if now < valid_from p then ''scheduled'' else [])"

definition history_line :: "uuid option \<Rightarrow> js_time \<Rightarrow> stored_price \<Rightarrow> html" where
  "history_line current now p =
     tr ([td [Text (iso (valid_from p))]] @
         map (\<lambda>(f, _). td [Text (rate_text (f (row_rates p)))]) rate_columns @
         [td [Text (price_source p)],
          td [Text (or_else (price_note p) ''-'')],
          Elem ''td'' [muted] [Text (iso (price_created_at p)), Text '' by '', Text (or_else (price_created_by p) ''-'')],
          td [Text (history_mark current now p)]])"

definition current_line :: "string \<times> effective option \<times> nat \<Rightarrow> html" where
  "current_line l =
     (let (s, e, n) = l;
          long = (case e of Some x \<Rightarrow> eff_long_context x | None \<Rightarrow> False);
          derived = (case e of Some (Eff_catalog _ _ _ b) \<Rightarrow> b | _ \<Rightarrow> False);
          row = (case e of Some (Eff_db _ _ _ r) \<Rightarrow> Some r | _ \<Rightarrow> None);
          rates = (case e of Some x \<Rightarrow> effective_rates x | None \<Rightarrow> None)
      in tr ([td (Elem ''a'' [(''href'', ''/prices?model='' @ encode_uri_component s)] [Text s] #
                  (if long then [Elem ''span'' [muted, (''style'', ''margin-left:6px'')] [Text ''long-context tier'']] else [])),
              td [Text (if row \<noteq> None then ''DB row'' else ''catalog'')]] @
             map (\<lambda>(f, name, _).
               td (given_text (map_option (\<lambda>rs. rate_text (f rs)) rates) @
                   (if derived \<and> starts_with ''cache_'' name
                    then [Elem ''span'' [muted, (''style'', ''margin-left:4px'')] [Text ''derived'']] else [])))
               rate_columns @
             [td [Text (case row of Some r \<Rightarrow> price_source r | None \<Rightarrow> ''-'')],
              Elem ''td'' [muted] [Text (case row of Some r \<Rightarrow> iso (valid_from r) | None \<Rightarrow> ''-'')],
              td [Text (dec_text n)]]))"

definition model_option :: "string option \<Rightarrow> string \<Rightarrow> html" where
  "model_option selected s = Elem ''option'' ((''value'', s) # flag ''selected'' (Some s = selected)) [Text s]"

definition prices_page :: "admin_user \<Rightarrow> price_page \<Rightarrow> js_time \<Rightarrow> string option \<Rightarrow> string option \<Rightarrow> html" where
  "prices_page a pg now ok err =
     layout ''Prices'' (Some (au_email a))
       (when_some (truthy_text ok) (\<lambda>_. Elem ''div'' [(''class'', ''flash'')] [Text ''Price row added.'']) @
        when_some (truthy_text err) (\<lambda>s. Elem ''div'' [(''class'', ''err'')] [Text s]) @
        [Elem ''div'' [(''class'', ''card'')]
          ([Elem ''h3'' [(''style'', ''margin-top:0'')] [Text ''Add a price row''],
            Elem ''form'' [(''method'', ''get''), (''action'', ''/prices'')]
              [Elem ''select'' [(''name'', ''model'')]
                 (map (\<lambda>l. model_option (map_option eff_model (pg_selected pg)) (fst l)) (pg_lines pg)),
               Text '' '',
               Elem ''button'' [(''type'', ''submit'')] [Text ''Load'']]] @
           when_some (pg_selected pg) (\<lambda>e. Elem ''div'' [(''style'', ''margin-top:12px'')] [add_form e]))] @
        (case pg_selected pg of
           None \<Rightarrow> []
         | Some e \<Rightarrow>
             [Elem ''h2'' [] [Text ''History: '', Text (eff_model e)],
              (if pg_history pg = []
               then Elem ''p'' [muted] [Text ''No model_prices rows; ingest uses the catalog price.'']
               else Elem ''table'' []
                 [Elem ''thead'' []
                    [tr ([th ''valid_from''] @ map (\<lambda>(_, _, label). th label) rate_columns @
                         [th ''Source'', th ''Note'', th ''Created'', Elem ''th'' [] []])],
                  Elem ''tbody'' [] (map (history_line (pg_current pg) now) (pg_history pg))])]) @
        [Elem ''h2'' [] [Text ''Current prices (what ingest charges now)''],
         Elem ''p'' [muted]
           [Text (''Latest llm.model_prices row with valid_from <= now, else the code catalog (proxy/catalog.json). '' @
                  dquote @ ''derived'' @ dquote @ '' cache rates are the 0.1x / 1.25x input fallback for catalog entries without cache rates.'')],
         Elem ''table'' []
           [Elem ''thead'' []
              [tr ([th ''Model'', th ''Price from''] @ map (\<lambda>(_, _, label). th label) rate_columns @
                   [th ''Source'', th ''valid_from'', th ''Rows''])],
            Elem ''tbody'' [] (map current_line (pg_lines pg))]])"

definition get_prices_page ::
  "catalog \<Rightarrow> (price_db_row \<Rightarrow> int) \<Rightarrow> admin_user \<Rightarrow> db \<Rightarrow> js_time \<Rightarrow> string option \<Rightarrow> string option \<Rightarrow>
     string option \<Rightarrow> html" where
  "get_prices_page models rank a d now selected ok err =
     prices_page a (price_page_of models (admin_load_table rank (db_prices d)) now selected) now ok err"

section \<open>Usage\<close>

definition spend_line :: "org_spend \<Rightarrow> html" where
  "spend_line s =
     tr [td [Text (os_org s)], td [Text (os_team s)],
         td [Text ''$'', Text (to_fixed 4 (Fin (fl (os_total s))))],
         td [Text (dec_text (os_requests s))]]"

definition recent_line :: "(pg_time \<Rightarrow> string) \<Rightarrow> recent_usage \<Rightarrow> html" where
  "recent_line pg_text r =
     (let u = ru_row r in
      tr [Elem ''td'' [muted] [Text (pg_text (ul_created_at u))],
          td [Text (ru_org r)],
          td [Text (key_label (ru_key r)), Text '' '',
              Elem ''span'' [muted] [Text (slice 0 8 (uuid_text (key_id (ru_key r))))]],
          td [Text (or_else (ul_model u) ''-'')],
          td [Text (case ul_cost u of None \<Rightarrow> ''-'' | Some x \<Rightarrow> ''$'' @ to_fixed 6 (Fin (fl x)))],
          td [Text (num_string (Fin (of_int (ul_tokens_in u)))), Text ''/'',
              Text (num_string (Fin (of_int (ul_tokens_out u))))]])"

definition usage_page :: "(pg_time \<Rightarrow> string) \<Rightarrow> admin_user \<Rightarrow> org_spend list \<Rightarrow> recent_usage list \<Rightarrow> html" where
  "usage_page pg_text a by_org rows =
     layout ''Usage'' (Some (au_email a))
       [Elem ''h2'' [] [Text (''Spend by org (all orgs '' @ em_dash @ '' superuser view)'')],
        Elem ''table'' []
          [Elem ''thead'' [] [tr [th ''Org'', th ''Team'', th ''Total cost (USD, est.)'', th ''Requests'']],
           Elem ''tbody'' [] (map spend_line by_org)],
        Elem ''h2'' [(''style'', ''margin-top:32px'')] [Text ''Recent requests (latest 200, all orgs)''],
        Elem ''table'' []
          [Elem ''thead'' [] [tr [th ''Time'', th ''Org'', th ''Key'', th ''Model'', th ''Cost'', th ''Tokens in/out'']],
           Elem ''tbody'' [] (map (recent_line pg_text) rows)]]"

definition get_usage_page ::
  "(pg_time \<Rightarrow> string) \<Rightarrow> (org_spend \<Rightarrow> int) \<Rightarrow> (usage_row \<Rightarrow> int) \<Rightarrow> admin_user \<Rightarrow> db \<Rightarrow> html" where
  "get_usage_page pg_text rank rank' a d = usage_page pg_text a (spend_by_org rank d) (recent_rows rank' 200 d)"

definition get_api_usage :: "(usage_row \<Rightarrow> int) \<Rightarrow> db \<Rightarrow> recent_usage list" where
  "get_api_usage rank d = recent_rows rank 500 d"

section \<open>Settings\<close>

text \<open>The text of a \<open>NUMERIC(12, 4)\<close>, which may be \<open>NaN\<close>.\<close>

definition budget_text :: "js_num \<Rightarrow> string" where
  "budget_text b = (case b of Fin x \<Rightarrow> numeric_text 4 x | _ \<Rightarrow> num_string b)"

definition auth_style_text :: "auth_style \<Rightarrow> string" where
  "auth_style_text s = (case s of X_api_key \<Rightarrow> ''x-api-key'' | Bearer \<Rightarrow> ''bearer'' | Both \<Rightarrow> ''both'')"

definition settings_page ::
  "(pg_time \<Rightarrow> string) \<Rightarrow> catalog \<Rightarrow> (string \<times> provider_entry) list \<Rightarrow> admin_user \<Rightarrow> settings_row \<Rightarrow> html" where
  "settings_page pg_text models providers a s =
     layout ''Settings'' (Some (au_email a))
       [Elem ''div'' [(''class'', ''card'')]
          [Elem ''h3'' [(''style'', ''margin-top:0'')] [Text ''Operator overrides''],
           Elem ''p'' [muted]
             [Text (''Layered on top of the code catalog below. Not yet consumed by the proxy hot path '' @ em_dash @
                    '' see admin/README.md '' @ dquote @ ''Feature 2 scope'' @ dquote @ ''.'')],
           Elem ''form'' [(''method'', ''post''), (''action'', ''/settings'')]
             [Elem ''div'' [(''style'', ''margin-bottom:10px'')]
                [Elem ''label'' [] [Text ''Default budget_usd for new keys (blank = unlimited)''], br,
                 Elem ''input'' [(''name'', ''default_budget_usd''),
                   (''value'', case default_budget s of None \<Rightarrow> [] | Some b \<Rightarrow> budget_text b)] []],
              Elem ''div'' [(''style'', ''margin-bottom:10px'')]
                [Elem ''label'' [] [Text ''Disabled models (comma-separated slugs)''], br,
                 Elem ''input'' [(''name'', ''disabled_models''), (''style'', ''width:100%;box-sizing:border-box''),
                   (''value'', join_with '','' (disabled_models s))] []],
              Elem ''button'' [(''type'', ''submit'')] [Text ''Save''],
              Elem ''span'' [muted, (''style'', ''margin-left:12px'')]
                [Text ''last updated '', Text (pg_text (settings_updated_at s)), Text '' by '',
                 Text (or_else (settings_updated_by s) ''-'')]]],
        Elem ''h2'' [] [Text (''Model catalog (read-only '' @ em_dash @ '' source: proxy/catalog.json)'')],
        Elem ''table'' []
          [Elem ''thead'' [] [tr [th ''Slug'', th ''Provider'', th ''Input $/Mtok'', th ''Output $/Mtok'', th ''Disabled (override)'']],
           Elem ''tbody'' [] (map (\<lambda>(slug, m).
             tr [td [Text slug], td [Text (provider_slug m)], td [Text (rate_text (input_cost_per_mtok_usd m))],
                 td [Text (rate_text (output_cost_per_mtok_usd m))],
                 td [Text (if slug \<in> set (disabled_models s) then ''yes'' else ''-'')]]) models)],
        Elem ''h2'' [(''style'', ''margin-top:32px'')] [Text ''Providers (read-only)''],
        Elem ''table'' []
          [Elem ''thead'' [] [tr [th ''Slug'', th ''Base URL'', th ''Auth style'', th ''API key env var'']],
           Elem ''tbody'' [] (map (\<lambda>(slug, p).
             tr [td [Text slug], td [Text (base_url p)], td [Text (auth_style_text (auth_style p))],
                 td [Elem ''code'' [] [Text (api_key_env_var p)]]]) providers)]]"

definition get_settings_page ::
  "(pg_time \<Rightarrow> string) \<Rightarrow> catalog \<Rightarrow> (string \<times> provider_entry) list \<Rightarrow> admin_user \<Rightarrow> db \<Rightarrow> html" where
  "get_settings_page pg_text models providers a d = settings_page pg_text models providers a (db_settings d)"

end
