(* ===== verification/Api_App.thy ===== *)
theory Api_App
  imports Http_App Prelude
begin

text \<open>
  The api app around its handlers: the table of routes that \<open>main.ts\<close> puts together from the
  routers of \<open>api/src/routes\<close>, its CORS rule and error handler, the validation hook of
  \<open>lib/openapi.ts\<close>, and the leveled logger with the access log
  (\<open>lib/logger.ts\<close>, \<open>middleware/request-logger.ts\<close>).
\<close>

section \<open>The handlers\<close>

datatype api_handler =
    Request_logger | Cors | Require_auth | Require_grant string | Require_internal_token
  | Get_health | Get_key_usage | Get_internal_prices | Post_internal_price | Post_derive
  | Get_keys | Post_key | Get_key | Post_key_revoke | Get_teams
  | Get_usage | Get_usage_totals | Get_usage_facets | Get_openapi | Get_docs

abbreviation on :: "string \<Rightarrow> path_pattern \<Rightarrow> 'h \<Rightarrow> 'h route" where
  "on verb p h \<equiv> \<lparr>rt_method = Some verb, rt_path = p, rt_handler = h\<rparr>"

abbreviation on_all :: "path_pattern \<Rightarrow> 'h \<Rightarrow> 'h route" where
  "on_all p h \<equiv> \<lparr>rt_method = None, rt_path = p, rt_handler = h\<rparr>"

definition key_usage_routes :: "api_handler route list" where
  "key_usage_routes = [on ''GET'' [Exactly ''usage''] Get_key_usage]"

definition internal_routes :: "api_handler route list" where
  "internal_routes =
     [on_all [Exactly ''internal'', Any_rest] Require_internal_token,
      on ''GET'' [Exactly ''internal'', Exactly ''prices''] Get_internal_prices,
      on ''POST'' [Exactly ''internal'', Exactly ''prices''] Post_internal_price]"

definition derive_routes :: "api_handler route list" where
  "derive_routes = [on ''POST'' [Exactly ''keys'', Exactly ''derive''] Post_derive]"

definition keys_routes :: "api_handler route list" where
  "keys_routes =
     [on_all [Exactly ''keys''] Require_auth,
      on_all [Exactly ''keys'', Any_rest] Require_auth,
      on ''GET'' [Exactly ''keys''] Get_keys,
      on ''POST'' [Exactly ''keys''] (Require_grant ''llm.keys.create''),
      on ''POST'' [Exactly ''keys''] Post_key,
      on ''GET'' [Exactly ''keys'', Param] Get_key,
      on ''POST'' [Exactly ''keys'', Param, Exactly ''revoke''] (Require_grant ''llm.keys.revoke''),
      on ''POST'' [Exactly ''keys'', Param, Exactly ''revoke''] Post_key_revoke]"

definition teams_routes :: "api_handler route list" where
  "teams_routes =
     [on_all [Exactly ''teams''] Require_auth,
      on ''GET'' [Exactly ''teams''] Get_teams]"

definition usage_routes :: "api_handler route list" where
  "usage_routes =
     [on_all [Exactly ''usage''] Require_auth,
      on_all [Exactly ''usage'', Any_rest] Require_auth,
      on ''GET'' [Exactly ''usage''] Get_usage,
      on ''GET'' [Exactly ''usage'', Exactly ''totals''] Get_usage_totals,
      on ''GET'' [Exactly ''usage'', Exactly ''facets''] Get_usage_facets]"

definition api_routes :: "api_handler route list" where
  "api_routes =
     [on_all [Any_rest] Request_logger,
      on_all [Exactly ''api'', Any_rest] Cors,
      on ''GET'' [Exactly ''health''] Get_health] @
     mount ''/'' key_usage_routes @
     mount ''/'' internal_routes @
     mount ''/api'' derive_routes @
     mount ''/api'' keys_routes @
     mount ''/api'' teams_routes @
     mount ''/api'' usage_routes @
     [on ''GET'' [Exactly ''api'', Exactly ''openapi.json''] Get_openapi,
      on ''GET'' [Exactly ''api'', Exactly ''docs''] Get_docs]"

text \<open>What a handler does with the request: the logger always passes it on, CORS answers
  preflight requests itself, a guard passes it on when it lets the caller in, and every
  other handler answers.\<close>

fun api_continues :: "string \<Rightarrow> (api_handler \<Rightarrow> bool) \<Rightarrow> api_handler \<Rightarrow> bool" where
  "api_continues verb lets_in Request_logger = True"
| "api_continues verb lets_in Cors = (verb \<noteq> ''OPTIONS'')"
| "api_continues verb lets_in Require_auth = lets_in Require_auth"
| "api_continues verb lets_in (Require_grant p) = lets_in (Require_grant p)"
| "api_continues verb lets_in Require_internal_token = lets_in Require_internal_token"
| "api_continues verb lets_in _ = False"

definition api_serve :: "(api_handler \<Rightarrow> bool) \<Rightarrow> string \<Rightarrow> string \<Rightarrow> api_handler option" where
  "api_serve lets_in verb path =
     answers (api_continues verb lets_in) (handler_chain api_routes verb (segments path))"

section \<open>Guards come first\<close>

text \<open>The guards a handler is documented to be behind.\<close>

fun api_needs :: "api_handler \<Rightarrow> api_handler list" where
  "api_needs (Require_grant p) = [Require_auth]"
| "api_needs Get_internal_prices = [Require_internal_token]"
| "api_needs Post_internal_price = [Require_internal_token]"
| "api_needs Get_keys = [Require_auth]"
| "api_needs Post_key = [Require_auth, Require_grant ''llm.keys.create'']"
| "api_needs Get_key = [Require_auth]"
| "api_needs Post_key_revoke = [Require_auth, Require_grant ''llm.keys.revoke'']"
| "api_needs Get_teams = [Require_auth]"
| "api_needs Get_usage = [Require_auth]"
| "api_needs Get_usage_totals = [Require_auth]"
| "api_needs Get_usage_facets = [Require_auth]"
| "api_needs _ = []"

lemmas api_route_defs = api_routes_def key_usage_routes_def internal_routes_def derive_routes_def
  keys_routes_def teams_routes_def usage_routes_def mount_def segments_def

interpretation api: guarded_app api_routes api_needs
  by unfold_locales (simp add: api_route_defs route_covers_def)

lemma api_guard_passed:
  assumes "api_serve lets_in verb path = Some h" "g \<in> set (api_needs h)" "g \<notin> {Request_logger, Cors}"
  shows "lets_in g"
proof -
  have "api_continues verb lets_in g"
    using api.needed_guard_passed[OF assms(1)[unfolded api_serve_def] assms(2)] .
  then show ?thesis using assms(3) by (cases g) simp_all
qed

text \<open>Derive is answered before the guards of the keys router are asked.\<close>

lemma derive_bypasses: "api_serve lets_in ''POST'' ''/api/keys/derive'' = Some Post_derive"
  by (simp add: api_serve_def handler_chain_def api_route_defs route_matches_def answers_def)

section \<open>CORS, errors, validation\<close>

definition cors_origin :: "string \<Rightarrow> string option" where
  "cors_origin origin =
     (if origin = ''http://localhost:8080'' \<or> origin = ''https://app.kamuhub.com'' then Some origin else None)"

text \<open>What a handler can throw; the text of a value that is no \<open>Error\<close> is \<open>String(err)\<close>.\<close>

datatype thrown = Http_exception nat string | Error_value string | Other_value string

definition on_error :: "thrown \<Rightarrow> nat \<times> json" where
  "on_error e =
     (case e of
        Http_exception st msg \<Rightarrow> (st, JObj [(''error'', JStr msg)])
      | Error_value msg \<Rightarrow> (500, JObj [(''error'', JStr msg)])
      | Other_value txt \<Rightarrow> (500, JObj [(''error'', JStr txt)]))"

record schema_issue =
  si_path :: "string list"
  si_message :: string

definition issue_text :: "schema_issue \<Rightarrow> string" where
  "issue_text i =
     (let field = join_with ''.'' (si_path i)
      in if field \<noteq> [] then field @ '': '' @ si_message i else si_message i)"

text \<open>\<open>Inr v\<close>: the request parsed, and the handler runs.\<close>

definition default_hook :: "schema_issue list + 'a \<Rightarrow> (nat \<times> json) option" where
  "default_hook result =
     (case result of
        Inr _ \<Rightarrow> None
      | Inl issues \<Rightarrow>
          (let details = map issue_text issues
           in Some (400, JObj [(''error'', JStr (join_with '', '' details)),
                               (''details'', JArr (map JStr details))])))"

section \<open>The logger\<close>

datatype log_level = Debug | Info | Warn | Error

fun log_order :: "log_level \<Rightarrow> nat" where
  "log_order Debug = 10"
| "log_order Info = 20"
| "log_order Warn = 30"
| "log_order Error = 40"

instantiation log_level :: linorder
begin

definition less_eq_log_level :: "log_level \<Rightarrow> log_level \<Rightarrow> bool" where
  "less_eq_log_level a b \<longleftrightarrow> log_order a \<le> log_order b"

definition less_log_level :: "log_level \<Rightarrow> log_level \<Rightarrow> bool" where
  "less_log_level a b \<longleftrightarrow> log_order a < log_order b"

instance
proof
  show "a = b" if "a \<le> b" "b \<le> a" for a b :: log_level
    using that by (cases a; cases b) (simp_all add: less_eq_log_level_def)
qed (auto simp: less_eq_log_level_def less_log_level_def)

end

datatype stream = Stdout | Stderr

definition level_text :: "log_level \<Rightarrow> string" where
  "level_text l = (case l of Debug \<Rightarrow> ''debug'' | Info \<Rightarrow> ''info'' | Warn \<Rightarrow> ''warn'' | Error \<Rightarrow> ''error'')"

text \<open>An object literal that spreads \<open>fields\<close> after its own members: a member of the same name
  is replaced in place, the others follow.\<close>

definition spread :: "(string \<times> json) list \<Rightarrow> (string \<times> json) list \<Rightarrow> (string \<times> json) list" where
  "spread own members =
     map (\<lambda>(k, v). (k, or_else (map_of (rev members) k) v)) own @ filter (\<lambda>(k, _). k \<notin> fst ` set own) members"

definition emit :: "log_level \<Rightarrow> log_level \<Rightarrow> string \<Rightarrow> (string \<times> json) list \<Rightarrow> (stream \<times> json) option" where
  "emit threshold level msg members =
     (if level < threshold then None
      else Some (if level = Warn \<or> level = Error then Stderr else Stdout,
                 JObj (spread [(''level'', JStr (level_text level)), (''msg'', JStr msg)] members)))"

text \<open>The access log of one request: when it came in and when its response was ready.\<close>

definition request_log ::
  "log_level \<Rightarrow> string \<Rightarrow> string \<Rightarrow> nat \<Rightarrow> js_time \<Rightarrow> js_time \<Rightarrow> (stream \<times> json) option" where
  "request_log threshold verb path status start done_at =
     (let dur_ms = done_at - start;
          members = [(''method'', JStr verb), (''path'', JStr path), (''status'', JNum (Fin (of_nat status))),
                    (''dur_ms'', JNum (Fin (of_int dur_ms)))]
      in if path = ''/health'' then emit threshold Debug ''request'' members
         else if 500 \<le> status then emit threshold Error ''request'' members
         else if 400 \<le> status \<or> 1000 < dur_ms then emit threshold Warn ''request'' members
         else emit threshold Info ''request'' members)"

text \<open>A failed request off the health path is reported on standard error whatever the
  threshold, and raising the threshold only removes lines.\<close>

lemma Error_greatest: "l \<le> Error"
  by (cases l) (simp_all add: less_eq_log_level_def)

lemma emit_antimono:
  assumes "a \<le> b" "emit b level msg members = Some line"
  shows "emit a level msg members = Some line"
  using assms by (auto simp: emit_def split: if_splits)

lemma request_log_mono:
  assumes "a \<le> b" "request_log b verb path status start done_at = Some line"
  shows "request_log a verb path status start done_at = Some line"
  using assms emit_antimono[OF assms(1)] by (auto simp: request_log_def Let_def split: if_splits)

lemma server_error_logged:
  assumes "path \<noteq> ''/health''" "500 \<le> status"
  shows "\<exists>line. request_log threshold verb path status start done_at = Some (Stderr, line)"
  using assms Error_greatest[of threshold] by (simp add: request_log_def emit_def not_less)

lemma health_silent: "Info \<le> threshold \<Longrightarrow> request_log threshold verb ''/health'' status start done_at = None"
  by (auto simp: request_log_def emit_def less_log_level_def less_eq_log_level_def)

end
