(* ===== verification/Key_Replies.thy ===== *)
theory Key_Replies
  imports Key_Derive Usage_Routes Admin_Views Api_App
begin

text \<open>
  The bodies of the answers of \<open>api/src/routes/keys.ts\<close>: the columns each statement returns
  (\<open>KeyListRow\<close>, \<open>KeyCreateRow\<close>, \<open>KeyDetailRow\<close>, \<open>DerivedKeyRow\<close>), as the driver
  and \<open>c.json\<close> render them, and the messages of the errors.  The texts of errors the engine, the
  driver or the server raise are the parameter \<open>raised\<close>.
\<close>

section \<open>Columns\<close>

text \<open>The driver gives \<open>NUMERIC\<close> as text and a time as a \<open>Date\<close>, which JSON writes as ISO 8601.\<close>

definition null_or :: "('a \<Rightarrow> json) \<Rightarrow> 'a option \<Rightarrow> json" where
  "null_or f v = (case v of None \<Rightarrow> JNull | Some x \<Rightarrow> f x)"

definition uuid_json :: "uuid \<Rightarrow> json" where "uuid_json i = JStr (uuid_text i)"
definition date_json :: "pg_time \<Rightarrow> json" where "date_json t = JStr (to_iso_string (js_date t))"
definition budget_json :: "rat \<Rightarrow> json" where "budget_json b = JStr (numeric_text 4 b)"
definition int_json :: "int \<Rightarrow> json" where "int_json n = JNum (Fin (of_int n))"

definition kind_text :: "key_type \<Rightarrow> string" where
  "kind_text t = (case t of Top \<Rightarrow> ''top'' | Derived \<Rightarrow> ''derived'')"

definition key_list_row :: "key_row \<times> string \<Rightarrow> json" where
  "key_list_row = (\<lambda>(k, org). JObj
     [(''id'', uuid_json (key_id k)), (''team_id'', uuid_json (key_team k)), (''kamuid_org_id'', JStr org),
      (''label'', JStr (key_label k)), (''prefix'', null_or JStr (key_prefix k)), (''key_type'', JStr (kind_text (key_kind k))),
      (''models'', JArr (map JStr (key_models k))), (''budget_usd'', null_or budget_json (key_budget k)),
      (''status'', JStr (key_status_text (key_status k))),
      (''parent_key_id'', null_or uuid_json (key_parent k)), (''root_key_id'', null_or uuid_json (key_root k)),
      (''expires_at'', null_or date_json (key_expires_at k)), (''created_at'', date_json (key_created_at k)),
      (''created_by'', null_or JStr (key_created_by k)), (''revoked_at'', null_or date_json (key_revoked_at k)),
      (''revoked_by'', null_or JStr (key_revoked_by k))])"

definition key_create_row :: "key_row \<Rightarrow> json" where
  "key_create_row k = JObj
     [(''id'', uuid_json (key_id k)), (''team_id'', uuid_json (key_team k)), (''label'', JStr (key_label k)),
      (''prefix'', null_or JStr (key_prefix k)), (''key_type'', JStr (kind_text (key_kind k))),
      (''models'', JArr (map JStr (key_models k))), (''budget_usd'', null_or budget_json (key_budget k)),
      (''status'', JStr (key_status_text (key_status k))), (''root_key_id'', null_or uuid_json (key_root k)),
      (''expires_at'', null_or date_json (key_expires_at k)), (''created_at'', date_json (key_created_at k)),
      (''created_by'', null_or JStr (key_created_by k))]"

definition key_detail_row :: "key_row \<times> string \<Rightarrow> json" where
  "key_detail_row = (\<lambda>(k, org). JObj
     [(''id'', uuid_json (key_id k)), (''team_id'', uuid_json (key_team k)), (''kamuid_org_id'', JStr org),
      (''label'', JStr (key_label k)), (''prefix'', null_or JStr (key_prefix k)), (''key_type'', JStr (kind_text (key_kind k))),
      (''models'', JArr (map JStr (key_models k))), (''budget_usd'', null_or budget_json (key_budget k)),
      (''status'', JStr (key_status_text (key_status k))),
      (''parent_key_id'', null_or uuid_json (key_parent k)), (''root_key_id'', null_or uuid_json (key_root k)),
      (''metadata'', or_else (key_metadata k) JNull), (''constraints'', or_else (key_constraints k) JNull),
      (''expires_at'', null_or date_json (key_expires_at k)), (''created_at'', date_json (key_created_at k)),
      (''updated_at'', date_json (key_updated_at k)), (''revoked_at'', null_or date_json (key_revoked_at k)),
      (''created_by'', null_or JStr (key_created_by k)), (''revoked_by'', null_or JStr (key_revoked_by k))])"

definition derived_key_row :: "key_row \<Rightarrow> json" where
  "derived_key_row k = JObj
     [(''id'', uuid_json (key_id k)), (''team_id'', uuid_json (key_team k)), (''label'', JStr (key_label k)),
      (''key_type'', JStr (kind_text (key_kind k))), (''models'', JArr (map JStr (key_models k))),
      (''budget_usd'', null_or budget_json (key_budget k)), (''status'', JStr (key_status_text (key_status k))),
      (''parent_key_id'', null_or uuid_json (key_parent k)), (''root_key_id'', null_or uuid_json (key_root k)),
      (''metadata'', or_else (key_metadata k) JNull), (''expires_at'', null_or date_json (key_expires_at k)),
      (''created_at'', date_json (key_created_at k))]"

section \<open>Errors\<close>

fun keys_thrown :: "(keys_error \<Rightarrow> string) \<Rightarrow> nat \<Rightarrow> keys_error \<Rightarrow> thrown" where
  "keys_thrown raised st Team_id_required = Http_exception st ''team_id is required''"
| "keys_thrown raised st Label_required = Http_exception st ''label is required''"
| "keys_thrown raised st Models_not_strings = Http_exception st ''models must be a string array''"
| "keys_thrown raised st Team_not_found = Http_exception st ''team not found''"
| "keys_thrown raised st Key_not_found = Http_exception st ''Key not found''"
| "keys_thrown raised st (Not_granted Authorization_required) = Http_exception st ''platform authorization required''"
| "keys_thrown raised st (Not_granted (Missing_grant p)) = Http_exception st (''missing grant: '' @ p)"
| "keys_thrown raised st (Not_granted (Resolve_failed e)) = keys_thrown raised st e"
| "keys_thrown raised st e = Error_value (raised e)"

definition keys_reply :: "(keys_error \<Rightarrow> string) \<Rightarrow> ('a \<Rightarrow> json) \<Rightarrow> (keys_error, 'a) reply \<Rightarrow> nat \<times> json" where
  "keys_reply raised body r =
     (case r of Answer st x \<Rightarrow> (st, body x) | Failure st e \<Rightarrow> on_error (keys_thrown raised st e))"

text \<open>The derive route returns its errors itself; two of them carry a second field.\<close>

definition error_json :: "string \<Rightarrow> (string \<times> json) list \<Rightarrow> json" where
  "error_json msg fs = JObj ((''error'', JStr msg) # fs)"

definition derive_error_reply ::
  "derive_env \<Rightarrow> (derive_error \<Rightarrow> string) \<Rightarrow> pg_time option \<Rightarrow> nat \<Rightarrow> derive_error \<Rightarrow> nat \<times> json" where
  "derive_error_reply e raised parent_expires st x =
     (case x of
        No_token \<Rightarrow> (st, error_json ''Unauthorized'' [])
      | Not_top_level \<Rightarrow> (st, error_json ''derive requires a top-level sk_live_ key'' [])
      | Unknown_parent \<Rightarrow> (st, error_json ''Unauthorized'' [])
      | Cannot_mint \<Rightarrow> (st, error_json ''key cannot mint sub-keys'' [])
      | Bad_models \<Rightarrow> (st, error_json ''models must be a non-empty string array'' [])
      | Models_not_enclosed \<Rightarrow> (st, error_json ''child models must be a subset of the parent's models'' [])
      | Bad_ttl \<Rightarrow> (st, error_json ''expires_in_seconds must be a positive number'' [])
      | Ttl_over_maximum \<Rightarrow> (st, error_json ''expires_in_seconds exceeds the maximum sub-key TTL''
          [(''max_ttl_seconds'', int_json (max_ttl e))])
      | Outlives_parent \<Rightarrow> (st, error_json ''child expires_at cannot exceed the parent's remaining TTL''
          [(''parent_expires_at'', null_or date_json parent_expires)])
      | Rate_limited \<Rightarrow> (st, error_json ''derive rate limit exceeded for this parent'' [])
      | Too_many_active \<Rightarrow> (st, error_json ''too many active children for this parent'' [])
      | _ \<Rightarrow> on_error (Error_value (raised x)))"

section \<open>The answers\<close>

definition keys_list_reply :: "(key_row \<Rightarrow> int) \<Rightarrow> db \<Rightarrow> string \<Rightarrow> nat \<times> json" where
  "keys_list_reply rank d uid = (200, JObj [(''keys'', JArr (map key_list_row (list_keys rank d uid)))])"

definition create_reply :: "(keys_error \<Rightarrow> string) \<Rightarrow> (keys_error, key_row \<times> string) reply \<Rightarrow> nat \<times> json" where
  "create_reply raised =
     keys_reply raised (\<lambda>(k, secret). JObj [(''key'', key_create_row k), (''secret'', JStr secret)])"

text \<open>The cost is the text of the sum, \<open>0\<close> when nothing has a cost.\<close>

definition detail_reply :: "(keys_error \<Rightarrow> string) \<Rightarrow> db \<Rightarrow> string \<Rightarrow> string \<Rightarrow> nat \<times> json" where
  "detail_reply raised d uid id_text =
     keys_reply raised
       (\<lambda>(row, t). JObj [(''key'', key_detail_row row), (''usage'', JObj
          [(''total_cost_usd'', JStr (cost_text (filter (of_subtree (key_id (fst row))) (visible_usage d uid)))),
           (''total_tokens_in'', int_json (total_tokens_in t)), (''total_tokens_out'', int_json (total_tokens_out t)),
           (''request_count'', int_json (total_requests t))])])
       (key_detail d uid id_text)"

definition revoke_reply :: "(keys_error \<Rightarrow> string) \<Rightarrow> (keys_error, nat) reply \<Rightarrow> nat \<times> json" where
  "revoke_reply raised = keys_reply raised (\<lambda>n. JObj [(''ok'', JBool True), (''revoked'', int_json (int n))])"

definition derive_reply ::
  "derive_env \<Rightarrow> (bytes \<Rightarrow> bytes) \<Rightarrow> (derive_error \<Rightarrow> string) \<Rightarrow> db \<Rightarrow> string option \<Rightarrow>
     (derive_error, key_row \<times> string) reply \<Rightarrow> nat \<times> json" where
  "derive_reply e sha256 raised d authorization r =
     (case r of
        Answer st (k, token) \<Rightarrow> (st, JObj [(''key'', derived_key_row k), (''sub_key'', JStr token)])
      | Failure st x \<Rightarrow>
          derive_error_reply e raised
            (case derive_parent sha256 d authorization of Inr p \<Rightarrow> key_expires_at p | Inl _ \<Rightarrow> None) st x)"

section \<open>What the answers do not say\<close>

text \<open>A row without its hash.  What a user may read of a key is a function of this.\<close>

definition without_hash :: "key_row \<Rightarrow> key_row" where
  "without_hash k = k\<lparr>key_hash := None\<rparr>"

lemma without_hash_simps [simp]:
  "key_list_row (without_hash k, org) = key_list_row (k, org)"
  "key_create_row (without_hash k) = key_create_row k"
  "key_detail_row (without_hash k, org) = key_detail_row (k, org)"
  "derived_key_row (without_hash k) = derived_key_row k"
  "key_id (without_hash k) = key_id k" "key_team (without_hash k) = key_team k"
  "key_created_at (without_hash k) = key_created_at k"
  by (simp_all add: without_hash_def key_list_row_def key_create_row_def key_detail_row_def derived_key_row_def)

end
