(* ===== verification/Tenant_Views.thy ===== *)
theory Tenant_Views
  imports Budget_Writes Key_Replies Teams_Route
begin

text \<open>
  What a user can learn from the api.  The reads of \<open>routes/keys.ts\<close>, \<open>routes/teams.ts\<close> and the
  dashboard part of \<open>routes/usage.ts\<close> as one function of the database, with the bodies they
  answer; the part of the database a user's policies show; and the transactions that concern
  other teams only, each of which leaves that part alone.
\<close>

section \<open>The reads\<close>

definition team_json :: "team_row \<Rightarrow> json" where
  "team_json t = JObj [(''id'', uuid_json (team_id t)), (''kamuid_org_id'', JStr (kamuid_org_id t)),
     (''name'', JStr (team_name t)), (''slug'', JStr (team_slug t))]"

definition group_fields :: "usage_group \<Rightarrow> (string \<times> json) list" where
  "group_fields g =
     [(''cost_usd'', JStr (ug_cost_usd g)), (''tokens_in'', int_json (ug_tokens_in g)),
      (''tokens_out'', int_json (ug_tokens_out g)), (''request_count'', int_json (ug_requests g))]"

definition breakdown_json :: "breakdown_row \<Rightarrow> json" where
  "breakdown_json = (\<lambda>((day, k, m), g).
     JObj ([(''day'', JStr day), (''key_id'', uuid_json k), (''model'', null_or JStr m)] @ group_fields g))"

definition key_totals_json :: "uuid \<times> usage_group \<Rightarrow> json" where
  "key_totals_json = (\<lambda>(k, g). JObj ((''key_id'', uuid_json k) # group_fields g))"

definition facets_json :: "uuid list \<times> string list \<Rightarrow> json" where
  "facets_json = (\<lambda>(ks, ms). JObj [(''keys'', JArr (map uuid_json ks)), (''models'', JArr (map JStr ms))])"

datatype user_request =
    Read_keys
  | Read_key string
  | Read_teams
  | Read_usage usage_filters
  | Read_totals usage_filters
  | Read_facets

text \<open>The server's collation and order of ties, and the texts of the errors it raises.\<close>

record read_env =
  rd_server :: usage_server
  rd_key_rank :: "key_row \<Rightarrow> int"
  rd_team_rank :: "team_row \<Rightarrow> int"
  rd_raised :: "keys_error \<Rightarrow> string"
  rd_sql_text :: string

definition rows_reply :: "read_env \<Rightarrow> string \<Rightarrow> ('a \<Rightarrow> json) \<Rightarrow> (unit, 'a list) reply \<Rightarrow> nat \<times> json" where
  "rows_reply env name f r =
     (case r of Answer st rows \<Rightarrow> (st, JObj [(name, JArr (map f rows))])
      | Failure _ _ \<Rightarrow> on_error (Error_value (rd_sql_text env)))"

fun user_read :: "read_env \<Rightarrow> db \<Rightarrow> string \<Rightarrow> user_request \<Rightarrow> nat \<times> json" where
  "user_read env d uid Read_keys = keys_list_reply (rd_key_rank env) d uid"
| "user_read env d uid (Read_key id_text) = detail_reply (rd_raised env) d uid id_text"
| "user_read env d uid Read_teams =
     (200, JObj [(''teams'', JArr (map team_json (get_teams (us_collate (rd_server env)) (rd_team_rank env) d uid)))])"
| "user_read env d uid (Read_usage q) = rows_reply env ''usage'' breakdown_json (usage_breakdown (rd_server env) d uid q)"
| "user_read env d uid (Read_totals q) = rows_reply env ''totals'' key_totals_json (usage_totals_per_key (rd_server env) d uid q)"
| "user_read env d uid Read_facets = (200, facets_json (usage_facets (rd_server env) d uid))"

section \<open>The view of a user\<close>

definition same_view :: "string \<Rightarrow> db \<Rightarrow> db \<Rightarrow> bool" where
  "same_view uid d d' \<longleftrightarrow>
     user_teams d' uid = user_teams d uid \<and> visible_teams d' uid = visible_teams d uid \<and>
     map without_hash (visible_keys d' uid) = map without_hash (visible_keys d uid) \<and>
     visible_usage d' uid = visible_usage d uid"

lemma same_view_refl [simp]: "same_view uid d d"
  by (simp add: same_view_def)

lemma same_view_trans: "same_view uid a b \<Longrightarrow> same_view uid b c \<Longrightarrow> same_view uid a c"
  by (simp add: same_view_def)

text \<open>Rows that compare equal may come in any order, but not in one that the hashes decide.\<close>

definition blind_to_hashes :: "(key_row \<Rightarrow> int) \<Rightarrow> bool" where
  "blind_to_hashes rank \<longleftrightarrow> (\<forall>k. rank (without_hash k) = rank k)"

lemma sort_key_map: "sort_key f (map g xs) = map g (sort_key (\<lambda>x. f (g x)) xs)"
proof -
  have "insort_key f (g x) (map g ys) = map g (insort_key (\<lambda>x. f (g x)) x ys)" for x ys
    by (induction ys) auto
  then show ?thesis by (induction xs) simp_all
qed

lemma list_keys_without_hash:
  assumes "blind_to_hashes rank"
  shows "map (map_prod without_hash id) (list_keys rank d uid) =
    concat (map (\<lambda>k. map (\<lambda>t. (k, kamuid_org_id t)) (filter (\<lambda>t. team_id t = key_team k) (visible_teams d uid)))
      (sort_key (\<lambda>k. - key_created_at k) (sort_key rank (map without_hash (visible_keys d uid)))))"
  using assms by (simp add: list_keys_def sort_key_map map_concat comp_def blind_to_hashes_def)

lemma same_view_list_keys:
  assumes "same_view uid d d'" "blind_to_hashes rank"
  shows "map (map_prod without_hash id) (list_keys rank d' uid) = map (map_prod without_hash id) (list_keys rank d uid)"
  unfolding list_keys_without_hash[OF assms(2)] using assms(1) by (simp add: same_view_def)

lemma rows_without_hash:
  "key_list_row (map_prod without_hash id r) = key_list_row r" "key_detail_row (map_prod without_hash id r) = key_detail_row r"
  "key_id (fst (map_prod without_hash id r)) = key_id (fst r)"
  by (cases r; simp)+

lemma same_view_detail:
  assumes "same_view uid d d'"
  shows "detail_reply raised d' uid t = detail_reply raised d uid t"
proof (cases "pg_uuid t")
  case (Some i)
  let ?P = "\<lambda>r. key_id (fst r) = i"
  have rank: "blind_to_hashes (\<lambda>_. 0)" by (simp add: blind_to_hashes_def)
  have "map_option (map_prod without_hash id) (find ?P (list_keys (\<lambda>_. 0) e uid)) =
      find ?P (map (map_prod without_hash id) (list_keys (\<lambda>_. 0) e uid))" for e
    by (rule find_map_same[symmetric]) (simp add: rows_without_hash)
  then have row: "map_option (map_prod without_hash id) (find ?P (list_keys (\<lambda>_. 0) d' uid)) =
      map_option (map_prod without_hash id) (find ?P (list_keys (\<lambda>_. 0) d uid))"
    using same_view_list_keys[OF assms rank] by simp
  have usage: "visible_usage d' uid = visible_usage d uid" using assms by (simp add: same_view_def)
  show ?thesis
  proof (cases "find ?P (list_keys (\<lambda>_. 0) d uid)")
    case None
    then have "find ?P (list_keys (\<lambda>_. 0) d' uid) = None" using row by simp
    then show ?thesis using None by (simp add: detail_reply_def key_detail_def keys_reply_def Some)
  next
    case found: (Some r)
    then obtain r' where r': "find ?P (list_keys (\<lambda>_. 0) d' uid) = Some r'"
      "map_prod without_hash id r' = map_prod without_hash id r" using row by auto
    then have "key_detail_row r' = key_detail_row r" "key_id (fst r') = key_id (fst r)"
      by (metis rows_without_hash(2), metis rows_without_hash(3))
    then show ?thesis using found r'(1) usage by (simp add: detail_reply_def key_detail_def keys_reply_def Some Let_def)
  qed
qed (simp add: detail_reply_def key_detail_def keys_reply_def)

lemma same_view_read:
  assumes "same_view uid d d'" "blind_to_hashes (rd_key_rank env)"
  shows "user_read env d' uid rq = user_read env d uid rq"
proof -
  have teams: "visible_teams d' uid = visible_teams d uid" and usage: "visible_usage d' uid = visible_usage d uid"
    using assms(1) by (simp_all add: same_view_def)
  have breakdown: "usage_breakdown sv d' uid q = usage_breakdown sv d uid q" for sv q
    unfolding usage_breakdown_def usage ..
  have totals: "usage_totals_per_key sv d' uid q = usage_totals_per_key sv d uid q" for sv q
    unfolding usage_totals_per_key_def usage ..
  show ?thesis
  proof (cases rq)
    case Read_keys
    have "map key_list_row rs = map key_list_row (map (map_prod without_hash id) rs)" for rs
      by (simp add: rows_without_hash)
    then have "map key_list_row (list_keys (rd_key_rank env) d' uid) = map key_list_row (list_keys (rd_key_rank env) d uid)"
      using same_view_list_keys[OF assms] by metis
    then show ?thesis using Read_keys by (simp add: keys_list_reply_def)
  next
    case (Read_key t)
    then show ?thesis using same_view_detail[OF assms(1)] by simp
  next
    case Read_teams
    then show ?thesis using teams by (simp add: get_teams_def)
  next
    case (Read_usage q)
    then show ?thesis using breakdown by simp
  next
    case (Read_totals q)
    then show ?thesis using totals by simp
  next
    case Read_facets
    then show ?thesis using usage by (simp add: usage_facets_def)
  qed
qed

section \<open>Transactions of other teams\<close>

abbreviation foreign :: "string \<Rightarrow> db \<Rightarrow> uuid \<Rightarrow> bool" where
  "foreign uid d team \<equiv> team \<notin> set (user_teams d uid)"

text \<open>Writes that touch no key of the user's teams.\<close>

definition foreign_keys :: "string \<Rightarrow> db \<Rightarrow> (key_row \<Rightarrow> bool) \<Rightarrow> bool" where
  "foreign_keys uid d P \<longleftrightarrow> (\<forall>k\<in>set (db_keys d). P k \<longrightarrow> foreign uid d (key_team k))"

inductive foreign_step :: "string \<Rightarrow> db \<Rightarrow> db \<Rightarrow> bool" for uid where
  mints: "create_insert dr sha256 random i now who d body = (Answer st (k, s), d') \<Longrightarrow> \<not> key_exists d i \<Longrightarrow>
    foreign uid d (key_team k) \<Longrightarrow> foreign_step uid d d'"
| roots: "foreign_keys uid d (\<lambda>k. key_id k = i) \<Longrightarrow> top_only d i \<Longrightarrow> foreign_step uid d (set_root now i d)"
| derives: "derive_tx e dr i now p rq d = (out, d') \<Longrightarrow> read_earlier d p \<Longrightarrow> \<not> key_exists d i \<Longrightarrow>
    foreign uid d (key_team p) \<Longrightarrow> foreign_step uid d d'"
| revokes: "revoke_key now who d id_text = (Answer st n, d') \<Longrightarrow> pg_uuid id_text = Some i \<Longrightarrow>
    foreign_keys uid d (\<lambda>k. key_id k = i) \<Longrightarrow> foreign_step uid d d'"
| admin_mints: "admin_insert_key sha256 random i now a d (Some t) label budget = Some (g, d') \<Longrightarrow> \<not> key_exists d i \<Longrightarrow>
    foreign uid d t \<Longrightarrow> foreign_step uid d d'"
| admin_roots: "foreign_keys uid d (\<lambda>k. key_id k = i) \<Longrightarrow> top_only d i \<Longrightarrow> foreign_step uid d (admin_set_root now i d)"
| ingests: "page_tx now d rows = Some (n, d') \<Longrightarrow>
    foreign_keys uid d (\<lambda>k. \<exists>u\<in>set rows. key_id k \<in> set (charge_keys u)) \<Longrightarrow> foreign_step uid d d'"
| writes_budgets: "foreign_keys uid d P \<Longrightarrow> foreign_step uid d (set_budgets P b d)"
| prices: "insert_price dr m whom p d = Some (row, d') \<Longrightarrow> foreign_step uid d d'"
| settings: "post_settings now a d form = (reply, d') \<Longrightarrow> foreign_step uid d d'"

text \<open>The three shapes of a change that the view does not see.\<close>

lemma view_frame:
  assumes "db_members d' = db_members d" "db_teams d' = db_teams d" "visible_keys d' uid = visible_keys d uid"
    and "visible_usage d' uid = visible_usage d uid"
  shows "same_view uid d d'"
  using assms by (simp add: same_view_def visible_teams_def user_teams_def)

lemma filter_map_outside: "(\<And>x. x \<in> set xs \<Longrightarrow> g x = x \<or> \<not> Q x \<and> \<not> Q (g x)) \<Longrightarrow> filter Q (map g xs) = filter Q xs"
proof (induction xs)
  case (Cons x xs)
  then have "filter Q (map g xs) = filter Q xs" by simp
  then show ?case using Cons.prems[of x] by auto
qed simp

lemma view_map:
  assumes frame: "db_members d' = db_members d" "db_teams d' = db_teams d"
    and keys: "db_keys d' = map g (db_keys d)" and g: "\<And>k. key_team (g k) = key_team k"
    and out: "\<And>k. k \<in> set (db_keys d) \<Longrightarrow> g k = k \<or> foreign uid d (key_team k)"
  shows "user_teams d' uid = user_teams d uid" "visible_keys d' uid = visible_keys d uid"
proof -
  show teams: "user_teams d' uid = user_teams d uid" using frame by (simp add: user_teams_def)
  show "visible_keys d' uid = visible_keys d uid"
    unfolding visible_keys_def teams keys by (rule filter_map_outside) (use out g in auto)
qed

lemma view_update:
  assumes "\<And>k. key_team (f k) = key_team k" "foreign_keys uid d P"
  shows "same_view uid d (update_keys P f d)"
proof -
  have keys: "visible_keys (update_keys P f d) uid = visible_keys d uid"
    by (rule view_map(2)[where g = "\<lambda>k. if P k then f k else k"])
      (use assms in \<open>auto simp: update_keys_def foreign_keys_def\<close>)
  then show ?thesis by (intro view_frame) (simp_all add: frame_simps visible_usage_def user_keys_def)
qed

lemma view_insert:
  assumes "foreign uid d (key_team k)"
  shows "same_view uid d (insert_key d k)"
proof -
  have "visible_keys (insert_key d k) uid = visible_keys d uid"
    using assms by (simp add: visible_keys_def insert_key_def user_teams_def)
  then show ?thesis by (intro view_frame) (simp_all add: frame_simps visible_usage_def user_keys_def)
qed

lemma view_page:
  assumes tx: "page_tx now d rows = Some (n, d')"
    and out: "foreign_keys uid d (\<lambda>k. \<exists>u\<in>set rows. key_id k \<in> set (charge_keys u))"
  shows "same_view uid d d'"
proof -
  define ins where "ins = fst (insert_rows (db_usage d) (filter (\<lambda>u. key_exists d (ul_key_id u)) rows))"
  have sub: "set ins \<subseteq> set rows"
    using insert_rows_subset[of "db_usage d" "filter (\<lambda>u. key_exists d (ul_key_id u)) rows"] by (auto simp: ins_def)
  have charged: "foreign uid d (key_team k)" if k: "k \<in> set (db_keys d)" and c: "charges ins (key_id k) \<noteq> []" for k
  proof -
    obtain u where "u \<in> set ins" "key_id k \<in> set (charge_keys u)"
      using c by (auto simp: charges_def billed_def filter_empty_conv)
    then show ?thesis using out k sub by (auto simp: foreign_keys_def)
  qed
  have keys: "visible_keys d' uid = visible_keys d uid"
    by (rule view_map(2)[OF _ _ page_tx_keys[OF tx, folded ins_def]]) (use charged page_tx_teams[OF tx] in auto)
  have "ul_key_id u \<notin> set (user_keys d uid)" if "u \<in> set ins" for u
  proof
    assume "ul_key_id u \<in> set (user_keys d uid)"
    then obtain k where k: "k \<in> set (db_keys d)" "key_team k \<in> set (user_teams d uid)" "ul_key_id u = key_id k"
      by (auto simp: user_keys_def visible_keys_iff)
    then have "key_id k \<in> set (charge_keys u)" by (simp add: charge_keys_def)
    then show False using out k(1,2) that sub by (auto simp: foreign_keys_def)
  qed
  then have "visible_usage d' uid = visible_usage d uid"
    using keys by (simp add: visible_usage_def user_keys_def page_tx_Some(2)[OF tx, folded ins_def] filter_empty_conv)
  then show ?thesis using keys page_tx_teams[OF tx] by (intro view_frame) simp_all
qed

text \<open>Every foreign step has one of the shapes, and keeps the lineage.\<close>

lemma subtree_foreign:
  assumes "keys_ok d" "foreign_keys uid d (\<lambda>k. key_id k = i)"
  shows "foreign_keys uid d (in_subtree i)"
  unfolding foreign_keys_def
proof (intro ballI impI)
  fix k assume k: "k \<in> set (db_keys d)" "in_subtree i k"
  then consider "key_id k = i" | "key_root k = Some i" by (auto simp: in_subtree_def)
  then show "foreign uid d (key_team k)"
  proof cases
    case 2
    have "\<exists>p\<in>set (db_keys d). key_id p = i \<and> key_team k = key_team p"
      using keys_okD(2,3)[OF assms(1) k(1)] 2 k(1) by (cases "key_kind k") (auto simp: top_ok_def derived_ok_def)
    then show ?thesis using assms(2) by (auto simp: foreign_keys_def)
  qed (use assms(2) k(1) in \<open>simp add: foreign_keys_def\<close>)
qed

lemma set_root_view:
  assumes "foreign_keys uid d (\<lambda>k. key_id k = i)" "top_only d i" "keys_ok d"
  shows "same_view uid d (set_root now i d) \<and> keys_ok (set_root now i d)"
  using view_update[OF _ assms(1)] keys_ok_set_root[OF assms(3)] assms(2) by (simp add: set_root_def top_only_def)

lemma foreign_step_view:
  assumes "foreign_step uid d d'" "keys_ok d"
  shows "same_view uid d d' \<and> keys_ok d'"
  using assms(1)
proof cases
  case (mints dr sha256 random i now who body st k s)
  then show ?thesis
    using create_insert_Answer(12)[OF mints(1)] create_insert_ok[OF mints(1) assms(2) mints(2)] view_insert by simp
next
  case (roots i now)
  then show ?thesis using set_root_view[OF roots(2,3) assms(2)] by simp
next
  case (admin_roots i now)
  then show ?thesis using set_root_view[OF admin_roots(2,3) assms(2)] by (simp add: admin_set_root_same)
next
  case (derives e dr i now p rq out)
  have ok: "keys_ok d'" using derive_tx_insert[OF derives(1,2) assms(2) derives(3)] assms(2) by auto
  show ?thesis
  proof (cases out)
    case (Inr k)
    note tx = derives(1)[unfolded Inr]
    have "d' = insert_key d k" "key_team k = key_team p"
      using derive_tx_Inr(2)[OF tx] child_row_Some(2)[OF derive_tx_Inr(1)[OF tx]] by simp_all
    then show ?thesis using view_insert[of k d uid] derives(4) ok by simp
  qed (use derives(1) derive_tx_Inl ok same_view_refl in metis)
next
  case (revokes now who id_text st n i)
  have "d' = update_keys (in_subtree i) (revoked_row now who) d"
    using revoke_key_Answer[OF revokes(1)] revokes(2) unfolding revoked_row_def by (metis option.inject)
  moreover have "same_view uid d (update_keys (in_subtree i) (revoked_row now who) d)"
    by (rule view_update[OF _ subtree_foreign[OF assms(2) revokes(3)]]) (simp add: revoked_row_def)
  ultimately show ?thesis using revoke_key_ok[OF revokes(1) assms(2)] by simp
next
  case (admin_mints sha256 random i now a t label budget g)
  obtain k where "d' = insert_key d k" "key_team k = t"
    using admin_insert_key_Some[OF admin_mints(1)] by auto
  then show ?thesis using admin_insert_key_ok[OF admin_mints(1) assms(2) admin_mints(2)] view_insert admin_mints(3) by simp
next
  case (ingests now rows n)
  then show ?thesis using view_page[OF ingests] page_tx_keys_ok[OF ingests(1) assms(2)] by simp
next
  case (writes_budgets P b)
  have "keeps_lineage k (on_budget_update d k (k\<lparr>key_budget := b k\<rparr>))" for k by (simp add: on_budget_update_eq keeps_lineage_def)
  then show ?thesis
    using view_update[OF _ writes_budgets(2)] keys_ok_update[OF assms(2)] unfolding writes_budgets(1) set_budgets_def
    by (simp add: keeps_lineage_def)
next
  case (prices dr m whom p row)
  then have "db_members d' = db_members d" "db_teams d' = db_teams d" "db_keys d' = db_keys d" "db_usage d' = db_usage d"
    by (auto simp: insert_price_def Let_def split: option.splits)
  then show ?thesis using keys_ok_frame[OF assms(2)] view_frame[of d' d uid]
    by (simp add: visible_keys_def visible_usage_def user_keys_def user_teams_def)
next
  case (settings now a form reply)
  then have "db_members d' = db_members d" "db_teams d' = db_teams d" "db_keys d' = db_keys d" "db_usage d' = db_usage d"
    by (auto simp: post_settings_def split: option.splits)
  then show ?thesis using keys_ok_frame[OF assms(2)] view_frame[of d' d uid]
    by (simp add: visible_keys_def visible_usage_def user_keys_def user_teams_def)
qed

interpretation elsewhere: step_system "foreign_step uid" keys_ok for uid
  by unfold_locales (use foreign_step_view in blast)

lemma foreign_run_view:
  assumes "(foreign_step uid)\<^sup>*\<^sup>* d d'" "keys_ok d"
  shows "same_view uid d d'"
  by (rule elsewhere.run_rel[OF assms]) (auto intro: same_view_trans dest: foreign_step_view)

text \<open>Databases that differ in the stored hashes only.\<close>

definition same_but_hashes :: "db \<Rightarrow> db \<Rightarrow> bool" where
  "same_but_hashes d d' \<longleftrightarrow>
     (\<exists>ks. map without_hash ks = map without_hash (db_keys d) \<and> d' = d\<lparr>db_keys := ks\<rparr>)"

lemma same_but_hashes_view:
  assumes "same_but_hashes d d'"
  shows "same_view uid d d'"
proof -
  obtain ks where ks: "map without_hash ks = map without_hash (db_keys d)" "d' = d\<lparr>db_keys := ks\<rparr>"
    using assms by (auto simp: same_but_hashes_def)
  have teams: "user_teams d' uid = user_teams d uid" by (simp add: ks(2) user_teams_def)
  have "map without_hash (filter (\<lambda>k. key_team k \<in> T) xs) = filter (\<lambda>k. key_team k \<in> T) (map without_hash xs)" for T xs
    by (induction xs) simp_all
  then have keys: "map without_hash (visible_keys d' uid) = map without_hash (visible_keys d uid)"
    unfolding visible_keys_def teams using ks by simp
  then have "map key_id (visible_keys d' uid) = map key_id (visible_keys d uid)"
    by (metis (no_types, lifting) list.map_comp comp_def list.map_cong0 without_hash_simps(5))
  then show ?thesis
    using keys teams by (simp add: same_view_def visible_teams_def visible_usage_def user_keys_def) (simp add: ks(2))
qed

end
