(* ===== verification/Claims_Tenants.thy ===== *)
theory Claims_Tenants
  imports Tenant_Views Claims_Keys
begin

text \<open>
  What a user of the api can learn: nothing of what other teams do, and nothing of the hashes
  that the keys are checked against.
\<close>

section \<open>Other teams\<close>

text \<open>Property C3.  Tenants are isolated: whatever other teams mint (statement by statement), derive, revoke and spend, and
  whatever is written to the budgets of their keys, to prices and to settings meanwhile, every read
  of a user (keys, key detail, teams, usage, totals, facets) answers the same.\<close>

theorem tenant_isolation:
  assumes "(foreign_step uid)\<^sup>*\<^sup>* d d'" "keys_ok d" "blind_to_hashes (rd_key_rank env)"
  shows "user_read env d' uid rq = user_read env d uid rq"
  by (rule same_view_read[OF foreign_run_view[OF assms(1,2)] assms(3)])

definition ex_two_db :: db where
  "ex_two_db = ex_db\<lparr>
     db_teams := db_teams ex_db @ [\<lparr>team_id = 2, kamuid_org_id = ''org2'', team_name = ''Two'', team_slug = ''two'', team_updated_at = 0\<rparr>],
     db_members := db_members ex_db @ [\<lparr>member_team = 2, member_user = ''v'', member_role = Owner\<rparr>]\<rparr>"

definition ex_read_env :: read_env where
  "ex_read_env = \<lparr>rd_server = \<lparr>us_time = (\<lambda>_. None), us_day = (\<lambda>_. []), us_collate = (\<lambda>_. 0)\<rparr>,
     rd_key_rank = (\<lambda>_. 0), rd_team_rank = (\<lambda>_. 0), rd_raised = (\<lambda>_. []), rd_sql_text = []\<rparr>"

lemma ex_blind: "blind_to_hashes (rd_key_rank ex_read_env)"
  by (simp add: blind_to_hashes_def ex_read_env_def)

lemma ex_revoked_elsewhere:
  assumes "revoke_key 9 ''u'' ex_two_db (uuid_text 7) = (Answer 200 1, d')"
  shows "(foreign_step ''v'')\<^sup>*\<^sup>* ex_two_db d'"
proof -
  have "foreign_keys ''v'' ex_two_db (\<lambda>k. key_id k = 7)"
    by (simp add: foreign_keys_def user_teams_def ex_two_db_def ex_db_def ex_top_def)
  then show ?thesis using foreign_step.revokes[OF assms pg_uuid_uuid_text] by blast
qed

text \<open>One team revokes its key: the members of the other see the same as before.\<close>

theorem tenant_isolation_witness:
  "\<exists>d'. revoke_key 9 ''u'' ex_two_db (uuid_text 7) = (Answer 200 1, d') \<and>
     user_read ex_read_env d' ''v'' Read_teams = user_read ex_read_env ex_two_db ''v'' Read_teams \<and>
     user_read ex_read_env d' ''v'' (Read_key (uuid_text 7)) = user_read ex_read_env ex_two_db ''v'' (Read_key (uuid_text 7))"
proof -
  obtain d' where d': "revoke_key 9 ''u'' ex_two_db (uuid_text 7) = (Answer 200 1, d')"
    by (simp add: revoke_key_def pg_uuid_uuid_text visible_keys_def user_teams_def in_subtree_def ex_top_def ex_db_def ex_two_db_def)
  have ok: "keys_ok ex_two_db" using keys_ok_frame[OF ex_keys_ok, of ex_two_db] by (simp add: ex_two_db_def)
  show ?thesis using d' tenant_isolation[OF ex_revoked_elsewhere[OF d'] ok ex_blind] by blast
qed

section \<open>Hashes\<close>

lemma same_hashes_revoke:
  assumes "same_but_hashes d d'"
  shows "fst (revoke_key now user d' t) = fst (revoke_key now user d t)"
proof (cases "pg_uuid t")
  case (Some i)
  obtain ks where ks: "map without_hash ks = map without_hash (db_keys d)" "d' = d\<lparr>db_keys := ks\<rparr>"
    using assms by (auto simp: same_but_hashes_def)
  have sub: "length (filter (in_subtree i) xs) = length (filter (in_subtree i) (map without_hash xs))" for xs
  proof (induction xs)
    case (Cons x xs)
    have "in_subtree i (without_hash x) = in_subtree i x" by (simp add: in_subtree_def without_hash_def)
    then show ?case using Cons by simp
  qed simp
  have n: "length (filter (in_subtree i) (db_keys d')) = length (filter (in_subtree i) (db_keys d))"
    using sub[of ks] sub[of "db_keys d"] ks by simp
  have found: "find (\<lambda>k. key_id k = i) xs = None \<longleftrightarrow> i \<notin> set (map key_id (map without_hash xs))" for xs
    by (auto simp: find_None_iff)
  have "find (\<lambda>k. key_id k = i) (visible_keys d' user) = None \<longleftrightarrow> find (\<lambda>k. key_id k = i) (visible_keys d user) = None"
    unfolding found using same_but_hashes_view[OF assms, of user] by (simp only: same_view_def)
  then show ?thesis using n by (simp add: revoke_key_def Some Let_def)
qed (simp add: revoke_key_def)

text \<open>Property C10.  The stored hashes never leave the database: two databases that differ in nothing but
  the hashes of their keys give the same answers to every read of every user, to a mint, whether
  its second statement fails or not, and to a revocation.\<close>

theorem answers_hide_hashes:
  assumes "same_but_hashes d d'" "blind_to_hashes (rd_key_rank env)"
  shows "user_read env d' uid rq = user_read env d uid rq \<and>
    create_reply raised (fst (create_key dr sha256 random i now second uid d' body)) =
      create_reply raised (fst (create_key dr sha256 random i now second uid d body)) \<and>
    revoke_reply raised (fst (revoke_key now uid d' t)) = revoke_reply raised (fst (revoke_key now uid d t))"
proof -
  obtain ks where d': "d' = d\<lparr>db_keys := ks\<rparr>" using assms by (auto simp: same_but_hashes_def)
  have "find_team d' = find_team d" "may_insert_key d' uid = may_insert_key d uid"
    by (simp_all add: d' fun_eq_iff find_team_def may_insert_key_def user_teams_def)
  then have "fst (create_insert dr sha256 random i now uid d' body) = fst (create_insert dr sha256 random i now uid d body)"
    by (simp add: create_insert_def Let_def split: option.split sum.split)
  then have "fst (create_key dr sha256 random i now second uid d' body) = fst (create_key dr sha256 random i now second uid d body)"
    by (cases "create_insert dr sha256 random i now uid d' body"; cases "create_insert dr sha256 random i now uid d body")
      (simp add: create_key_def split: reply.split option.split prod.split)
  then show ?thesis
    using same_view_read[OF same_but_hashes_view[OF assms(1)] assms(2)] same_hashes_revoke[OF assms(1)] by simp
qed

definition ex_rehashed_db :: db where
  "ex_rehashed_db = ex_db\<lparr>db_keys := [ex_top\<lparr>key_hash := None\<rparr>]\<rparr>"

lemma ex_same_but_hashes: "same_but_hashes ex_db ex_rehashed_db"
  unfolding same_but_hashes_def
  by (intro exI[of _ "[ex_top\<lparr>key_hash := None\<rparr>]"]) (simp add: ex_rehashed_db_def ex_db_def without_hash_def)

theorem answers_hide_hashes_witness:
  "user_read ex_read_env ex_rehashed_db ''u'' Read_keys = user_read ex_read_env ex_db ''u'' Read_keys \<and>
   derive_parent (\<lambda>b. b) ex_rehashed_db (Some ex_header) \<noteq> derive_parent (\<lambda>b. b) ex_db (Some ex_header)"
proof -
  have "bearer_token (Some ex_header) = ex_secret"
    by (simp add: ex_header_def bearer_token_def Let_def ex_secret_def starts_with_def to_lower_def lower_char_def
        js_trim_def trim_start_def js_space_def)
  then have "derive_parent (\<lambda>b. b) ex_rehashed_db (Some ex_header) = Inl (401, Unknown_parent)"
    by (simp add: derive_parent_def ex_rehashed_db_def Let_def) (simp add: ex_secret_def starts_with_def prefix_live_def)
  then have "derive_parent (\<lambda>b. b) ex_rehashed_db (Some ex_header) \<noteq> derive_parent (\<lambda>b. b) ex_db (Some ex_header)"
    using ex_derive_parent by simp
  then show ?thesis using answers_hide_hashes[OF ex_same_but_hashes ex_blind] by blast
qed

end
