(* ===== verification/Api_Replies.thy ===== *)
theory Api_Replies
  imports Tenant_Views Key_Usage Internal_Prices
begin

text \<open>
  The bodies of the answers of the internal price api (\<open>api/src/routes/internal.ts\<close>) and of
  the key holder's \<open>GET /usage\<close> (\<open>api/src/routes/usage.ts\<close>), and the texts of the errors of
  the price form (\<open>shared/prices.ts\<close>).
\<close>

section \<open>Prices\<close>

fun price_error_text :: "price_error \<Rightarrow> string" where
  "price_error_text Not_catalog_model = ''model must be a catalog model''"
| "price_error_text (Long_context_model m) =
     m @ '' has a long-context tier in the catalog; a model_prices row has no tier columns and would bill every request at the base rate''"
| "price_error_text (Rate_required name) = name @ '' is required''"
| "price_error_text (Rate_out_of_range name) = name @ '' must be a number from 0 to 999999''"
| "price_error_text Bad_valid_from = ''valid_from must be a date and time (UTC)''"
| "price_error_text Source_required = ''source is required''"

definition rat_json :: "rat \<Rightarrow> json" where "rat_json x = JNum (Fin x)"

definition rate_fields :: "full_rates \<Rightarrow> (string \<times> json) list" where
  "rate_fields f =
     [(''input_cost_per_mtok_usd'', rat_json (input_rate f)), (''output_cost_per_mtok_usd'', rat_json (output_rate f)),
      (''cache_read_cost_per_mtok_usd'', rat_json (cache_read_rate f)),
      (''cache_write_cost_per_mtok_usd'', rat_json (cache_write_rate f)),
      (''per_request_cost_usd'', rat_json (per_request_rate f))]"

text \<open>The appended row is shown with its model, a price in effect without.  Rates that are not
  there (an inherited entry) have no member, but for the fee, which defaults to zero, and the
  cache rates, which are \<open>NaN\<close>.\<close>

definition price_json :: "string option \<Rightarrow> price_answer \<Rightarrow> json" where
  "price_json model p =
     (case p of
        View_db i vf source note by rs \<Rightarrow> JObj
          ([(''kind'', JStr ''db''), (''id'', uuid_json i)] @ (case model of None \<Rightarrow> [] | Some m \<Rightarrow> [(''model'', JStr m)]) @
           [(''valid_from'', JStr (to_iso_string vf)), (''source'', JStr source), (''note'', null_or JStr note),
            (''created_by'', null_or JStr by)] @ rate_fields rs)
      | View_catalog derived rs \<Rightarrow> JObj
          ([(''kind'', JStr ''catalog''), (''cache_derived'', JBool derived)] @
           (case rs of Some f \<Rightarrow> rate_fields f
            | None \<Rightarrow> [(''cache_read_cost_per_mtok_usd'', JNum NaN), (''cache_write_cost_per_mtok_usd'', JNum NaN),
                       (''per_request_cost_usd'', rat_json 0)])))"

definition price_line_json :: "price_line \<Rightarrow> json option" where
  "price_line_json l =
     map_option (\<lambda>p. JObj
       [(''model'', JStr (pl_model l)), (''provider_slug'', JStr (pl_provider l)),
        (''upstream_model'', JStr (pl_upstream_model l)), (''long_context'', JBool (pl_long_context l)),
        (''price'', price_json None p)]) (pl_price l)"

text \<open>\<open>None\<close> for a line: \<open>effectivePrice\<close> threw.\<close>

definition price_list_reply :: "string \<Rightarrow> price_line list \<Rightarrow> nat \<times> json" where
  "price_list_reply raised ls =
     (case all_some (map price_line_json ls) of
        None \<Rightarrow> on_error (Error_value raised)
      | Some js \<Rightarrow> (200, JObj [(''models'', JArr js)]))"

definition price_post_reply ::
  "string \<Rightarrow> string \<Rightarrow> (price_reply_error, bool \<times> price_answer option) reply \<Rightarrow> nat \<times> json" where
  "price_post_reply raised model r =
     (case r of
        Answer st (unchanged, Some p) \<Rightarrow>
          (st, JObj [(''unchanged'', JBool unchanged), (''price'', price_json (if unchanged then None else Some model) p)])
      | Answer st (_, None) \<Rightarrow> on_error (Error_value raised)
      | Failure st Body_not_object \<Rightarrow> (st, error_json ''body must be a JSON object'' [])
      | Failure st (Invalid_price e) \<Rightarrow> (st, error_json (price_error_text e) [])
      | Failure st Price_sql_error \<Rightarrow> on_error (Error_value raised))"

section \<open>The key holder's usage\<close>

definition key_usage_row_json :: "key_usage_row \<Rightarrow> json" where
  "key_usage_row_json r = JObj
     [(''usage_id'', JStr (ku_usage_id r)), (''machine_id'', null_or JStr (ku_machine_id r)),
      (''key_id'', JStr (ku_key_id r)), (''jti'', JStr (ku_jti r)), (''name'', JStr (ku_name r)),
      (''parent_key_id'', null_or JStr (ku_parent r)), (''root_key_id'', null_or JStr (ku_root r)),
      (''model'', null_or JStr (ku_model r)), (''input_tokens'', int_json (ku_input_tokens r)),
      (''output_tokens'', int_json (ku_output_tokens r)), (''cache_read_tokens'', int_json (ku_cache_read_tokens r)),
      (''cache_write_tokens'', int_json (ku_cache_write_tokens r)),
      (''provider_cost'', null_or rat_json (ku_provider_cost r)),
      (''provider_cost_currency'', null_or JStr (ku_currency r)), (''cost_usd'', null_or rat_json (ku_cost_usd r)),
      (''price_id'', null_or JStr (ku_price_id r)), (''created_at'', JStr (to_iso_string (ku_created_at r))),
      (''id'', JNum (ku_id r))]"

definition key_totals_reply :: "key_totals \<Rightarrow> json" where
  "key_totals_reply t = JObj
     [(''requests'', rat_json (kt_requests t)), (''input_tokens'', rat_json (kt_input_tokens t)),
      (''output_tokens'', rat_json (kt_output_tokens t)), (''cache_read_tokens'', rat_json (kt_cache_read_tokens t)),
      (''cache_write_tokens'', rat_json (kt_cache_write_tokens t)), (''cost_usd'', rat_json (kt_cost_usd t))]"

definition key_usage_reply :: "string \<Rightarrow> (usage_error, key_usage_page) reply \<Rightarrow> nat \<times> json" where
  "key_usage_reply raised r =
     (case r of
        Answer st p \<Rightarrow> (st, JObj
          [(''rows'', JArr (map key_usage_row_json (kp_rows p))), (''max_id'', null_or JNum (kp_max_id p)),
           (''totals'', key_totals_reply (kp_totals p))])
      | Failure st Credential_rejected \<Rightarrow> (st, error_json ''unauthorized'' [])
      | Failure st Usage_sql_error \<Rightarrow> on_error (Error_value raised))"

end
