(* ===== verification/Api_Requests.thy ===== *)
theory Api_Requests
  imports Api_Replies
begin

text \<open>
  Whole requests of the api.  \<open>run_handler\<close> is one handler or middleware of the route table on
  the state of the process and the database, \<open>run_chain\<close> runs the chain that a request's path
  selects until one of them answers, and keeps for each what it found and what it left.  Before each
  of them the rest of the system may have run: what a guard has read may be out of date when the
  handler behind it writes.
\<close>

section \<open>Requests\<close>

text \<open>The body is what \<open>c.req.json()\<close> gives, \<open>None\<close> when it throws.\<close>

record api_request =
  rq_verb :: string
  rq_path :: string
  rq_header :: "string \<Rightarrow> string option"
  rq_query :: "string \<Rightarrow> string option"
  rq_body :: "json option"

abbreviation rq_authorization :: "api_request \<Rightarrow> string option" where
  "rq_authorization rq \<equiv> rq_header rq ''authorization''"

abbreviation rq_authz :: "api_request \<Rightarrow> string option" where
  "rq_authz rq \<equiv> rq_header rq ''x-kamuhub-authz''"

text \<open>What a process was started with and the services it calls; \<open>aw_decode\<close> is the decoding of
  a path parameter, \<open>aw_derive_text\<close> and \<open>aw_userinfo_text\<close> the messages of errors the engine,
  the driver or the network raise.\<close>

record api_world =
  aw_services :: auth_services
  aw_driver :: driver
  aw_derive :: derive_env
  aw_sha256 :: "bytes \<Rightarrow> bytes"
  aw_sign :: "json \<Rightarrow> json \<Rightarrow> string option"
  aw_verify_jwt :: "string \<Rightarrow> json option"
  aw_internal_token :: string
  aw_price :: price_env
  aw_read :: read_env
  aw_decode :: "string \<Rightarrow> string"
  aw_derive_text :: "derive_error \<Rightarrow> string"
  aw_userinfo_text :: string

text \<open>The state a request works on: the database, the caches of the process, and what
  \<open>authMiddleware\<close> left in the context of the request.\<close>

record api_state =
  as_db :: db
  as_cache :: auth_cache
  as_prices :: price_cache
  as_admitted :: "admitted option"

text \<open>What one handler meets: what the rest of the system did since the one before it ended, the
  readings of the clocks, the generated ids, the random bytes, and what the ingest pass that it
  waits for does and reports.  \<open>sg_stop\<close> is the statement at which a projection of memberships fails,
  if it does; \<open>sg_gap\<close> is what the others do between the two statements of a mint, \<open>None\<close> when the
  second one fails.\<close>

record api_stage =
  sg_rest :: "db \<Rightarrow> db"
  sg_rest_cache :: "auth_cache \<Rightarrow> auth_cache"
  sg_now :: js_time
  sg_later :: js_time
  sg_pg :: pg_time
  sg_pg_later :: pg_time
  sg_id :: uuid
  sg_team_ids :: "nat \<Rightarrow> uuid"
  sg_stop :: "nat option"
  sg_gap :: "(db \<Rightarrow> db) option"
  sg_random :: bytes
  sg_pass :: "db \<Rightarrow> string list \<times> db"
  sg_price :: price_moment

definition meanwhile :: "api_stage \<Rightarrow> api_state \<Rightarrow> api_state" where
  "meanwhile g s = s\<lparr>as_db := sg_rest g (as_db s), as_cache := sg_rest_cache g (as_cache s)\<rparr>"

text \<open>A handler passes the request on or answers; \<open>Library_reply\<close> is a response whose body the
  framework makes: the preflight answer, the API document, its viewer, no route.\<close>

datatype api_outcome = Passes | Replies nat json | Library_reply nat

definition replies :: "nat \<times> json \<Rightarrow> api_outcome" where
  "replies r = Replies (fst r) (snd r)"

lemma replies_simps [simp]: "replies r \<noteq> Passes" "replies r \<noteq> Library_reply n"
  by (simp_all add: replies_def)

section \<open>The guards\<close>

definition run_auth :: "api_world \<Rightarrow> api_request \<Rightarrow> api_stage \<Rightarrow> api_state \<Rightarrow> api_outcome \<times> api_state" where
  "run_auth w rq g s =
     (case auth_middleware (aw_services w) (sg_now g) (sg_later g) (sg_pg g) (sg_team_ids g) (sg_stop g) (as_db s)
             (as_cache s) (rq_authorization rq) (rq_authz rq) of
        (Answer _ a, d, cache) \<Rightarrow> (Passes, s\<lparr>as_db := d, as_cache := cache, as_admitted := Some a\<rparr>)
      | (Failure st Unauthorized, d, cache) \<Rightarrow>
          (Replies st (error_json ''Unauthorized'' []), s\<lparr>as_db := d, as_cache := cache\<rparr>)
      | (Failure st Userinfo_failed, d, cache) \<Rightarrow>
          (replies (on_error (Error_value (aw_userinfo_text w))), s\<lparr>as_db := d, as_cache := cache\<rparr>))"

text \<open>\<open>c.req.param("id")\<close> of the routes \<open>/api/keys/:id\<close>.\<close>

definition id_param :: "api_world \<Rightarrow> api_request \<Rightarrow> string" where
  "id_param w rq = (case segments (rq_path rq) of _ # _ # i # _ \<Rightarrow> aw_decode w i | _ \<Rightarrow> [])"

text \<open>The organisation is resolved from the body on the route that mints and from the key on the
  one that revokes.\<close>

definition resolved_org :: "api_world \<Rightarrow> api_request \<Rightarrow> string \<Rightarrow> db \<Rightarrow> keys_error + string option" where
  "resolved_org w rq permission d =
     (if permission = ''llm.keys.create'' then team_org_id_from_create (aw_driver w) d (rq_body rq)
      else team_org_id_from_key d (id_param w rq))"

definition run_grant :: "api_world \<Rightarrow> api_request \<Rightarrow> string \<Rightarrow> api_state \<Rightarrow> api_outcome" where
  "run_grant w rq permission s =
     (case require_grant (verify_context (aw_services w)) permission
             (case as_admitted s of Some a \<Rightarrow> ad_context a | None \<Rightarrow> None) (rq_authz rq)
             (resolved_org w rq permission (as_db s)) of
        None \<Rightarrow> Passes
      | Some e \<Rightarrow> replies (on_error (keys_thrown (rd_raised (aw_read w)) (grant_status e) (Not_granted e))))"

section \<open>The handlers\<close>

text \<open>\<open>c.get("user").id\<close> throws when no guard has set the user.\<close>

definition with_user :: "api_world \<Rightarrow> api_state \<Rightarrow> (string \<Rightarrow> (nat \<times> json) \<times> db) \<Rightarrow> api_outcome \<times> api_state" where
  "with_user w s f =
     (case as_admitted s of
        None \<Rightarrow> (replies (on_error (Error_value (rd_raised (aw_read w) Type_error))), s)
      | Some a \<Rightarrow> (let (r, d) = f (user_id (ad_user a)) in (replies r, s\<lparr>as_db := d\<rparr>)))"

definition usage_filters_of :: "api_request \<Rightarrow> usage_filters" where
  "usage_filters_of rq =
     \<lparr>uf_key_id = rq_query rq ''key_id'', uf_model = rq_query rq ''model'',
      uf_from = rq_query rq ''from'', uf_to = rq_query rq ''to''\<rparr>"

definition usage_query_of :: "api_request \<Rightarrow> usage_query" where
  "usage_query_of rq =
     \<lparr>qu_since = rq_query rq ''since'', qu_limit = rq_query rq ''limit'', qu_key_id = rq_query rq ''key_id'',
      qu_jti = rq_query rq ''jti'', qu_name = rq_query rq ''name''\<rparr>"

fun read_of :: "api_world \<Rightarrow> api_request \<Rightarrow> api_handler \<Rightarrow> user_request option" where
  "read_of w rq Get_keys = Some Read_keys"
| "read_of w rq Get_key = Some (Read_key (id_param w rq))"
| "read_of w rq Get_teams = Some Read_teams"
| "read_of w rq Get_usage = Some (Read_usage (usage_filters_of rq))"
| "read_of w rq Get_usage_totals = Some (Read_totals (usage_filters_of rq))"
| "read_of w rq Get_usage_facets = Some Read_facets"
| "read_of w rq _ = None"

definition run_mint :: "api_world \<Rightarrow> api_request \<Rightarrow> api_stage \<Rightarrow> db \<Rightarrow> string \<Rightarrow> (nat \<times> json) \<times> db" where
  "run_mint w rq g d uid =
     (let (r, d') = create_key (aw_driver w) (aw_sha256 w) (sg_random g) (sg_id g) (sg_pg g)
            (map_option (\<lambda>f. (sg_pg_later g, f)) (sg_gap g)) uid d (rq_body rq)
      in (create_reply (rd_raised (aw_read w)) r, d'))"

definition run_revoke :: "api_world \<Rightarrow> api_request \<Rightarrow> api_stage \<Rightarrow> db \<Rightarrow> string \<Rightarrow> (nat \<times> json) \<times> db" where
  "run_revoke w rq g d uid =
     (let (r, d') = revoke_key (sg_pg g) uid d (id_param w rq) in (revoke_reply (rd_raised (aw_read w)) r, d'))"

definition run_derive :: "api_world \<Rightarrow> api_request \<Rightarrow> api_stage \<Rightarrow> db \<Rightarrow> (nat \<times> json) \<times> db" where
  "run_derive w rq g d =
     (let (r, d') = derive (aw_derive w) (aw_driver w) (aw_sha256 w) (aw_sign w) (sg_id g) (sg_now g) (sg_later g) (sg_pg g)
            d (rq_authorization rq) (rq_body rq)
      in (derive_reply (aw_derive w) (aw_sha256 w) (aw_derive_text w) d (rq_authorization rq) r, d'))"

text \<open>The pass runs, and is waited for, only once the credential is accepted.\<close>

definition run_key_usage :: "api_world \<Rightarrow> api_request \<Rightarrow> api_stage \<Rightarrow> db \<Rightarrow> (nat \<times> json) \<times> db" where
  "run_key_usage w rq g d =
     (let (failed, d') =
        (case verify_gateway_credential (aw_sha256 w) (aw_verify_jwt w) (sg_pg g) d (extract_credential (rq_header rq)) of
           Inr (Some _) \<Rightarrow> sg_pass g d
         | _ \<Rightarrow> ([], d))
      in (key_usage_reply (rd_sql_text (aw_read w))
            (key_usage (aw_sha256 w) (aw_verify_jwt w) (sg_pg g) d (rq_header rq) failed d' (usage_query_of rq)), d'))"

definition run_price_list :: "api_world \<Rightarrow> api_stage \<Rightarrow> api_state \<Rightarrow> api_outcome \<times> api_state" where
  "run_price_list w g s =
     (let (ls, cache) = internal_prices (pv_models (aw_price w)) (pv_rank (aw_price w)) (db_prices (as_db s))
            (pm_loaded (sg_price g)) (pm_now (sg_price g))
      in (replies (price_list_reply (rd_sql_text (aw_read w)) ls), s\<lparr>as_prices := cache\<rparr>))"

definition run_price_post :: "api_world \<Rightarrow> api_request \<Rightarrow> api_stage \<Rightarrow> api_state \<Rightarrow> api_outcome \<times> api_state" where
  "run_price_post w rq g s =
     (let (r, d, cache) = post_price (aw_price w) (sg_price g) (as_db s) (as_prices s) (rq_body rq)
      in (replies (price_post_reply (rd_sql_text (aw_read w)) (field (form_of (or_else (rq_body rq) JNull)) ''model'') r),
          s\<lparr>as_db := d, as_prices := cache\<rparr>))"

definition run_handler ::
  "api_world \<Rightarrow> api_request \<Rightarrow> api_stage \<Rightarrow> api_handler \<Rightarrow> api_state \<Rightarrow> api_outcome \<times> api_state" where
  "run_handler w rq g h s =
     (case h of
        Request_logger \<Rightarrow> (Passes, s)
      | Cors \<Rightarrow> (if rq_verb rq = ''OPTIONS'' then Library_reply 204 else Passes, s)
      | Require_auth \<Rightarrow> run_auth w rq g s
      | Require_grant p \<Rightarrow> (run_grant w rq p s, s)
      | Require_internal_token \<Rightarrow>
          (if internal_authorized (aw_sha256 w) (aw_internal_token w) (rq_authorization rq) then Passes
           else Replies 401 (error_json ''unauthorized'' []), s)
      | Get_health \<Rightarrow> (Replies 200 (JObj [(''ok'', JBool True)]), s)
      | Get_openapi \<Rightarrow> (Library_reply 200, s)
      | Get_docs \<Rightarrow> (Library_reply 200, s)
      | Get_key_usage \<Rightarrow> (let (r, d) = run_key_usage w rq g (as_db s) in (replies r, s\<lparr>as_db := d\<rparr>))
      | Post_derive \<Rightarrow> (let (r, d) = run_derive w rq g (as_db s) in (replies r, s\<lparr>as_db := d\<rparr>))
      | Get_internal_prices \<Rightarrow> run_price_list w g s
      | Post_internal_price \<Rightarrow> run_price_post w rq g s
      | Post_key \<Rightarrow> with_user w s (run_mint w rq g (as_db s))
      | Post_key_revoke \<Rightarrow> with_user w s (run_revoke w rq g (as_db s))
      | _ \<Rightarrow> (case read_of w rq h of
                None \<Rightarrow> (Passes, s)
              | Some q \<Rightarrow> with_user w s (\<lambda>uid. (user_read (aw_read w) (as_db s) uid q, as_db s))))"

section \<open>The chain\<close>

record api_event =
  ev_handler :: api_handler
  ev_stage :: api_stage
  ev_before :: db
  ev_after :: db

fun run_chain ::
  "api_world \<Rightarrow> api_request \<Rightarrow> (nat \<Rightarrow> api_stage) \<Rightarrow> nat \<Rightarrow> api_handler list \<Rightarrow> api_state \<Rightarrow>
     api_outcome \<times> api_state \<times> api_event list" where
  "run_chain w rq gs n [] s = (Library_reply 404, s, [])"
| "run_chain w rq gs n (h # hs) s =
     (let s0 = meanwhile (gs n) s;
          (out, s1) = run_handler w rq (gs n) h s0;
          e = \<lparr>ev_handler = h, ev_stage = gs n, ev_before = as_db s0, ev_after = as_db s1\<rparr>
      in if out = Passes
         then (let (out', s', es) = run_chain w rq gs (Suc n) hs s1 in (out', s', e # es))
         else (out, s1, [e]))"

definition serve_api ::
  "api_world \<Rightarrow> api_request \<Rightarrow> (nat \<Rightarrow> api_stage) \<Rightarrow> api_state \<Rightarrow> api_outcome \<times> api_state \<times> api_event list" where
  "serve_api w rq gs s =
     run_chain w rq gs 0 (handler_chain api_routes (rq_verb rq) (segments (rq_path rq))) (s\<lparr>as_admitted := None\<rparr>)"

text \<open>The status a response goes out with, and its line in the access log.\<close>

fun status_of :: "api_outcome \<Rightarrow> nat" where
  "status_of (Replies st _) = st"
| "status_of (Library_reply st) = st"
| "status_of Passes = 404"

definition logged :: "log_level \<Rightarrow> api_request \<Rightarrow> js_time \<Rightarrow> js_time \<Rightarrow> api_outcome \<Rightarrow> (stream \<times> json) option" where
  "logged threshold rq start done_at out =
     request_log threshold (rq_verb rq) (rq_path rq) (status_of out) start done_at"

end
