(* ===== verification/Request_Effects.thy ===== *)
theory Request_Effects
  imports Api_Requests
begin

text \<open>
  What a whole request does to the database: each handler of the chain leaves it alone or makes
  one of the writes listed here, which are transactions of the system; what the signed context of
  a request says is the same for every guard of the chain; and what is left of a request whose
  response reports a failure.
\<close>

section \<open>The writes\<close>

text \<open>The tables that admission does not touch.\<close>

definition same_rows :: "db \<Rightarrow> db \<Rightarrow> bool" where
  "same_rows d d' \<longleftrightarrow> db_keys d' = db_keys d \<and> db_usage d' = db_usage d \<and> db_spend d' = db_spend d \<and>
     db_prices d' = db_prices d \<and> db_settings d' = db_settings d"

lemma same_rows_refl [simp]: "same_rows d d"
  by (simp add: same_rows_def)

lemma sync_rows: "(sync_statement user)\<^sup>*\<^sup>* d d' \<Longrightarrow> same_rows d d'"
  using sync_run_frame by (simp add: same_rows_def)

text \<open>The ways through \<open>authMiddleware\<close>.\<close>

lemma auth_middleware_cases:
  assumes run: "auth_middleware sv now now' pg ids stop d cache authorization authz = (r, d', cache')"
  defines "token \<equiv> bearer_token authorization" and "h \<equiv> or_else authz []"
  defines "no_key \<equiv> \<not> (verify_context sv token \<noteq> None \<and> or_else (ctx_sub (the (verify_context sv token))) [] \<noteq> [])"
  obtains (none) "r = Failure 401 Unauthorized" "d' = d" "cache' = cache"
    | (key) c ps where "verify_context sv token = Some c" "or_else (ctx_sub c) [] \<noteq> []" "cache' = cache"
      "r = Answer 200 \<lparr>ad_user = provision_user (the (ctx_sub c)) (ctx_email c) (ctx_name c), ad_context = Some c\<rparr>"
      "d' = try_ensure_teams pg (the (ctx_sub c)) d ps stop"
    | (fresh) c where "no_key" "h \<noteq> []" "verify_context sv h = Some c"
      "admit_fresh sv now' pg ids stop d cache token c = (r, d', cache')"
    | (hit) c e where "no_key" "h \<noteq> []" "verify_context sv h = Some c" "map_of cache token = Some e"
      "Some (ce_sub e) = ctx_sub c" "d' = d" "cache' = cache" "r = Answer 200 \<lparr>ad_user = ce_user e, ad_context = None\<rparr>"
proof (cases "token = [] \<or> \<not> no_key")
  case True
  then show ?thesis using run none key by (auto simp: auth_middleware_def Let_def token_def no_key_def split: if_splits)
next
  case False
  then have no: "(verify_context sv token \<noteq> None \<and> or_else (ctx_sub (the (verify_context sv token))) [] \<noteq> []) = False"
    "(token = []) = False" and no_key by (unfold no_key_def) blast+
  note run = run[unfolded auth_middleware_def Let_def, folded token_def h_def, unfolded no if_False]
  show ?thesis
  proof (cases "if h \<noteq> [] then verify_context sv h else None")
    case None
    then show ?thesis using run none by simp
  next
    case (Some c)
    then have c: "h \<noteq> []" "verify_context sv h = Some c" by (simp_all split: if_splits)
    note run = run[unfolded Some option.case]
    show ?thesis
    proof (cases "map_of cache token")
      case None
      then show ?thesis using fresh[OF \<open>no_key\<close> c] run by simp
    next
      case entry: (Some e)
      note run = run[unfolded entry option.case]
      show ?thesis
      proof (cases "now < ce_exp e")
        case True
        then show ?thesis using run none hit[OF \<open>no_key\<close> c entry] by (simp split: if_splits)
      next
        case False
        then show ?thesis using fresh[OF \<open>no_key\<close> c] run by simp
      qed
    qed
  qed
qed

text \<open>What admission writes is a run of the statements that project the memberships.\<close>

lemma auth_middleware_writes:
  assumes "auth_middleware sv now now' pg ids stop d cache a z = (r, d', cache')"
  shows "\<exists>user. (sync_statement user)\<^sup>*\<^sup>* d d'"
  using assms
proof (cases rule: auth_middleware_cases)
  case (key c ps)
  then show ?thesis using try_sync_run(1) by blast
next
  case (fresh c)
  have "d' = d \<or> (\<exists>user ps. d' = try_reconcile_teams pg user d ps stop)"
    using fresh(4) by (auto simp: admit_fresh_def Let_def split: option.splits if_splits)
  then show ?thesis using try_sync_run(2) by blast
qed auto

lemma run_auth_writes:
  assumes "run_auth w rq g s = (out, s')"
  shows "\<exists>user. (sync_statement user)\<^sup>*\<^sup>* (as_db s) (as_db s')"
proof -
  obtain r d' cache' where run: "auth_middleware (aw_services w) (sg_now g) (sg_later g) (sg_pg g) (sg_team_ids g) (sg_stop g)
      (as_db s) (as_cache s) (rq_authorization rq) (rq_authz rq) = (r, d', cache')" by (metis prod_cases3)
  then have "as_db s' = d'" using assms by (auto simp: run_auth_def split: reply.splits auth_error.splits)
  then show ?thesis using auth_middleware_writes[OF run] by blast
qed

text \<open>One handler, in the terms of its route.  A mint is its two statements with what the others do
  in between, or the first alone; a derived key may be left without its token.\<close>

inductive handler_write :: "api_world \<Rightarrow> api_request \<Rightarrow> api_stage \<Rightarrow> api_handler \<Rightarrow> admitted option \<Rightarrow> api_outcome \<Rightarrow> db \<Rightarrow> db \<Rightarrow> bool"
  for w rq g where
  quiet: "handler_write w rq g h a out d d"
| projects: "(sync_statement user)\<^sup>*\<^sup>* d d' \<Longrightarrow> handler_write w rq g Require_auth a out d d'"
| mints: "create_insert (aw_driver w) (aw_sha256 w) (sg_random g) (sg_id g) (sg_pg g) (user_id (ad_user a)) d
      (rq_body rq) = (Answer 201 (k, secret), d1) \<Longrightarrow> sg_gap g = Some f \<Longrightarrow>
    handler_write w rq g Post_key (Some a) (Replies 201 j) d (set_root (sg_pg_later g) (sg_id g) (f d1))"
| half_mints: "create_insert (aw_driver w) (aw_sha256 w) (sg_random g) (sg_id g) (sg_pg g) (user_id (ad_user a)) d
      (rq_body rq) = (Answer 201 (k, secret), d') \<Longrightarrow> sg_gap g = None \<Longrightarrow>
    handler_write w rq g Post_key (Some a) (Replies 500 j) d d'"
| revokes: "revoke_key (sg_pg g) (user_id (ad_user a)) d (id_param w rq) = (Answer st n, d') \<Longrightarrow>
    handler_write w rq g Post_key_revoke (Some a) (Replies st j) d d'"
| derives: "derive (aw_derive w) (aw_driver w) (aw_sha256 w) (aw_sign w) (sg_id g) (sg_now g) (sg_later g) (sg_pg g) d
      (rq_authorization rq) (rq_body rq) = (Answer st x, d') \<Longrightarrow> handler_write w rq g Post_derive a (Replies st j) d d'"
| half_derives: "derive (aw_derive w) (aw_driver w) (aw_sha256 w) (aw_sign w) (sg_id g) (sg_now g) (sg_later g) (sg_pg g) d
      (rq_authorization rq) (rq_body rq) = (Failure 500 Signing_failed, d') \<Longrightarrow>
    handler_write w rq g Post_derive a (Replies 500 j) d d'"
| prices:
    "post_price (aw_price w) (sg_price g) d cache (rq_body rq) = (Answer 201 v, d', cache') \<Longrightarrow>
    handler_write w rq g Post_internal_price a (Replies 201 j) d d'"
| ingests: "verify_gateway_credential (aw_sha256 w) (aw_verify_jwt w) (sg_pg g) d (extract_credential (rq_header rq)) = Inr (Some sc) \<Longrightarrow>
    handler_write w rq g Get_key_usage a out d (snd (sg_pass g d))"

lemma with_user_cases:
  assumes "with_user w s f = (out, s')"
  obtains (same) "as_db s' = as_db s" | (writes) a r where "as_admitted s = Some a" "f (user_id (ad_user a)) = (r, as_db s')" "out = replies r"
  using assms by (auto simp: with_user_def split: option.splits prod.splits)

lemma run_handler_writes:
  assumes run: "run_handler w rq g h s = (out, s')"
  shows "handler_write w rq g h (as_admitted s) out (as_db s) (as_db s')"
proof (cases "as_db s' = as_db s")
  case False
  note kinds = handler_write.intros
  consider "h = Require_auth" | "h = Post_key" | "h = Post_key_revoke" | "h = Post_derive" | "h = Post_internal_price"
    | "h = Get_key_usage"
    using run False by (cases h) (auto simp: run_handler_def run_price_list_def with_user_def split: option.splits prod.splits)
  then show ?thesis
  proof cases
    case 1
    then show ?thesis using run run_auth_writes[of w rq g s out s'] kinds(2) by (auto simp: run_handler_def)
  next
    case 2
    then have "with_user w s (run_mint w rq g (as_db s)) = (out, s')" using run by (simp add: run_handler_def)
    then show ?thesis
    proof (cases rule: with_user_cases)
      case (writes a r)
      obtain x where x: "create_key (aw_driver w) (aw_sha256 w) (sg_random g) (sg_id g) (sg_pg g)
          (map_option (\<lambda>f. (sg_pg_later g, f)) (sg_gap g)) (user_id (ad_user a)) (as_db s) (rq_body rq) = (x, as_db s')"
        "r = create_reply (rd_raised (aw_read w)) x"
        using writes(2) by (auto simp: run_mint_def split: prod.splits)
      note run_simps = x(2) writes(1,3) create_reply_def keys_reply_def replies_def on_error_def \<open>h = Post_key\<close>
      from x(1) show ?thesis
      proof (cases rule: create_key_cases)
        case refused
        then show ?thesis using False by simp
      next
        case (rootless k s)
        then show ?thesis using kinds(4)[OF rootless(1)] by (simp add: run_simps)
      next
        case (minted k s now' f)
        then have "sg_gap g = Some f" "now' = sg_pg_later g" by auto
        then show ?thesis using kinds(3)[OF minted(1)] minted by (simp add: run_simps)
      qed
    qed (use False in simp)
  next
    case 3
    then have "with_user w s (run_revoke w rq g (as_db s)) = (out, s')" using run by (simp add: run_handler_def)
    then show ?thesis
    proof (cases rule: with_user_cases)
      case (writes a r)
      obtain x where x: "revoke_key (sg_pg g) (user_id (ad_user a)) (as_db s) (id_param w rq) = (x, as_db s')"
        "r = revoke_reply (rd_raised (aw_read w)) x"
        using writes(2) by (auto simp: run_revoke_def split: prod.splits)
      then obtain st y where "x = Answer st y"
        using False by (cases x) (auto simp: revoke_key_def Let_def split: option.splits if_splits)
      then show ?thesis using x writes kinds(5) \<open>h = Post_key_revoke\<close> by (simp add: revoke_reply_def keys_reply_def replies_def)
    qed (use False in simp)
  next
    case 4
    obtain x where x: "derive (aw_derive w) (aw_driver w) (aw_sha256 w) (aw_sign w) (sg_id g) (sg_now g) (sg_later g) (sg_pg g)
        (as_db s) (rq_authorization rq) (rq_body rq) = (x, as_db s')"
      "out = replies (derive_reply (aw_derive w) (aw_sha256 w) (aw_derive_text w) (as_db s) (rq_authorization rq) x)"
      using run 4 by (auto simp: run_handler_def run_derive_def split: prod.splits)
    from x(1) show ?thesis
    proof (cases rule: derive_cases)
      case refused
      then show ?thesis using False by simp
    next
      case (derived p rq' k t)
      then show ?thesis using kinds(6)[OF x(1)[unfolded derived(4)]] x(2) 4 by (simp add: derive_reply_def replies_def)
    next
      case (unsigned p rq' k)
      then show ?thesis using kinds(7)[OF x(1)[unfolded unsigned(4)]] x(2) 4
        by (simp add: derive_reply_def derive_error_reply_def replies_def on_error_def)
    qed
  next
    case 5
    obtain r cache' where x: "post_price (aw_price w) (sg_price g) (as_db s) (as_prices s) (rq_body rq) = (r, as_db s', cache')"
      "out = replies (price_post_reply (rd_sql_text (aw_read w)) (field (form_of (or_else (rq_body rq) JNull)) ''model'') r)"
      using run 5 by (auto simp: run_handler_def run_price_post_def split: prod.splits)
    then obtain v where v: "r = Answer 201 v" using post_price_appends False by metis
    then obtain p where "snd v = Some p"
      using x(1) by (auto simp: post_price_def Let_def split: if_splits sum.splits option.splits prod.splits)
    then show ?thesis using x v kinds(8) 5 by (cases v) (simp add: price_post_reply_def replies_def)
  next
    case 6
    then have "snd (run_key_usage w rq g (as_db s)) = as_db s'" using run by (auto simp: run_handler_def split: prod.splits)
    then obtain sc where "verify_gateway_credential (aw_sha256 w) (aw_verify_jwt w) (sg_pg g) (as_db s)
        (extract_credential (rq_header rq)) = Inr (Some sc)" "as_db s' = snd (sg_pass g (as_db s))"
      using False by (auto simp: run_key_usage_def split: sum.splits option.splits prod.splits)
    then show ?thesis using kinds(9) 6 by simp
  qed
qed (simp add: handler_write.quiet)

text \<open>What a handler that reports a failure may leave all the same: the row of a mint whose second
  statement failed, without a root; a derived key whose token was not signed; and what the ingest
  pass stored that a key holder's request waited for.\<close>

definition left_behind :: "api_world \<Rightarrow> api_request \<Rightarrow> api_stage \<Rightarrow> api_handler \<Rightarrow> db \<Rightarrow> db \<Rightarrow> bool" where
  "left_behind w rq g h d d' \<longleftrightarrow>
     (case h of
        Post_key \<Rightarrow> sg_gap g = None \<and> (\<exists>k. d' = insert_key d k \<and> key_id k = sg_id g \<and> key_kind k = Top \<and>
          key_status k = Active \<and> key_root k = None)
      | Post_derive \<Rightarrow> \<exists>p k. derive_parent (aw_sha256 w) d (rq_authorization rq) = Inr p \<and> d' = insert_key d k \<and>
          key_id k = sg_id g \<and> key_parent k = Some (key_id p) \<and>
          (\<exists>x. sign_sub_key_jwt (aw_sign w) (signing_kid (aw_derive w)) (child_payload p k) x (of_int (seconds (sg_later g))) = None)
      | Get_key_usage \<Rightarrow> d' = snd (sg_pass g d) \<and>
          (\<exists>sc. verify_gateway_credential (aw_sha256 w) (aw_verify_jwt w) (sg_pg g) d (extract_credential (rq_header rq)) = Inr (Some sc))
      | _ \<Rightarrow> False)"

text \<open>A handler that passes the request on, or reports a failure, leaves all other rows but memberships.\<close>

lemma handler_write_failed:
  assumes "handler_write w rq g h a out d d'" "out = Passes \<or> 300 \<le> status_of out"
  shows "same_rows d d' \<or> left_behind w rq g h d d'"
  using assms(1)
proof cases
  case (projects user)
  then show ?thesis using sync_rows by blast
next
  case (mints a k s d1 f j)
  then show ?thesis using assms(2) by simp
next
  case (half_mints a k s j)
  then show ?thesis using create_insert_Answer(3,4,5,7,12)[OF half_mints(4)] by (simp add: left_behind_def) blast
next
  case (revokes a st n j)
  then show ?thesis using revoke_key_Answer[OF revokes(4)] assms(2) by simp
next
  case (derives st x j)
  then show ?thesis using derive_Answer[of _ _ _ _ _ _ _ _ _ _ _ st "fst x" "snd x"] assms(2) by simp
next
  case (half_derives j)
  from half_derives(3) show ?thesis
  proof (cases rule: derive_cases)
    case (unsigned p rq' k)
    note k = child_row_Some(1,8)[OF derive_tx_Inr(1)[OF unsigned(3)]] derive_tx_Inr(2)[OF unsigned(3)]
    show ?thesis using unsigned(1,5) k half_derives(1) by (auto simp: left_behind_def)
  qed simp_all
next
  case (ingests sc)
  then show ?thesis by (auto simp: left_behind_def)
qed (use assms in simp_all)

section \<open>One step of a chain\<close>

abbreviation event_of :: "api_handler \<Rightarrow> api_stage \<Rightarrow> api_state \<Rightarrow> api_state \<Rightarrow> api_event" where
  "event_of h g s s1 \<equiv> \<lparr>ev_handler = h, ev_stage = g, ev_before = as_db (meanwhile g s), ev_after = as_db s1\<rparr>"

lemma run_chain_Cons:
  assumes "run_chain w rq gs n (h # hs) s = (out, s', es)"
  obtains o1 s1 fs where "run_handler w rq (gs n) h (meanwhile (gs n) s) = (o1, s1)"
    "es = event_of h (gs n) s s1 # fs"
    "o1 = Passes \<and> run_chain w rq gs (Suc n) hs s1 = (out, s', fs) \<or> o1 \<noteq> Passes \<and> o1 = out \<and> s' = s1 \<and> fs = []"
proof -
  obtain o1 s1 where h: "run_handler w rq (gs n) h (meanwhile (gs n) s) = (o1, s1)" by fastforce
  have eq: "(if o1 = Passes then (let (out', s', es) = run_chain w rq gs (Suc n) hs s1 in (out', s', event_of h (gs n) s s1 # es))
      else (o1, s1, [event_of h (gs n) s s1])) = (out, s', es)"
    using assms unfolding run_chain.simps Let_def h prod.case .
  show ?thesis
    by (rule that[OF h, of "tl es"]; use eq in \<open>cases "o1 = Passes"; cases "run_chain w rq gs (Suc n) hs s1"; auto\<close>)
qed

section \<open>A request is a run of transactions\<close>

text \<open>The others keep to the steps of the system, and ids are new where they are used.\<close>

definition rest_runs :: "(nat \<Rightarrow> api_stage) \<Rightarrow> bool" where
  "rest_runs gs \<longleftrightarrow>
     (\<forall>n d. owner_step\<^sup>*\<^sup>* d (sg_rest (gs n) d) \<and> owner_step\<^sup>*\<^sup>* d (snd (sg_pass (gs n) d)) \<and>
        (\<forall>f. sg_gap (gs n) = Some f \<longrightarrow> owner_step\<^sup>*\<^sup>* d (f d)))"

definition fresh_ids :: "api_event list \<Rightarrow> bool" where
  "fresh_ids es \<longleftrightarrow> (\<forall>e\<in>set es. fresh_key (ev_before e) (sg_id (ev_stage e)))"

lemma derive_inserts:
  assumes "derive e dr sha256 sign i now now' pg_now d authorization body = (r, d')" "d' \<noteq> d"
  obtains p rq k where "derive_parent sha256 d authorization = Inr p" "derive_tx e dr i pg_now p rq d = (Inr k, d')"
  using assms(1)
proof (cases rule: derive_cases)
  case refused
  then show ?thesis using assms(2) by simp
qed (use that in blast)+

lemma derive_system_step:
  assumes "derive e dr sha256 sign i now now' pg_now d authorization body = (r, d')" "fresh_key d i"
  shows "system_step\<^sup>*\<^sup>* d d'"
proof (cases "d' = d")
  case False
  obtain p rq k where p: "derive_parent sha256 d authorization = Inr p" and tx: "derive_tx e dr i pg_now p rq d = (Inr k, d')"
    using derive_inserts[OF assms(1) False] .
  have "read_earlier d p"
    unfolding read_earlier_def using derive_parent_Inr(1,2)[OF p] keeps_lineage_refl by blast
  then show ?thesis using system_step.derives[OF assms(2) _ tx] by blast
qed simp

lemma mint_run:
  assumes ins: "create_insert dr sha256 random i now user d body = (Answer 201 (k, s), d1)"
    and new: "fresh_key d i" and ok: "owner_ok d" and others: "owner_step\<^sup>*\<^sup>* d1 (f d1)"
  shows "owner_step\<^sup>*\<^sup>* d (set_root now' i (f d1))"
proof -
  have first: "owner_step d d1" using owner_step.handlers[OF system_step.mints[OF new ins]] .
  have k: "k \<in> set (db_keys d1)" "key_kind k = Top" "key_id k = i"
    using create_insert_Answer(3,4,12)[OF ins] by (simp_all add: insert_key_def)
  have "top_only (f d1) i"
    using owner_run_top_only[OF others budgeted.step_ok[OF ok first] k(1,2)] k(3) by simp
  then have "owner_step (f d1) (set_root now' i (f d1))" by (intro owner_step.handlers system_step.roots)
  with first others show ?thesis
    by (meson converse_rtranclp_into_rtranclp rtranclp.rtrancl_into_rtrancl)
qed

lemma handler_write_run:
  assumes "handler_write w rq g h a out d d'" "fresh_key d (sg_id g)" "owner_ok d"
    and pass: "owner_step\<^sup>*\<^sup>* d (snd (sg_pass g d))" and gap: "\<And>f x. sg_gap g = Some f \<Longrightarrow> owner_step\<^sup>*\<^sup>* x (f x)"
  shows "owner_step\<^sup>*\<^sup>* d d'"
  using assms(1)
proof cases
  case (projects user)
  then show ?thesis using sync_run_system system_run_owner by blast
next
  case (mints a k s d1 f j)
  have "owner_step\<^sup>*\<^sup>* d1 (f d1)" using gap[OF mints(6)] .
  then show ?thesis using mint_run[OF mints(5) assms(2,3), of f "sg_pg_later g"] mints(4) by simp
next
  case (half_mints a k s j)
  then show ?thesis using system_step.mints[OF assms(2) half_mints(4)] owner_step.handlers by blast
next
  case (revokes a st n j)
  then show ?thesis using system_step.revokes owner_step.handlers by blast
next
  case (derives st x j)
  then show ?thesis using derive_system_step[OF _ assms(2)] system_run_owner by blast
next
  case (half_derives j)
  then show ?thesis using derive_system_step[OF _ assms(2)] system_run_owner by blast
next
  case (prices cache v cache' j)
  then show ?thesis using post_price_201 system_step.prices owner_step.handlers by (metis r_into_rtranclp)
qed (use pass in simp_all)

lemma run_chain_run:
  assumes "run_chain w rq gs n hs s = (out, s', es)" "rest_runs gs" "fresh_ids es" "owner_ok (as_db s)"
  shows "owner_step\<^sup>*\<^sup>* (as_db s) (as_db s')"
  using assms(1,3,4)
proof (induction hs arbitrary: n s es)
  case (Cons h hs)
  obtain o1 s1 fs where h: "run_handler w rq (gs n) h (meanwhile (gs n) s) = (o1, s1)"
    and es: "es = event_of h (gs n) s s1 # fs"
    and rest: "o1 = Passes \<and> run_chain w rq gs (Suc n) hs s1 = (out, s', fs) \<or> o1 \<noteq> Passes \<and> o1 = out \<and> s' = s1 \<and> fs = []"
    using run_chain_Cons[OF Cons.prems(1)] by metis
  have fresh: "fresh_key (as_db (meanwhile (gs n) s)) (sg_id (gs n))" "fresh_ids fs"
    using Cons.prems(2) es by (simp_all add: fresh_ids_def)
  have before: "owner_step\<^sup>*\<^sup>* (as_db s) (as_db (meanwhile (gs n) s))"
    using assms(2) by (simp add: rest_runs_def meanwhile_def)
  have here: "owner_step\<^sup>*\<^sup>* (as_db (meanwhile (gs n) s)) (as_db s1)"
    by (rule handler_write_run[OF run_handler_writes[OF h] fresh(1) budgeted.run_ok[OF before Cons.prems(3)]])
      (use assms(2) in \<open>simp_all add: rest_runs_def\<close>)
  have run: "owner_step\<^sup>*\<^sup>* (as_db s) (as_db s1)" using before here by (rule rtranclp_trans)
  have "owner_step\<^sup>*\<^sup>* (as_db s1) (as_db s')"
    using Cons.IH[OF _ fresh(2) budgeted.run_ok[OF run Cons.prems(3)]] rest by blast
  with run show ?case by (rule rtranclp_trans)
qed simp

section \<open>The signed context of a request\<close>

definition request_context :: "api_world \<Rightarrow> api_request \<Rightarrow> platform_context option" where
  "request_context w rq =
     (let verify = verify_context (aw_services w); h = or_else (rq_authz rq) [];
          by_header = (if h \<noteq> [] then verify h else None)
      in case verify (bearer_token (rq_authorization rq)) of
           None \<Rightarrow> by_header
         | Some c \<Rightarrow> if or_else (ctx_sub c) [] \<noteq> [] then Some c else by_header)"

definition cache_sound :: "auth_cache \<Rightarrow> bool" where
  "cache_sound cache \<longleftrightarrow> (\<forall>token e. map_of cache token = Some e \<longrightarrow> user_id (ce_user e) = ce_sub e)"

lemma cache_sound_set: "cache_sound cache \<Longrightarrow> user_id (ce_user e) = ce_sub e \<Longrightarrow> cache_sound (cache_set cache token e)"
  by (auto simp: cache_sound_def cache_set_def update_conv')

text \<open>The user of a request is the subject of that context, and the grants are read from it.\<close>

definition admission_ok :: "api_world \<Rightarrow> api_request \<Rightarrow> admitted \<Rightarrow> bool" where
  "admission_ok w rq a \<longleftrightarrow>
     (\<exists>ctx. request_context w rq = Some ctx \<and> ctx_sub ctx = Some (user_id (ad_user a)) \<and>
        grant_context (verify_context (aw_services w)) (ad_context a) (rq_authz rq) = Some ctx)"

lemma auth_middleware_admission:
  assumes run: "auth_middleware (aw_services w) now now' pg ids stop d cache (rq_authorization rq) (rq_authz rq) = (r, d', cache')"
    and cache: "cache_sound cache"
  shows "cache_sound cache'" "r = Answer st a \<Longrightarrow> admission_ok w rq a" "r = Failure st e \<Longrightarrow> d' = d"
proof -
  have fresh: "cache_sound cache' \<and> (r = Answer st a \<longrightarrow> ad_context a = None \<and> ctx_sub c = Some (user_id (ad_user a))) \<and>
      (r = Failure st e \<longrightarrow> d' = d)"
    if "admit_fresh (aw_services w) now' pg ids stop d cache token c = (r, d', cache')" for token c
    using that
  proof (cases rule: admit_fresh_cases)
    case (2 info s)
    then show ?thesis using cache by (auto intro: cache_sound_set)
  qed (use cache in simp)
  note context_defs = admission_ok_def request_context_def grant_context_def Let_def
  from run have "cache_sound cache' \<and> (r = Answer st a \<longrightarrow> admission_ok w rq a) \<and> (r = Failure st e \<longrightarrow> d' = d)"
  proof (cases rule: auth_middleware_cases)
    case key
    then show ?thesis using cache by (auto simp: context_defs or_else_def split: option.splits)
  next
    case fresh': (fresh c)
    then show ?thesis using fresh[OF fresh'(4)] by (auto simp: context_defs split: option.splits)
  next
    case (hit c h)
    then have "user_id (ce_user h) = ce_sub h" using cache by (simp add: cache_sound_def)
    then show ?thesis using hit cache by (auto simp: context_defs split: option.splits)
  qed (use cache in simp)
  then show "cache_sound cache'" "r = Answer st a \<Longrightarrow> admission_ok w rq a" "r = Failure st e \<Longrightarrow> d' = d" by blast+
qed

section \<open>What the guards of a chain establish\<close>

text \<open>An invariant of the requests' state and of the events so far: kept by the rest of the system
  and by every handler that passes the request on, it holds before each handler of the chain.\<close>

lemma run_chain_events:
  assumes step: "\<And>pre h vs n s s1. whole = map ev_handler pre @ h # vs \<Longrightarrow> I pre s \<Longrightarrow>
      run_handler w rq (gs n) h (meanwhile (gs n) s) = (Passes, s1) \<Longrightarrow> I (pre @ [event_of h (gs n) s s1]) s1"
    and run: "run_chain w rq gs n hs s = (out, s', es)" and hs: "whole = map ev_handler pre @ hs" and I: "I pre s"
    and e: "e \<in> set es"
  shows "\<exists>xs vs m t t1 o1. I xs t \<and> whole = map ev_handler xs @ ev_handler e # vs \<and> set xs \<subseteq> set pre \<union> set es \<and>
    ev_stage e = gs m \<and> run_handler w rq (gs m) (ev_handler e) (meanwhile (gs m) t) = (o1, t1) \<and>
    (o1 = Passes \<or> o1 = out) \<and> ev_before e = as_db (meanwhile (gs m) t) \<and> ev_after e = as_db t1"
  using run hs I e
proof (induction hs arbitrary: n s es pre)
  case (Cons h hs)
  obtain o1 s1 fs where h: "run_handler w rq (gs n) h (meanwhile (gs n) s) = (o1, s1)"
    and es: "es = event_of h (gs n) s s1 # fs"
    and rest: "o1 = Passes \<and> run_chain w rq gs (Suc n) hs s1 = (out, s', fs) \<or> o1 \<noteq> Passes \<and> o1 = out \<and> s' = s1 \<and> fs = []"
    using run_chain_Cons[OF Cons.prems(1)] by metis
  show ?case
  proof (cases "e = event_of h (gs n) s s1")
    case True
    then show ?thesis
      using Cons.prems(2,3) h rest by (intro exI[of _ pre] exI[of _ hs] exI[of _ n] exI[of _ s] exI[of _ s1] exI[of _ o1]) auto
  next
    case False
    then have e: "e \<in> set fs" and run: "o1 = Passes" "run_chain w rq gs (Suc n) hs s1 = (out, s', fs)"
      using Cons.prems(4) es rest by auto
    have "I (pre @ [event_of h (gs n) s s1]) s1" using step[OF Cons.prems(2,3)] h run(1) by simp
    from Cons.IH[OF run(2) _ this e] show ?thesis using Cons.prems(2) unfolding es by fastforce
  qed
qed simp

text \<open>Here: the user is the subject of the signed context, and a grant that was passed was looked
  up in the organisation resolved then.\<close>

definition granted_by :: "api_world \<Rightarrow> api_request \<Rightarrow> api_event list \<Rightarrow> string \<Rightarrow> platform_context \<Rightarrow> string option \<Rightarrow> db \<Rightarrow> bool" where
  "granted_by w rq es p ctx org d \<longleftrightarrow> request_context w rq = Some ctx \<and>
     (\<exists>e\<in>set es. ev_handler e = Require_grant p \<and> ev_before e = d) \<and>
     resolved_org w rq p d = Inr org \<and> grants ctx org p"

definition guarded_state :: "api_world \<Rightarrow> api_request \<Rightarrow> api_event list \<Rightarrow> api_state \<Rightarrow> bool" where
  "guarded_state w rq es s \<longleftrightarrow> cache_sound (as_cache s) \<and>
     (\<forall>a. as_admitted s = Some a \<longrightarrow> admission_ok w rq a) \<and>
     (Require_auth \<in> ev_handler ` set es \<longrightarrow> as_admitted s \<noteq> None) \<and>
     (\<forall>p. Require_grant p \<in> ev_handler ` set es \<longrightarrow> (\<exists>ctx org d. granted_by w rq es p ctx org d)) \<and>
     (Require_internal_token \<in> ev_handler ` set es \<longrightarrow>
        internal_authorized (aw_sha256 w) (aw_internal_token w) (rq_authorization rq))"

lemma granted_by_mono: "granted_by w rq es p ctx org d \<Longrightarrow> set es \<subseteq> set fs \<Longrightarrow> granted_by w rq fs p ctx org d"
  by (auto simp: granted_by_def)

lemma run_auth_Passes:
  assumes "run_auth w rq g s = (Passes, s1)" "cache_sound (as_cache s)"
  shows "cache_sound (as_cache s1)" "\<exists>a. as_admitted s1 = Some a \<and> admission_ok w rq a"
proof -
  obtain r d cache where run: "auth_middleware (aw_services w) (sg_now g) (sg_later g) (sg_pg g) (sg_team_ids g) (sg_stop g) (as_db s) (as_cache s)
      (rq_authorization rq) (rq_authz rq) = (r, d, cache)" by (metis prod_cases3)
  then obtain st a where a: "r = Answer st a" "s1 = s\<lparr>as_db := d, as_cache := cache, as_admitted := Some a\<rparr>"
    using assms(1) by (auto simp: run_auth_def split: reply.splits auth_error.splits)
  show "cache_sound (as_cache s1)" "\<exists>a. as_admitted s1 = Some a \<and> admission_ok w rq a"
    using auth_middleware_admission(1,2)[OF run assms(2)] a by auto
qed

lemma run_grant_Passes:
  assumes "run_grant w rq p s = Passes" "as_admitted s = Some a" "admission_ok w rq a"
  shows "\<exists>ctx org. request_context w rq = Some ctx \<and> resolved_org w rq p (as_db s) = Inr org \<and> grants ctx org p"
proof -
  obtain ctx where ctx: "request_context w rq = Some ctx"
    "grant_context (verify_context (aw_services w)) (ad_context a) (rq_authz rq) = Some ctx"
    using assms(3) by (auto simp: admission_ok_def)
  have "require_grant (verify_context (aw_services w)) p (ad_context a) (rq_authz rq) (resolved_org w rq p (as_db s)) = None"
    using assms(1,2) by (auto simp: run_grant_def split: option.splits)
  then show ?thesis
    using ctx unfolding require_grant_def
    by (auto simp: grants_def dest: find_SomeD split: sum.splits option.splits if_splits)
qed

lemma answers_pass_nothing:
  "with_user w s f \<noteq> (Passes, s1)" "run_price_list w g s \<noteq> (Passes, s1)" "run_price_post w rq g s \<noteq> (Passes, s1)"
  by (auto simp: with_user_def run_price_list_def run_price_post_def Let_def split: option.splits prod.splits)

lemma run_handler_Passes:
  assumes "run_handler w rq g h s = (Passes, s1)"
  obtains (through) "h \<in> {Request_logger, Cors}" "s1 = s" | (auth) "h = Require_auth" "run_auth w rq g s = (Passes, s1)"
    | (grant) p where "h = Require_grant p" "run_grant w rq p s = Passes" "s1 = s"
    | (token) "h = Require_internal_token" "s1 = s" "internal_authorized (aw_sha256 w) (aw_internal_token w) (rq_authorization rq)"
proof -
  consider "h \<in> {Request_logger, Cors}" | "h = Require_auth" | "h = Require_internal_token" | p where "h = Require_grant p"
    using assms by (cases h) (simp_all add: run_handler_def answers_pass_nothing Let_def split: prod.splits)
  then show ?thesis
  proof cases
    case 1
    then show ?thesis using assms through by (auto simp: run_handler_def)
  next
    case 2
    then show ?thesis using assms auth by (simp add: run_handler_def)
  next
    case 3
    then show ?thesis using assms token by (simp add: run_handler_def split: if_splits)
  next
    case (4 p)
    then have "run_grant w rq p s = Passes" "s1 = s" using assms by (auto simp: run_handler_def)
    then show ?thesis using 4 by (intro grant)
  qed
qed

lemma guarded_step:
  assumes chain: "handler_chain api_routes verb xs = map ev_handler pre @ h # vs" and ok: "guarded_state w rq pre s"
    and run: "run_handler w rq g h (meanwhile g s) = (Passes, s1)"
    and cache: "\<And>c. cache_sound c \<Longrightarrow> cache_sound (sg_rest_cache g c)"
  shows "guarded_state w rq (pre @ [event_of h g s s1]) s1"
proof -
  let ?pre = "pre @ [event_of h g s s1]"
  have sound: "cache_sound (as_cache (meanwhile g s))" and adm: "as_admitted (meanwhile g s) = as_admitted s"
    using ok cache by (simp_all add: guarded_state_def meanwhile_def)
  have old: "\<exists>ctx org d. granted_by w rq ?pre p ctx org d" if "Require_grant p \<in> ev_handler ` set pre" for p
    using ok that granted_by_mono[of w rq pre p _ _ _ ?pre] unfolding guarded_state_def by (metis Un_upper1 set_append)
  from run show ?thesis
  proof (cases rule: run_handler_Passes)
    case through
    then show ?thesis using ok sound adm old by (auto simp: guarded_state_def)
  next
    case auth
    then show ?thesis using run_auth_Passes[OF auth(2) sound] ok old by (auto simp: guarded_state_def)
  next
    case (grant p)
    have "Require_auth \<in> set (map ev_handler pre)"
      using api.needed_guard_before[OF chain, of Require_auth] grant(1) by simp
    then obtain a where a: "as_admitted s = Some a" "admission_ok w rq a" using ok by (auto simp: guarded_state_def)
    then obtain ctx org where "request_context w rq = Some ctx" "resolved_org w rq p (as_db (meanwhile g s)) = Inr org" "grants ctx org p"
      using run_grant_Passes[OF grant(2)] adm by metis
    then have "granted_by w rq ?pre p ctx org (as_db (meanwhile g s))" using grant(1) by (simp add: granted_by_def)
    then show ?thesis using ok sound adm old grant by (auto simp: guarded_state_def)
  next
    case token
    then show ?thesis using ok sound adm old by (auto simp: guarded_state_def)
  qed
qed

section \<open>Every write is accounted for\<close>

text \<open>Who a write is by: a minted key, with its root set behind what others did meanwhile or left
  without one, names the subject of the signed context of its request, and the
  grant was signed for the organisation that the key's team had when it was checked; a revocation
  names that subject; a derived key hangs under the key that was presented; a price carries the
  name of the service behind the token; a pass was triggered by an accepted credential.\<close>

inductive accounted :: "api_world \<Rightarrow> api_request \<Rightarrow> api_event list \<Rightarrow> api_event \<Rightarrow> bool" for w rq es where
  nothing: "ev_after e = ev_before e \<Longrightarrow> accounted w rq es e"
| memberships: "ev_handler e = Require_auth \<Longrightarrow> same_rows (ev_before e) (ev_after e) \<Longrightarrow> request_context w rq \<noteq> None \<Longrightarrow>
    accounted w rq es e"
| minted: "ev_handler e = Post_key \<Longrightarrow> granted_by w rq es ''llm.keys.create'' ctx (team_org d0 (key_team k)) d0 \<Longrightarrow>
    ctx_sub ctx = Some who \<Longrightarrow> key_kind k = Top \<Longrightarrow>
    ev_after e = (case sg_gap (ev_stage e) of None \<Rightarrow> insert_key (ev_before e) k
      | Some others \<Rightarrow> set_root (sg_pg_later (ev_stage e)) (key_id k) (others (insert_key (ev_before e) k))) \<Longrightarrow>
    key_created_by k = Some who \<Longrightarrow> key_team k \<in> set (user_teams (ev_before e) who) \<Longrightarrow> accounted w rq es e"
| revoked: "ev_handler e = Post_key_revoke \<Longrightarrow> granted_by w rq es ''llm.keys.revoke'' ctx org d0 \<Longrightarrow>
    ctx_sub ctx = Some who \<Longrightarrow> pg_uuid (id_param w rq) = Some i \<Longrightarrow> i \<in> set (user_keys (ev_before e) who) \<Longrightarrow>
    ev_after e = update_keys (in_subtree i) (revoked_row (sg_pg (ev_stage e)) who) (ev_before e) \<Longrightarrow> accounted w rq es e"
| derived: "ev_handler e = Post_derive \<Longrightarrow> derive_parent (aw_sha256 w) (ev_before e) (rq_authorization rq) = Inr p \<Longrightarrow>
    key_parent k = Some (key_id p) \<Longrightarrow> ev_after e = insert_key (ev_before e) k \<Longrightarrow> accounted w rq es e"
| priced: "ev_handler e = Post_internal_price \<Longrightarrow>
    internal_authorized (aw_sha256 w) (aw_internal_token w) (rq_authorization rq) \<Longrightarrow>
    mp_created_by row = Some created_by_sync \<Longrightarrow>
    ev_after e = (ev_before e)\<lparr>db_prices := db_prices (ev_before e) @ [row]\<rparr> \<Longrightarrow> accounted w rq es e"
| ingested: "ev_handler e = Get_key_usage \<Longrightarrow>
    verify_gateway_credential (aw_sha256 w) (aw_verify_jwt w) (sg_pg (ev_stage e)) (ev_before e)
      (extract_credential (rq_header rq)) = Inr (Some sc) \<Longrightarrow>
    ev_after e = snd (sg_pass (ev_stage e) (ev_before e)) \<Longrightarrow> accounted w rq es e"

lemma handler_accounted:
  assumes chain: "handler_chain api_routes verb xs = map ev_handler pre @ h # vs" and ok: "guarded_state w rq pre t"
    and run: "run_handler w rq g h (meanwhile g t) = (o1, t1)" and sub: "set pre \<subseteq> set es"
    and cache: "\<And>c. cache_sound c \<Longrightarrow> cache_sound (sg_rest_cache g c)"
  shows "accounted w rq es (event_of h g t t1)"
proof -
  have passed: "q \<in> ev_handler ` set pre" if "q \<in> set (api_needs h)" for q
    using api.needed_guard_before[OF chain that] by simp
  have user: "\<exists>ctx org d. granted_by w rq es p ctx org d \<and> ctx_sub ctx = Some (user_id (ad_user a))"
    if need: "Require_grant p \<in> set (api_needs h)" and a: "as_admitted (meanwhile g t) = Some a" for p a
  proof -
    obtain ctx org d where g: "granted_by w rq pre p ctx org d" using ok passed[OF need] unfolding guarded_state_def by blast
    have "admission_ok w rq a" using ok a by (simp add: guarded_state_def meanwhile_def)
    then show ?thesis using granted_by_mono[OF g sub] g by (auto simp: granted_by_def admission_ok_def)
  qed
  have signed: "request_context w rq \<noteq> None" if "h = Require_auth" "as_db t1 \<noteq> as_db (meanwhile g t)"
  proof -
    obtain r d cache' where auth: "auth_middleware (aw_services w) (sg_now g) (sg_later g) (sg_pg g) (sg_team_ids g) (sg_stop g)
        (as_db (meanwhile g t)) (as_cache (meanwhile g t)) (rq_authorization rq) (rq_authz rq) = (r, d, cache')"
      by (metis prod_cases3)
    have "as_db t1 = d" using run that(1) auth
      by (auto simp: run_handler_def run_auth_def split: reply.splits auth_error.splits)
    moreover have "cache_sound (as_cache (meanwhile g t))" using ok cache by (simp add: guarded_state_def meanwhile_def)
    ultimately show ?thesis
      using auth_middleware_admission(2,3)[OF auth] that(2) by (cases r) (fastforce simp: admission_ok_def)+
  qed
  have child: "accounted w rq es (event_of h g t t1)"
    if drv: "derive (aw_derive w) (aw_driver w) (aw_sha256 w) (aw_sign w) (sg_id g) (sg_now g) (sg_later g) (sg_pg g)
        (as_db (meanwhile g t)) (rq_authorization rq) (rq_body rq) = (r, as_db t1)" and h: "h = Post_derive" for r
  proof (cases "as_db t1 = as_db (meanwhile g t)")
    case False
    obtain p rq' k where p: "derive_parent (aw_sha256 w) (as_db (meanwhile g t)) (rq_authorization rq) = Inr p"
      and tx: "derive_tx (aw_derive w) (aw_driver w) (sg_id g) (sg_pg g) p rq' (as_db (meanwhile g t)) = (Inr k, as_db t1)"
      using derive_inserts[OF drv False] .
    show ?thesis
      using accounted.derived[of "event_of h g t t1" w rq p k] h p derive_tx_Inr(2)[OF tx]
        child_row_Some(8)[OF derive_tx_Inr(1)[OF tx]] by simp
  qed (simp add: accounted.nothing)
  from run_handler_writes[OF run] show ?thesis
  proof cases
    case quiet
    then show ?thesis by (simp add: accounted.nothing)
  next
    case (projects user)
    then show ?thesis using signed accounted.nothing accounted.memberships sync_rows by fastforce
  next
    case (mints a k s d1 f j)
    note k = create_insert_Answer[OF mints(5)]
    obtain ctx org d0 where g: "granted_by w rq es ''llm.keys.create'' ctx org d0" "ctx_sub ctx = Some (user_id (ad_user a))"
      using user[of "''llm.keys.create''" a] mints(1,2) by auto
    then have "org = team_org d0 (key_team k)"
      using create_insert_org(1)[OF mints(5)] by (simp add: granted_by_def resolved_org_def)
    then show ?thesis
      using mints(1,4,6) g k(3,4,9,12,13) by (intro accounted.minted[where k = k]) simp_all
  next
    case (half_mints a k s j)
    note k = create_insert_Answer[OF half_mints(4)]
    obtain ctx org d0 where g: "granted_by w rq es ''llm.keys.create'' ctx org d0" "ctx_sub ctx = Some (user_id (ad_user a))"
      using user[of "''llm.keys.create''" a] half_mints(1,2) by auto
    then have "org = team_org d0 (key_team k)"
      using create_insert_org(1)[OF half_mints(4)] by (simp add: granted_by_def resolved_org_def)
    then show ?thesis
      using half_mints(1,5) g k(3,4,9,12,13) by (intro accounted.minted[where k = k]) simp_all
  next
    case (revokes a st n j)
    obtain ctx org d0 where g: "granted_by w rq es ''llm.keys.revoke'' ctx org d0" "ctx_sub ctx = Some (user_id (ad_user a))"
      using user[of "''llm.keys.revoke''" a] revokes(1,2) by auto
    obtain i where i: "pg_uuid (id_param w rq) = Some i" "i \<in> set (user_keys (as_db (meanwhile g t)) (user_id (ad_user a)))"
      "as_db t1 = update_keys (in_subtree i) (revoked_row (sg_pg g) (user_id (ad_user a))) (as_db (meanwhile g t))"
      by (rule revoke_key_Answer[OF revokes(4)], rule that) (auto simp: user_keys_def revoked_row_def [abs_def])
    show ?thesis using accounted.revoked[OF _ g i(1)] revokes(1) i(2,3) by simp
  next
    case (derives st x j)
    then show ?thesis using child by simp
  next
    case (half_derives j)
    then show ?thesis using child by simp
  next
    case (prices c v c' j)
    have token: "Require_internal_token \<in> ev_handler ` set pre" using passed[of Require_internal_token] prices(1) by simp
    have "as_db t1 = as_db (meanwhile g t) \<or>
        (\<exists>row. as_db t1 = (as_db (meanwhile g t))\<lparr>db_prices := db_prices (as_db (meanwhile g t)) @ [row]\<rparr> \<and>
           mp_created_by row = Some created_by_sync)"
      using post_price_appends prices(3) by blast
    then show ?thesis
      using accounted.nothing accounted.priced[of "event_of h g t t1"] prices(1) ok token unfolding guarded_state_def by auto
  next
    case (ingests sc)
    then show ?thesis by (simp add: accounted.ingested)
  qed
qed

section \<open>Whole requests\<close>

abbreviation chain_of :: "api_request \<Rightarrow> api_handler list" where
  "chain_of rq \<equiv> handler_chain api_routes (rq_verb rq) (segments (rq_path rq))"

lemma serve_api_events:
  assumes step: "\<And>pre h vs n t t1. chain_of rq = map ev_handler pre @ h # vs \<Longrightarrow> I pre t \<Longrightarrow>
      run_handler w rq (gs n) h (meanwhile (gs n) t) = (Passes, t1) \<Longrightarrow> I (pre @ [event_of h (gs n) t t1]) t1"
    and run: "serve_api w rq gs s = (out, s', es)" and I: "I [] (s\<lparr>as_admitted := None\<rparr>)" and e: "e \<in> set es"
  obtains xs vs m t t1 o1 where "I xs t" "chain_of rq = map ev_handler xs @ ev_handler e # vs" "set xs \<subseteq> set es"
    "run_handler w rq (gs m) (ev_handler e) (meanwhile (gs m) t) = (o1, t1)" "o1 = Passes \<or> o1 = out"
    "e = event_of (ev_handler e) (gs m) t t1"
proof -
  have "\<exists>xs vs m t t1 o1. I xs t \<and> chain_of rq = map ev_handler xs @ ev_handler e # vs \<and> set xs \<subseteq> set [] \<union> set es \<and>
      ev_stage e = gs m \<and> run_handler w rq (gs m) (ev_handler e) (meanwhile (gs m) t) = (o1, t1) \<and>
      (o1 = Passes \<or> o1 = out) \<and> ev_before e = as_db (meanwhile (gs m) t) \<and> ev_after e = as_db t1"
  proof (rule run_chain_events[where I = I and pre = "[]" and hs = "chain_of rq" and n = 0])
    show "run_chain w rq gs 0 (chain_of rq) (s\<lparr>as_admitted := None\<rparr>) = (out, s', es)"
      using run by (simp only: serve_api_def)
  qed (use step in blast, simp, rule I, rule e)
  then obtain xs vs m t t1 o1 where "I xs t" "chain_of rq = map ev_handler xs @ ev_handler e # vs" "set xs \<subseteq> set es"
    "run_handler w rq (gs m) (ev_handler e) (meanwhile (gs m) t) = (o1, t1)" "o1 = Passes \<or> o1 = out"
    "ev_stage e = gs m" "ev_before e = as_db (meanwhile (gs m) t)" "ev_after e = as_db t1"
    unfolding list.set Un_empty_left by (elim exE conjE)
  then show ?thesis using that[of xs t vs m o1 t1] by simp
qed

lemma serve_api_accounted:
  assumes run: "serve_api w rq gs s = (out, s', es)" and e: "e \<in> set es" and cache: "cache_sound (as_cache s)"
    and rest: "\<And>n c. cache_sound c \<Longrightarrow> cache_sound (sg_rest_cache (gs n) c)"
  shows "accounted w rq es e"
proof -
  have start: "guarded_state w rq [] (s\<lparr>as_admitted := None\<rparr>)" using cache by (simp add: guarded_state_def)
  obtain xs vs m t t1 o1 where *: "guarded_state w rq xs t" "chain_of rq = map ev_handler xs @ ev_handler e # vs" "set xs \<subseteq> set es"
    "run_handler w rq (gs m) (ev_handler e) (meanwhile (gs m) t) = (o1, t1)" "e = event_of (ev_handler e) (gs m) t t1"
    by (rule serve_api_events[where I = "guarded_state w rq", OF _ run start e]) (use guarded_step rest in blast)+
  then show ?thesis using handler_accounted[OF *(2,1,4,3) rest] *(5) by metis
qed

lemma serve_api_failed:
  assumes run: "serve_api w rq gs s = (out, s', es)" and e: "e \<in> set es" and st: "300 \<le> status_of out"
  shows "same_rows (ev_before e) (ev_after e) \<or> left_behind w rq (ev_stage e) (ev_handler e) (ev_before e) (ev_after e)"
proof -
  obtain m t t1 o1 where *: "run_handler w rq (gs m) (ev_handler e) (meanwhile (gs m) t) = (o1, t1)" "o1 = Passes \<or> o1 = out"
    "e = event_of (ev_handler e) (gs m) t t1"
    by (rule serve_api_events[where I = "\<lambda>_ _. True", OF _ run _ e]) blast+
  then have "same_rows (as_db (meanwhile (gs m) t)) (as_db t1) \<or>
      left_behind w rq (gs m) (ev_handler e) (as_db (meanwhile (gs m) t)) (as_db t1)"
    using handler_write_failed[OF run_handler_writes[OF *(1)]] st by auto
  then show ?thesis using *(3) by (metis api_event.select_convs(2,3,4))
qed

text \<open>The cache of admissions stays sound, so requests may follow one another.\<close>

lemma run_handler_cache:
  assumes "run_handler w rq g h s = (out, s')" "cache_sound (as_cache s)"
  shows "cache_sound (as_cache s')"
proof (cases "h = Require_auth")
  case True
  obtain r d cache where run: "auth_middleware (aw_services w) (sg_now g) (sg_later g) (sg_pg g) (sg_team_ids g) (sg_stop g) (as_db s) (as_cache s)
      (rq_authorization rq) (rq_authz rq) = (r, d, cache)" by (metis prod_cases3)
  then have "as_cache s' = cache"
    using assms(1) True by (auto simp: run_handler_def run_auth_def split: reply.splits auth_error.splits)
  then show ?thesis using auth_middleware_admission(1)[OF run assms(2)] by simp
next
  case False
  have "as_cache s' = as_cache s" if "with_user w s f = (out, s')" for f
    using that by (auto simp: with_user_def split: option.splits prod.splits)
  then have "as_cache s' = as_cache s"
    using assms(1) False
    by (cases h) (auto simp: run_handler_def run_price_list_def run_price_post_def split: prod.splits)
  then show ?thesis using assms(2) by simp
qed

lemma run_chain_cache:
  assumes "run_chain w rq gs n hs s = (out, s', es)" "cache_sound (as_cache s)"
    and rest: "\<And>n c. cache_sound c \<Longrightarrow> cache_sound (sg_rest_cache (gs n) c)"
  shows "cache_sound (as_cache s')"
  using assms(1,2)
proof (induction hs arbitrary: n s es)
  case (Cons h hs)
  obtain o1 s1 fs where h: "run_handler w rq (gs n) h (meanwhile (gs n) s) = (o1, s1)"
    and next_one: "o1 = Passes \<and> run_chain w rq gs (Suc n) hs s1 = (out, s', fs) \<or> o1 \<noteq> Passes \<and> o1 = out \<and> s' = s1 \<and> fs = []"
    using run_chain_Cons[OF Cons.prems(1)] by metis
  have "cache_sound (as_cache s1)" using run_handler_cache[OF h] Cons.prems(2) rest by (simp add: meanwhile_def)
  then show ?case using Cons.IH next_one by blast
qed simp

end
