(* ===== verification/Claims_Requests.thy ===== *)
theory Claims_Requests
  imports Request_Effects Claims_Tenants
begin

text \<open>
  Properties of whole requests of the api, with the rest of the system running in between: what
  they amount to, who their writes are by, and what is left of one that fails.
\<close>

section \<open>Example requests\<close>

definition ex_world :: api_world where
  "ex_world = \<lparr>aw_services = ex_services, aw_driver = ex_driver, aw_derive = ex_env, aw_sha256 = (\<lambda>b. b), aw_sign = ex_sign,
     aw_verify_jwt = ex_verify 1000, aw_internal_token = ''t'',
     aw_price = \<lparr>pv_models = [], pv_parse_date = (\<lambda>_. None), pv_rank = (\<lambda>_. 0), pv_driver = ex_driver\<rparr>,
     aw_read = ex_read_env, aw_decode = (\<lambda>s. s), aw_derive_text = (\<lambda>_. []), aw_userinfo_text = []\<rparr>"

definition ex_stage :: "uuid \<Rightarrow> js_time \<Rightarrow> pg_time \<Rightarrow> pg_time \<Rightarrow> api_stage" where
  "ex_stage i now pg pg' = \<lparr>sg_rest = (\<lambda>d. d), sg_rest_cache = (\<lambda>c. c), sg_now = now, sg_later = now, sg_pg = pg, sg_pg_later = pg',
     sg_id = i, sg_team_ids = (\<lambda>_. 5), sg_stop = None, sg_gap = Some (\<lambda>d. d), sg_random = [255], sg_pass = (\<lambda>d. ([], d)),
     sg_price = \<lparr>pm_id = i, pm_loaded = now, pm_now = now, pm_view = now, pm_pg_now = pg\<rparr>\<rparr>"

definition ex_state :: api_state where
  "ex_state = \<lparr>as_db = ex_db, as_cache = [], as_prices = None, as_admitted = None\<rparr>"

definition ex_derive_call :: api_request where
  "ex_derive_call = \<lparr>rq_verb = ''POST'', rq_path = ''/api/keys/derive'', rq_header = [''authorization'' \<mapsto> ex_header],
     rq_query = Map.empty, rq_body = None\<rparr>"

definition ex_mint_call :: api_request where
  "ex_mint_call = \<lparr>rq_verb = ''POST'', rq_path = ''/api/keys'',
     rq_header = [''authorization'' \<mapsto> ''bearer tok'', ''x-kamuhub-authz'' \<mapsto> ''ctx''], rq_query = Map.empty, rq_body = Some ex_body\<rparr>"

lemma ex_chains:
  "chain_of ex_derive_call = [Request_logger, Cors, Post_derive, Require_auth]"
  "chain_of ex_mint_call = [Request_logger, Cors, Require_auth, Require_auth, Require_grant ''llm.keys.create'', Post_key]"
  by (simp_all add: ex_derive_call_def ex_mint_call_def handler_chain_def api_route_defs route_matches_def)

section \<open>Requests are runs of transactions\<close>

text \<open>Property C6.  A whole request, whatever its route, its guards and its outcome, and whatever the rest
  of the system does between its handlers and between the two statements of a mint, amounts to a run
  of the transactions of the system, each statement that commits on its own one of them: so it keeps
  their invariant, also when it fails half way.\<close>

theorem request_runs_transactions:
  assumes "serve_api w rq gs s = (out, s', es)" "rest_runs gs" "fresh_ids es" "owner_ok (as_db s)"
  shows "owner_step\<^sup>*\<^sup>* (as_db s) (as_db s') \<and> owner_ok (as_db s')"
proof -
  have "owner_step\<^sup>*\<^sup>* (as_db s) (as_db s')"
    using run_chain_run[OF assms(1)[unfolded serve_api_def] assms(2,3)] assms(4) by simp
  then show ?thesis using budgeted.run_ok[OF _ assms(4)] by blast
qed

lemma ex_db_owner_ok: "owner_ok ex_db"
  using ex_keys_ok
  by (simp add: owner_ok_def ledger_ok_def over_budgets_ok_def ex_db_def ex_top_def usage_ids_def stored_spend_def spend_of_def
      charges_def billed_def or_else_def)

abbreviation ex_quiet :: "nat \<Rightarrow> api_stage" where
  "ex_quiet \<equiv> \<lambda>_. ex_stage 8 1000000 1000000000 1000000000"

lemma ex_stage_quiet [simp]: "meanwhile (ex_stage i now pg pg') s = s"
  by (simp add: meanwhile_def ex_stage_def)

lemma ex_run_derive:
  "run_derive ex_world ex_derive_call (ex_quiet n) ex_db =
     ((201, JObj [(''key'', derived_key_row ex_child),
         (''sub_key'', JStr ex_token)]),
      insert_key ex_db ex_child)"
  by (simp add: run_derive_def ex_world_def ex_stage_def ex_derive_call_def ex_derive derive_reply_def)

lemma ex_derive_served:
  "\<exists>body s' es. serve_api ex_world ex_derive_call ex_quiet ex_state = (Replies 201 body, s', es) \<and>
     as_db s' = insert_key ex_db ex_child \<and> fresh_ids es"
  unfolding serve_api_def ex_chains
  by (simp add: run_handler_def Let_def ex_state_def ex_run_derive replies_def fresh_ids_def)
    (simp add: ex_derive_call_def ex_stage_def fresh_key_def key_exists_def ex_db_def ex_top_def)

lemma ex_rest: "rest_runs ex_quiet"
  by (simp add: rest_runs_def ex_stage_def)

theorem request_runs_transactions_witness:
  "owner_step\<^sup>*\<^sup>* ex_db (insert_key ex_db ex_child) \<and> owner_ok (insert_key ex_db ex_child)"
proof -
  obtain body s' es where run: "serve_api ex_world ex_derive_call ex_quiet ex_state = (Replies 201 body, s', es)"
    and s': "as_db s' = insert_key ex_db ex_child" and fresh: "fresh_ids es" using ex_derive_served by blast
  have "owner_ok (as_db ex_state)" using ex_db_owner_ok by (simp add: ex_state_def)
  then show ?thesis using request_runs_transactions[OF run ex_rest fresh] s' by (simp add: ex_state_def)
qed

section \<open>Who the writes are by\<close>

text \<open>Property C4.  Every write of a request is accounted for: a key is minted in the name of the subject of the
  request's signed context, by a member of the key's team, with the grant looked up in that team's
  organisation, whether its second statement follows or not; a revocation names that subject and reaches a key it can see; a derived key hangs
  under the active key that was presented; a price row needs the service token and carries its
  name; an ingest pass is triggered by an accepted credential only; admission touches nothing but
  teams and memberships.  The admissions that the process caches stay those of their subjects.\<close>

theorem request_writes_accounted:
  assumes "serve_api w rq gs s = (out, s', es)" "cache_sound (as_cache s)"
    and "\<forall>n c. cache_sound c \<longrightarrow> cache_sound (sg_rest_cache (gs n) c)"
  shows "list_all (accounted w rq es) es \<and> cache_sound (as_cache s')"
proof -
  have "cache_sound (as_cache s')"
    using run_chain_cache[OF assms(1)[unfolded serve_api_def]] assms(2,3) by simp
  then show ?thesis using serve_api_accounted[OF assms(1) _ assms(2)] assms(3) by (simp add: list_all_iff)
qed

abbreviation ex_mint_stages :: "nat \<Rightarrow> api_stage" where
  "ex_mint_stages n \<equiv> (if n = 5 then ex_stage 9 0 5 6 else ex_stage 9 0 0 0)"

abbreviation ex_cached :: auth_cache where
  "ex_cached \<equiv> [(''tok'', \<lparr>ce_user = ex_user, ce_sub = ''u'', ce_exp = resync_ms\<rparr>)]"

lemma ex_auth_again:
  "auth_middleware ex_services 0 0 0 (\<lambda>_. 5) None ex_db2 ex_cached (Some ''bearer tok'') (Some ''ctx'') =
     (Answer 200 \<lparr>ad_user = ex_user, ad_context = None\<rparr>, ex_db2, ex_cached)"
  by (simp add: auth_middleware_def ex_bearer Let_def ex_services_def resync_ms_def) (simp add: ex_ctx_def)

definition ex_admitted :: api_state where
  "ex_admitted = \<lparr>as_db = ex_db2, as_cache = ex_cached, as_prices = None, as_admitted = Some \<lparr>ad_user = ex_user, ad_context = None\<rparr>\<rparr>"

definition ex_minted_db :: db where
  "ex_minted_db = set_root 6 9 (insert_key ex_db2 ex_new)"

lemma ex_mint_handlers:
  "run_auth ex_world ex_mint_call (ex_stage 9 0 0 0) ex_state = (Passes, ex_admitted)"
  "run_auth ex_world ex_mint_call (ex_stage 9 0 0 0) ex_admitted = (Passes, ex_admitted)"
  "run_grant ex_world ex_mint_call ''llm.keys.create'' ex_admitted = Passes"
  "run_mint ex_world ex_mint_call (ex_stage 9 0 5 6) ex_db2 ''u'' =
     (create_reply (rd_raised ex_read_env) (Answer 201 (ex_new\<lparr>key_root := Some 9\<rparr>, ''sk_live_ff'')), ex_minted_db)"
  "run_mint ex_world ex_mint_call ((ex_stage 9 0 5 6)\<lparr>sg_gap := None\<rparr>) ex_db2 ''u'' =
     (create_reply (rd_raised ex_read_env) (Failure 500 Sql_error), insert_key ex_db2 ex_new)"
proof -
  show "run_auth ex_world ex_mint_call (ex_stage 9 0 0 0) ex_state = (Passes, ex_admitted)"
    by (simp add: run_auth_def ex_world_def ex_mint_call_def ex_stage_def ex_state_def ex_auth ex_reconciled ex_admitted_def)
  show "run_auth ex_world ex_mint_call (ex_stage 9 0 0 0) ex_admitted = (Passes, ex_admitted)"
    by (simp add: run_auth_def ex_world_def ex_mint_call_def ex_stage_def ex_auth_again ex_admitted_def)
  have org: "team_org_id_from_create ex_driver ex_db2 (Some ex_body) = Inr (Some ''org'')"
    by (simp add: team_org_id_from_create_def ex_body_def field_of_def js_get_def js_truthy_def ex_driver_def Let_def
        team_org_def find_team_def ex_db2_def ex_db_def)
  show "run_grant ex_world ex_mint_call ''llm.keys.create'' ex_admitted = Passes"
    by (simp add: run_grant_def resolved_org_def ex_world_def ex_mint_call_def org require_grant_def grant_context_def ex_services_def ex_admitted_def)
      (simp add: ex_ctx_def)
  have "find_team ex_db2 1 \<noteq> None" "may_insert_key ex_db2 ''u'' ex_new"
    by (simp_all add: find_team_def may_insert_key_def user_teams_def ex_db2_def ex_db_def ex_new_def top_key_row_def)
  then show "run_mint ex_world ex_mint_call (ex_stage 9 0 5 6) ex_db2 ''u'' =
     (create_reply (rd_raised ex_read_env) (Answer 201 (ex_new\<lparr>key_root := Some 9\<rparr>, ''sk_live_ff'')), ex_minted_db)"
   "run_mint ex_world ex_mint_call ((ex_stage 9 0 5 6)\<lparr>sg_gap := None\<rparr>) ex_db2 ''u'' =
     (create_reply (rd_raised ex_read_env) (Failure 500 Sql_error), insert_key ex_db2 ex_new)"
    by (simp_all add: run_mint_def ex_world_def ex_mint_call_def ex_stage_def ex_create_on ex_minted_db_def)
qed

lemma ex_mint_user:
  "rq_verb ex_mint_call = ''POST''" "ex_state\<lparr>as_admitted := None\<rparr> = ex_state"
  "with_user ex_world ex_admitted f = (let (r, d) = f ''u'' in (replies r, ex_admitted\<lparr>as_db := d\<rparr>))"
  "as_db ex_admitted = ex_db2" "as_db ex_state = ex_db"
  by (simp_all add: ex_mint_call_def ex_state_def with_user_def ex_admitted_def ex_user_def)

lemma ex_mint_served:
  "\<exists>body s' es. serve_api ex_world ex_mint_call ex_mint_stages ex_state = (Replies 201 body, s', es) \<and>
     event_of Post_key (ex_stage 9 0 5 6) ex_admitted (ex_admitted\<lparr>as_db := ex_minted_db\<rparr>) \<in> set es"
  unfolding serve_api_def ex_chains ex_mint_user(2)
  by (simp add: run_handler_def Let_def ex_mint_handlers ex_mint_user(1,3,4,5) create_reply_def keys_reply_def replies_def)

text \<open>A key minted in the name of the subject of the signed context.\<close>

theorem request_writes_accounted_witness:
  "\<exists>out s' es. serve_api ex_world ex_mint_call ex_mint_stages ex_state = (out, s', es) \<and>
     accounted ex_world ex_mint_call es (event_of Post_key (ex_stage 9 0 5 6) ex_admitted (ex_admitted\<lparr>as_db := ex_minted_db\<rparr>)) \<and>
     ex_minted_db \<noteq> as_db ex_admitted"
proof -
  obtain body s' es where run: "serve_api ex_world ex_mint_call ex_mint_stages ex_state = (Replies 201 body, s', es)"
    and e: "event_of Post_key (ex_stage 9 0 5 6) ex_admitted (ex_admitted\<lparr>as_db := ex_minted_db\<rparr>) \<in> set es"
    using ex_mint_served by blast
  have "cache_sound (as_cache ex_state)" by (simp add: cache_sound_def ex_state_def)
  moreover have "\<forall>n c. cache_sound c \<longrightarrow> cache_sound (sg_rest_cache (ex_mint_stages n) c)" by (simp add: ex_stage_def)
  ultimately have "list_all (accounted ex_world ex_mint_call es) es" using request_writes_accounted[OF run] by blast
  moreover have "length (db_keys ex_minted_db) = Suc (length (db_keys (as_db ex_admitted)))"
    by (simp add: ex_minted_db_def ex_admitted_def insert_key_def set_root_def update_keys_def)
  then have "ex_minted_db \<noteq> as_db ex_admitted" by auto
  ultimately show ?thesis using run e by (metis list_all_iff)
qed

section \<open>Requests that fail\<close>

text \<open>Property C11.  A request that is answered with anything but success has written no key, no usage, no
  spend, no price and no setting, with three exceptions, each of a write that commits before the
  step that fails: a mint whose second statement fails leaves its row, active and without a root,
  whose secret no one has; a derive request whose token cannot be signed leaves its child; and the
  ingest pass that a key holder's request waited for keeps what it stored, once the credential was
  accepted.  Beside these only the memberships that its admission projected stay.\<close>

theorem failed_request_keeps_rows:
  assumes "serve_api w rq gs s = (out, s', es)" "300 \<le> status_of out"
  shows "list_all (\<lambda>e. same_rows (ev_before e) (ev_after e) \<or>
    (case ev_handler e of
       Post_key \<Rightarrow> sg_gap (ev_stage e) = None \<and> (\<exists>k. ev_after e = insert_key (ev_before e) k \<and>
         key_id k = sg_id (ev_stage e) \<and> key_kind k = Top \<and> key_status k = Active \<and> key_root k = None)
     | Post_derive \<Rightarrow> \<exists>p k. derive_parent (aw_sha256 w) (ev_before e) (rq_authorization rq) = Inr p \<and>
         ev_after e = insert_key (ev_before e) k \<and> key_id k = sg_id (ev_stage e) \<and> key_parent k = Some (key_id p) \<and>
         (\<exists>x. sign_sub_key_jwt (aw_sign w) (signing_kid (aw_derive w)) (child_payload p k) x
           (of_int (seconds (sg_later (ev_stage e)))) = None)
     | Get_key_usage \<Rightarrow> ev_after e = snd (sg_pass (ev_stage e) (ev_before e)) \<and>
         (\<exists>sc. verify_gateway_credential (aw_sha256 w) (aw_verify_jwt w) (sg_pg (ev_stage e)) (ev_before e)
            (extract_credential (rq_header rq)) = Inr (Some sc))
     | _ \<Rightarrow> False)) es"
  using serve_api_failed[OF assms(1) _ assms(2)] unfolding list_all_iff left_behind_def by blast

abbreviation ex_cut_short :: "nat \<Rightarrow> api_stage" where
  "ex_cut_short n \<equiv> (if n = 5 then (ex_stage 9 0 5 6)\<lparr>sg_gap := None\<rparr> else ex_stage 9 0 0 0)"

lemma ex_mint_fails:
  "\<exists>body s' es. serve_api ex_world ex_mint_call ex_cut_short ex_state = (Replies 500 body, s', es) \<and>
     event_of Post_key ((ex_stage 9 0 5 6)\<lparr>sg_gap := None\<rparr>) ex_admitted (ex_admitted\<lparr>as_db := insert_key ex_db2 ex_new\<rparr>) \<in> set es"
proof -
  have quiet: "meanwhile ((ex_stage 9 0 5 6)\<lparr>sg_gap := None\<rparr>) s = s" for s by (simp add: meanwhile_def ex_stage_def)
  show ?thesis
    unfolding serve_api_def ex_chains ex_mint_user(2)
    by (simp add: run_handler_def Let_def ex_mint_handlers ex_mint_user(1,3,4,5) quiet create_reply_def keys_reply_def
        replies_def on_error_def)
qed

text \<open>A mint that fails half way: the answer is an error, and the row without a root stays.\<close>

theorem failed_request_keeps_rows_witness:
  "\<exists>body s' es e. serve_api ex_world ex_mint_call ex_cut_short ex_state = (Replies 500 body, s', es) \<and> e \<in> set es \<and>
     ev_handler e = Post_key \<and> (\<exists>k. ev_after e = insert_key (ev_before e) k \<and> key_status k = Active \<and> key_root k = None)"
proof -
  let ?e = "event_of Post_key ((ex_stage 9 0 5 6)\<lparr>sg_gap := None\<rparr>) ex_admitted (ex_admitted\<lparr>as_db := insert_key ex_db2 ex_new\<rparr>)"
  obtain body s' es where run: "serve_api ex_world ex_mint_call ex_cut_short ex_state = (Replies 500 body, s', es)" and e: "?e \<in> set es"
    using ex_mint_fails by blast
  have "\<not> same_rows (ev_before ?e) (ev_after ?e)"
    by (simp add: same_rows_def insert_key_def meanwhile_def ex_stage_def ex_mint_user(4))
  with failed_request_keeps_rows[OF run] e
  have "\<exists>k. ev_after ?e = insert_key (ev_before ?e) k \<and> key_status k = Active \<and> key_root k = None"
    unfolding list_all_iff by fastforce
  then show ?thesis using run e by (intro exI[of _ body] exI[of _ s'] exI[of _ es] exI[of _ ?e]) simp
qed

end
