(* ===== verification/Migrations.thy ===== *)
theory Migrations
  imports Key_Material "HOL-Library.List_Lexorder" "HOL-Library.Char_ord"
begin

text \<open>
  The migration runner, \<open>database/migrate.ts\<close>: \<open>up\<close> with its integrity check and hash
  backfill, \<open>down\<close>, \<open>reset\<close> and \<open>seed\<close>.  What a SQL file does is the parameter \<open>run\<close> on
  an abstract schema; \<open>None\<close> is a statement that fails and rolls its transaction back.
\<close>

section \<open>State\<close>

record migration =
  mg_filename :: string
  mg_content :: string

text \<open>\<open>migrations.schema_migrations\<close> with its nullable hash, and everything else in the
  database.\<close>

record 's mig_state =
  ms_applied :: "(string \<times> string option) list"
  ms_schema :: 's

datatype mig_error =
    Modified "string list"
  | Migration_failed string
  | No_down_file string
  | Not_local
  | Seed_missing
  | Seed_failed
  | Seed_not_a_path

text \<open>The runner's surroundings: SHA-256, the order of \<open>localeCompare\<close>, and the effect of a
  migration file, run in the migration role, and of a seed file, run in the login role.\<close>

record 's mig_env =
  me_sha256 :: "bytes \<Rightarrow> bytes"
  me_locale :: "string \<Rightarrow> int"
  me_run :: "string \<Rightarrow> 's \<Rightarrow> 's option"
  me_seed :: "string \<Rightarrow> 's \<Rightarrow> 's option"

definition compute_hash :: "'s mig_env \<Rightarrow> string \<Rightarrow> string" where
  "compute_hash env content = bytes_hex (me_sha256 env (text_encode content))"

definition get_applied :: "'s mig_state \<Rightarrow> string list" where
  "get_applied st = map fst (ms_applied st)"

text \<open>The directory is the list of its files; entries of one direction, sorted by name.\<close>

definition read_migrations :: "'s mig_env \<Rightarrow> string \<Rightarrow> migration list \<Rightarrow> migration list" where
  "read_migrations env direction dir =
     sort_key (\<lambda>m. me_locale env (mg_filename m))
       (filter (\<lambda>m. ends_with (''.'' @ direction @ ''.sql'') (mg_filename m)) dir)"

definition file_named :: "migration list \<Rightarrow> string \<Rightarrow> migration option" where
  "file_named ms name = find (\<lambda>m. mg_filename m = name) ms"

section \<open>Integrity\<close>

definition modified_files :: "'s mig_env \<Rightarrow> migration list \<Rightarrow> 's mig_state \<Rightarrow> string list" where
  "modified_files env ms st =
     map fst (filter (\<lambda>(name, h).
         case h of
           None \<Rightarrow> False
         | Some h \<Rightarrow> h \<noteq> [] \<and> (case file_named ms name of None \<Rightarrow> False | Some m \<Rightarrow> compute_hash env (mg_content m) \<noteq> h))
       (ms_applied st))"

definition backfill_hashes :: "'s mig_env \<Rightarrow> migration list \<Rightarrow> 's mig_state \<Rightarrow> 's mig_state" where
  "backfill_hashes env ms st =
     st\<lparr>ms_applied := map (\<lambda>(name, h).
         (name, case h of
                  Some _ \<Rightarrow> h
                | None \<Rightarrow> map_option (\<lambda>m. compute_hash env (mg_content m)) (file_named ms name)))
       (ms_applied st)\<rparr>"

section \<open>Up\<close>

text \<open>Each migration in its own transaction: its statements and the bookkeeping row, which
  has the file name as its primary key.\<close>

definition apply_one :: "'s mig_env \<Rightarrow> migration \<Rightarrow> 's mig_state \<Rightarrow> 's mig_state option" where
  "apply_one env m st =
     (if mg_filename m \<in> set (get_applied st) then None
      else map_option (\<lambda>s. st\<lparr>ms_schema := s,
               ms_applied := ms_applied st @ [(mg_filename m, Some (compute_hash env (mg_content m)))]\<rparr>)
             (me_run env (mg_content m) (ms_schema st)))"

fun apply_all :: "'s mig_env \<Rightarrow> migration list \<Rightarrow> 's mig_state \<Rightarrow> mig_error option \<times> 's mig_state" where
  "apply_all env [] st = (None, st)"
| "apply_all env (m # ms) st =
     (case apply_one env m st of
        None \<Rightarrow> (Some (Migration_failed (mg_filename m)), st)
      | Some st' \<Rightarrow> apply_all env ms st')"

definition mig_up :: "'s mig_env \<Rightarrow> migration list \<Rightarrow> 's mig_state \<Rightarrow> mig_error option \<times> 's mig_state" where
  "mig_up env dir st =
     (let ms = read_migrations env ''up'' dir; applied = get_applied st
      in if modified_files env ms st \<noteq> [] then (Some (Modified (modified_files env ms st)), st)
         else apply_all env (filter (\<lambda>m. mg_filename m \<notin> set applied) ms) (backfill_hashes env ms st))"

section \<open>Down, seed and reset\<close>

fun replace_first :: "string \<Rightarrow> string \<Rightarrow> string" where
  "replace_first p [] = []"
| "replace_first p (c # s) = (if starts_with p (c # s) then drop (length p) (c # s) else c # replace_first p s)"

definition down_name :: "string \<Rightarrow> string" where
  "down_name applied = replace_first ''.up.sql'' applied @ ''.down.sql''"

text \<open>The last applied file in code unit order, unlike the order of \<open>up\<close>.\<close>

definition mig_down :: "'s mig_env \<Rightarrow> migration list \<Rightarrow> 's mig_state \<Rightarrow> mig_error option \<times> 's mig_state" where
  "mig_down env dir st =
     (if get_applied st = [] then (None, st)
      else
        (let last = Max (set (get_applied st))
         in case file_named (read_migrations env ''down'' dir) (down_name last) of
              None \<Rightarrow> (Some (No_down_file (down_name last)), st)
            | Some m \<Rightarrow>
                (case me_run env (mg_content m) (ms_schema st) of
                   None \<Rightarrow> (Some (Migration_failed (mg_filename m)), st)
                 | Some s \<Rightarrow> (None, st\<lparr>ms_schema := s,
                       ms_applied := filter (\<lambda>(name, _). name \<noteq> last) (ms_applied st)\<rparr>))))"

definition mig_seed :: "'s mig_env \<Rightarrow> string option \<Rightarrow> 's mig_state \<Rightarrow> mig_error option \<times> 's mig_state" where
  "mig_seed env content st =
     (case content of
        None \<Rightarrow> (Some Seed_missing, st)
      | Some c \<Rightarrow>
          (case me_seed env c (ms_schema st) of
             None \<Rightarrow> (Some Seed_failed, st)
           | Some s \<Rightarrow> (None, st\<lparr>ms_schema := s\<rparr>)))"

text \<open>\<open>dropped\<close> is the schema after the two \<open>DROP SCHEMA\<close> statements.\<close>

definition mig_reset ::
  "'s mig_env \<Rightarrow> ('s \<Rightarrow> 's) \<Rightarrow> string \<Rightarrow> bool \<Rightarrow> string option \<Rightarrow> migration list \<Rightarrow> 's mig_state \<Rightarrow>
     mig_error option \<times> 's mig_state" where
  "mig_reset env dropped url seed seed_file dir st =
     (if \<not> contains ''localhost'' url \<and> \<not> contains ''127.0.0.1'' url then (Some Not_local, st)
      else case mig_up env dir \<lparr>ms_applied = [], ms_schema = dropped (ms_schema st)\<rparr> of
             (Some e, st') \<Rightarrow> (Some e, st')
           | (None, st') \<Rightarrow> if seed then mig_seed env seed_file st' else (None, st'))"

section \<open>The command line\<close>

text \<open>\<open>parseArgs\<close> is a library: the model starts from its result, where a positional argument
  is text or, when it reads as one, a number.\<close>

datatype cli_word = Word string | Numeric js_num

record cli_args =
  ca_dir :: string
  ca_seed :: bool
  ca_words :: "cli_word list"

datatype command = Up | Down | Reset | Seed

datatype mig_outcome =
    Usage_shown
  | Url_required
  | Invalid_role string
  | Ran "mig_error option"

definition command_of :: "cli_word list \<Rightarrow> command option" where
  "command_of ws =
     (case ws of
        Word w # _ \<Rightarrow>
          if w = ''up'' then Some Up else if w = ''down'' then Some Down
          else if w = ''reset'' then Some Reset else if w = ''seed'' then Some Seed else None
      | _ \<Rightarrow> None)"

text \<open>\<open>??\<close>: an empty \<open>DATABASE_URL\<close> is kept, and then refused.\<close>

definition database_url :: "(string \<Rightarrow> string option) \<Rightarrow> string option" where
  "database_url env_var =
     (case (case env_var ''DATABASE_URL'' of None \<Rightarrow> env_var ''BYPASSRLS_DATABASE_URL'' | url \<Rightarrow> url) of
        None \<Rightarrow> None
      | Some u \<Rightarrow> if u = [] then None else Some u)"

text \<open>\<open>/^[a-z_][a-z0-9_]*$/\<close>: the role is spliced into \<open>SET ROLE\<close> without quotes.\<close>

definition role_start :: "char \<Rightarrow> bool" where
  "role_start c = ((97 \<le> (of_char c :: nat) \<and> (of_char c :: nat) \<le> 122) \<or> c = CHR ''_'')"

definition role_char :: "char \<Rightarrow> bool" where
  "role_char c = (role_start c \<or> (48 \<le> (of_char c :: nat) \<and> (of_char c :: nat) \<le> 57))"

definition valid_role :: "string \<Rightarrow> bool" where
  "valid_role r = (case r of [] \<Rightarrow> False | c # cs \<Rightarrow> role_start c \<and> list_all role_char cs)"

definition migrate_role :: "(string \<Rightarrow> string option) \<Rightarrow> string" where
  "migrate_role env_var = or_else (env_var ''MIGRATE_ROLE'') ''postgres''"

definition seed_path :: "cli_word list \<Rightarrow> string option" where
  "seed_path ws = (case ws of _ # Word f # _ \<Rightarrow> Some f | _ # Numeric _ # _ \<Rightarrow> None | _ \<Rightarrow> Some ''seeds/development.sql'')"

text \<open>The whole run: \<open>envs\<close> by role, \<open>dirs\<close> the directories, \<open>files\<close> the texts of files.\<close>

definition migrate_main ::
  "(string \<Rightarrow> 's mig_env) \<Rightarrow> (string \<Rightarrow> migration list) \<Rightarrow> (string \<Rightarrow> string option) \<Rightarrow> ('s \<Rightarrow> 's) \<Rightarrow>
     cli_args \<Rightarrow> (string \<Rightarrow> string option) \<Rightarrow> 's mig_state \<Rightarrow> mig_outcome \<times> 's mig_state" where
  "migrate_main envs dirs files dropped args env_var st =
     (case command_of (ca_words args) of None \<Rightarrow> (Usage_shown, st) | Some cmd \<Rightarrow>
      case database_url env_var of None \<Rightarrow> (Url_required, st) | Some url \<Rightarrow>
      let role = migrate_role env_var; env = envs role; dir = dirs (ca_dir args) in
      if \<not> valid_role role then (Invalid_role role, st)
      else map_prod Ran id
        (case cmd of
           Up \<Rightarrow> mig_up env dir st
         | Down \<Rightarrow> mig_down env dir st
         | Seed \<Rightarrow>
             (case seed_path (ca_words args) of
                None \<Rightarrow> (Some Seed_not_a_path, st)
              | Some f \<Rightarrow> mig_seed env (files f) st)
         | Reset \<Rightarrow> mig_reset env dropped url (ca_seed args) (files ''seeds/development.sql'') dir st))"

definition exit_code :: "mig_outcome \<Rightarrow> nat" where
  "exit_code r = (if r = Ran None then 0 else 1)"

text \<open>Nothing that could end the identifier gets into \<open>SET ROLE\<close>.\<close>

lemma valid_role_chars:
  assumes "valid_role r" "c \<in> set r"
  shows "(97 \<le> (of_char c :: nat) \<and> (of_char c :: nat) \<le> 122) \<or> c = CHR ''_'' \<or> (48 \<le> (of_char c :: nat) \<and> (of_char c :: nat) \<le> 57)"
  using assms by (auto simp: valid_role_def role_char_def role_start_def list_all_iff split: list.splits)

text \<open>A run that changed anything passed every check.\<close>

lemma migrate_main_changed:
  assumes "migrate_main envs dirs files dropped args env_var st = (out, st')" "st' \<noteq> st"
  shows "\<exists>cmd url. command_of (ca_words args) = Some cmd \<and> database_url env_var = Some url \<and>
    valid_role (migrate_role env_var) \<and>
    (cmd = Reset \<longrightarrow> contains ''localhost'' url \<or> contains ''127.0.0.1'' url)"
  using assms
  by (auto simp: migrate_main_def mig_reset_def Let_def split: option.splits if_splits command.splits)

text \<open>The locality check of \<open>reset\<close> looks for the two names anywhere in the URL.\<close>

lemma contains_append: "contains p s \<Longrightarrow> contains p (t @ s)"
  by (induction t) auto

lemma reset_guard_is_substring:
  assumes "contains ''localhost'' database"
  shows "fst (mig_reset env dropped (''postgres://u:p@db.example.com/'' @ database) False seed_file dir st) \<noteq> Some Not_local"
proof -
  have "contains ''localhost'' (''postgres://u:p@db.example.com/'' @ database)" by (rule contains_append[OF assms])
  moreover have "fst (apply_all env ms s) \<noteq> Some Not_local" for ms s
    by (induction ms arbitrary: s) (auto split: option.splits)
  then have "fst (mig_up env dir s) \<noteq> Some Not_local" for s by (simp add: mig_up_def Let_def)
  ultimately show ?thesis by (auto simp: mig_reset_def split: option.splits prod.splits) (metis fst_conv)+
qed

section \<open>What an upgrade leaves behind\<close>

lemma apply_one_Some:
  assumes "apply_one env m st = Some st'"
  shows "mg_filename m \<notin> set (get_applied st)" "get_applied st' = get_applied st @ [mg_filename m]"
    "me_run env (mg_content m) (ms_schema st) = Some (ms_schema st')"
    "ms_applied st' = ms_applied st @ [(mg_filename m, Some (compute_hash env (mg_content m)))]"
  using assms by (auto simp: apply_one_def get_applied_def split: if_splits)

fun run_all :: "'s mig_env \<Rightarrow> migration list \<Rightarrow> 's \<Rightarrow> 's option" where
  "run_all env [] s = Some s"
| "run_all env (m # ms) s = (case me_run env (mg_content m) s of None \<Rightarrow> None | Some s' \<Rightarrow> run_all env ms s')"

lemma apply_all_ok:
  assumes "apply_all env ms st = (None, st')"
  shows "get_applied st' = get_applied st @ map mg_filename ms" "run_all env ms (ms_schema st) = Some (ms_schema st')"
    "ms_applied st' = ms_applied st @ map (\<lambda>m. (mg_filename m, Some (compute_hash env (mg_content m)))) ms"
proof -
  have "get_applied st' = get_applied st @ map mg_filename ms \<and> run_all env ms (ms_schema st) = Some (ms_schema st') \<and>
    ms_applied st' = ms_applied st @ map (\<lambda>m. (mg_filename m, Some (compute_hash env (mg_content m)))) ms"
    using assms
  proof (induction ms arbitrary: st)
    case (Cons m ms)
    then obtain st1 where st1: "apply_one env m st = Some st1" "apply_all env ms st1 = (None, st')"
      by (auto split: option.splits)
    show ?case using Cons.IH[OF st1(2)] apply_one_Some[OF st1(1)] by simp
  qed simp
  then show "get_applied st' = get_applied st @ map mg_filename ms" "run_all env ms (ms_schema st) = Some (ms_schema st')"
    "ms_applied st' = ms_applied st @ map (\<lambda>m. (mg_filename m, Some (compute_hash env (mg_content m)))) ms"
    by simp_all
qed

text \<open>A failing file leaves exactly the files before it applied.\<close>

lemma apply_all_stops:
  assumes "apply_all env ms st = (Some e, st')"
  shows "\<exists>done m rest. ms = done @ m # rest \<and> e = Migration_failed (mg_filename m) \<and>
    apply_all env done st = (None, st') \<and> apply_one env m st' = None"
  using assms
proof (induction ms arbitrary: st)
  case (Cons m ms)
  show ?case
  proof (cases "apply_one env m st")
    case None
    then show ?thesis using Cons.prems by (intro exI[of _ "[]"] exI[of _ m] exI[of _ ms]) simp
  next
    case (Some st1)
    then obtain xs x rest where "ms = xs @ x # rest" "e = Migration_failed (mg_filename x)"
      "apply_all env xs st1 = (None, st')" "apply_one env x st' = None"
      using Cons.IH[of st1] Cons.prems by auto
    then show ?thesis using Some by (intro exI[of _ "m # xs"] exI[of _ x] exI[of _ rest]) simp
  qed
qed simp

lemma backfill_simps [simp]:
  "get_applied (backfill_hashes env ms st) = get_applied st" "ms_schema (backfill_hashes env ms st) = ms_schema st"
  by (simp_all add: backfill_hashes_def get_applied_def split_beta comp_def)

lemma set_read_migrations [simp]:
  "set (read_migrations env direction dir) = {m \<in> set dir. ends_with (''.'' @ direction @ ''.sql'') (mg_filename m)}"
  by (simp add: read_migrations_def)

lemma file_named_distinct:
  assumes "distinct (map mg_filename ms)" "m \<in> set ms"
  shows "file_named ms (mg_filename m) = Some m"
proof -
  obtain x where x: "find (\<lambda>x. mg_filename x = mg_filename m) ms = Some x"
    using find_ex[of m ms "\<lambda>x. mg_filename x = mg_filename m"] assms(2) by blast
  then have "x \<in> set ms \<and> mg_filename x = mg_filename m" by (rule find_SomeD)
  then show ?thesis using x distinct_map_unique[OF assms(1)] assms(2) unfolding file_named_def by metis
qed

lemma distinct_read_migrations:
  "distinct (map mg_filename dir) \<Longrightarrow> distinct (map mg_filename (read_migrations env direction dir))"
  unfolding read_migrations_def distinct_map by (simp add: inj_on_def)

text \<open>The pending files of a run, and what a successful run makes of the state.\<close>

definition pending_files :: "'s mig_env \<Rightarrow> migration list \<Rightarrow> 's mig_state \<Rightarrow> migration list" where
  "pending_files env dir st =
     filter (\<lambda>m. mg_filename m \<notin> set (get_applied st)) (read_migrations env ''up'' dir)"

lemma mig_up_ok:
  assumes "mig_up env dir st = (None, st')"
  shows "modified_files env (read_migrations env ''up'' dir) st = []"
    "get_applied st' = get_applied st @ map mg_filename (pending_files env dir st)"
    "run_all env (pending_files env dir st) (ms_schema st) = Some (ms_schema st')"
    "ms_applied st' = ms_applied (backfill_hashes env (read_migrations env ''up'' dir) st) @
       map (\<lambda>m. (mg_filename m, Some (compute_hash env (mg_content m)))) (pending_files env dir st)"
proof -
  have clean: "modified_files env (read_migrations env ''up'' dir) st = []"
    and run: "apply_all env (pending_files env dir st) (backfill_hashes env (read_migrations env ''up'' dir) st) = (None, st')"
    using assms by (auto simp: mig_up_def Let_def pending_files_def split: if_splits)
  show "modified_files env (read_migrations env ''up'' dir) st = []" by (rule clean)
  show "get_applied st' = get_applied st @ map mg_filename (pending_files env dir st)"
    "run_all env (pending_files env dir st) (ms_schema st) = Some (ms_schema st')"
    "ms_applied st' = ms_applied (backfill_hashes env (read_migrations env ''up'' dir) st) @
       map (\<lambda>m. (mg_filename m, Some (compute_hash env (mg_content m)))) (pending_files env dir st)"
    using apply_all_ok[OF run] by simp_all
qed

lemma pending_after: "mig_up env dir st = (None, st') \<Longrightarrow> pending_files env dir st' = []"
  using mig_up_ok(2)[of env dir st st'] by (auto simp: pending_files_def filter_empty_conv)

text \<open>A second run finds nothing to do.\<close>

lemma mig_up_again:
  assumes names: "distinct (map mg_filename dir)" and up: "mig_up env dir st = (None, st')"
  shows "mig_up env dir st' = (None, st')"
proof -
  let ?ms = "read_migrations env ''up'' dir"
  note * = mig_up_ok[OF up]
  have hash: "file_named ?ms (mg_filename m) = Some m" if "m \<in> set (pending_files env dir st)" for m
    using that by (intro file_named_distinct distinct_read_migrations[OF names]) (simp add: pending_files_def)
  have rows: "h = Some (compute_hash env (mg_content m)) \<or> h = Some []"
    if row: "(name, h) \<in> set (ms_applied st')" and m: "file_named ?ms name = Some m" for name h m
  proof -
    consider (old) h0 where "(name, h0) \<in> set (ms_applied st)"
        "h = (case h0 of Some _ \<Rightarrow> h0 | None \<Rightarrow> Some (compute_hash env (mg_content m)))"
      | (new) k where "k \<in> set (pending_files env dir st)" "name = mg_filename k" "h = Some (compute_hash env (mg_content k))"
      using row m unfolding *(4) by (auto simp: backfill_hashes_def split: option.splits)
    then show ?thesis
    proof cases
      case old
      then show ?thesis
        using *(1) m by (auto simp: modified_files_def filter_empty_conv split: option.splits)
    next
      case new
      then show ?thesis using hash[OF new(1)] m by simp
    qed
  qed
  have "modified_files env ?ms st' = []"
    using rows by (fastforce simp: modified_files_def filter_empty_conv split: option.splits)
  moreover have "(name, case h of Some _ \<Rightarrow> h | None \<Rightarrow> map_option (\<lambda>m. compute_hash env (mg_content m)) (file_named ?ms name)) = (name, h)"
    if "(name, h) \<in> set (ms_applied st')" for name h
    using rows[OF that] by (cases h; cases "file_named ?ms name") auto
  then have "map (\<lambda>(name, h). (name, case h of Some _ \<Rightarrow> h
      | None \<Rightarrow> map_option (\<lambda>m. compute_hash env (mg_content m)) (file_named ?ms name))) (ms_applied st') = ms_applied st'"
    by (intro map_idI) auto
  then have "backfill_hashes env ?ms st' = st'" by (simp add: backfill_hashes_def)
  ultimately show ?thesis
    using pending_after[OF up] by (simp add: mig_up_def Let_def pending_files_def)
qed

text \<open>A changed file stops the runner before anything happens.\<close>

lemma mig_up_modified:
  assumes "(mg_filename m, Some h) \<in> set (ms_applied st)" "h \<noteq> []" "m \<in> set dir"
    and "ends_with ''.up.sql'' (mg_filename m)" "distinct (map mg_filename dir)"
    and "compute_hash env (mg_content m) \<noteq> h"
  shows "\<exists>names. mig_up env dir st = (Some (Modified names), st) \<and> mg_filename m \<in> set names"
proof -
  let ?ms = "read_migrations env ''up'' dir"
  have "file_named ?ms (mg_filename m) = Some m"
    using assms(3,4) by (intro file_named_distinct distinct_read_migrations[OF assms(5)]) simp
  then have "mg_filename m \<in> set (modified_files env ?ms st)"
    using assms(1,2,6) by (force simp: modified_files_def)
  then show ?thesis by (auto simp: mig_up_def Let_def)
qed

text \<open>After a failure the files already applied stay, the failing one is repaired, and the next
  run continues there: together the two runs do what one run of the repaired files would.\<close>

lemma run_all_append:
  "run_all env (xs @ ys) s = (case run_all env xs s of None \<Rightarrow> None | Some s' \<Rightarrow> run_all env ys s')"
  by (induction xs arbitrary: s) (auto split: option.splits)

lemma pending_names:
  assumes "map mg_filename (read_migrations env ''up'' dir') = map mg_filename (read_migrations env ''up'' dir)"
  shows "map mg_filename (pending_files env dir' st) = map mg_filename (pending_files env dir st)"
  using arg_cong[OF assms, of "filter (\<lambda>n. n \<notin> set (get_applied st))"]
  by (simp add: pending_files_def filter_map comp_def)

lemma mig_up_resumes:
  assumes names: "distinct (map mg_filename dir)" "distinct (map mg_filename dir')"
    and first: "mig_up env dir st = (Some (Migration_failed f), st1)"
    and second: "mig_up env dir' st1 = (None, st2)"
    and order: "map mg_filename (read_migrations env ''up'' dir') = map mg_filename (read_migrations env ''up'' dir)"
    and kept: "\<And>m. m \<in> set dir \<Longrightarrow> mg_filename m \<in> set (get_applied st1) \<Longrightarrow> m \<in> set dir'"
  shows "run_all env (pending_files env dir' st) (ms_schema st) = Some (ms_schema st2)"
    "get_applied st2 = get_applied st @ map mg_filename (pending_files env dir' st)"
proof -
  let ?p = "pending_files env dir st" and ?q = "pending_files env dir' st"
  have "apply_all env ?p (backfill_hashes env (read_migrations env ''up'' dir) st) = (Some (Migration_failed f), st1)"
    using first by (auto simp: mig_up_def Let_def pending_files_def split: if_splits)
  from apply_all_stops[OF this] obtain xs m rest where p: "?p = xs @ m # rest"
    "apply_all env xs (backfill_hashes env (read_migrations env ''up'' dir) st) = (None, st1)" by blast
  note * = apply_all_ok[OF p(2), simplified]
  define n where "n = length xs"
  have q_names: "map mg_filename ?q = map mg_filename xs @ map mg_filename (m # rest)"
    using pending_names[OF order, of st] p(1) by simp
  have take: "map mg_filename (take n ?q) = map mg_filename xs"
    using arg_cong[OF q_names, of "take n"] by (simp add: take_map n_def)
  have drop: "map mg_filename (drop n ?q) = map mg_filename (m # rest)"
    using arg_cong[OF q_names, of "drop n"] by (simp add: drop_map n_def)
  have inj: "inj_on mg_filename (set dir')" using names(2) by (simp add: distinct_map)
  have "set xs \<subseteq> set dir'"
  proof
    fix x assume x: "x \<in> set xs"
    then have "x \<in> set ?p" unfolding p(1) by simp
    then have "x \<in> set dir" by (simp add: pending_files_def)
    then show "x \<in> set dir'" using kept x *(1) by auto
  qed
  moreover have "set (take n ?q) \<subseteq> set dir'" using set_take_subset[of n ?q] by (auto simp: pending_files_def)
  ultimately have same: "take n ?q = xs"
    by (intro map_inj_on[OF take] inj_on_subset[OF inj]) blast
  then have q: "?q = xs @ drop n ?q" by (metis append_take_drop_id)
  have "distinct (map mg_filename ?q)"
    using distinct_read_migrations[OF names(2), of env "''up''"] unfolding pending_files_def by (rule List.distinct_map_filter)
  then have disj: "mg_filename k \<notin> mg_filename ` set xs" if "k \<in> set (drop n ?q)" for k
    using that by (subst (asm) q) auto
  have "pending_files env dir' st1 = filter (\<lambda>k. mg_filename k \<notin> mg_filename ` set xs) ?q"
    by (simp add: pending_files_def *(1) conj_ac cong: filter_cong)
  also have "\<dots> = drop n ?q"
    by (subst (1) q) (use disj in \<open>auto simp: filter_empty_conv filter_id_conv\<close>)
  finally have rest: "pending_files env dir' st1 = drop n ?q" .
  note ** = mig_up_ok[OF second, unfolded rest]
  show "run_all env ?q (ms_schema st) = Some (ms_schema st2)"
    by (subst q) (use **(3) *(2) in \<open>simp add: run_all_append\<close>)
  have "map mg_filename ?q = map mg_filename xs @ map mg_filename (drop n ?q)"
    by (subst q) simp
  then show "get_applied st2 = get_applied st @ map mg_filename ?q"
    unfolding **(2) *(1) by simp
qed

text \<open>Rolling back the file just applied restores the state, if the down file undoes it.\<close>

lemma mig_down_undoes:
  assumes up: "mig_up env dir st = (None, st')" and one: "pending_files env dir st = [m]"
    and newest: "\<forall>name\<in>set (get_applied st). name < mg_filename m"
    and down: "file_named (read_migrations env ''down'' dir) (down_name (mg_filename m)) = Some md"
    and inverse: "\<And>s s'. me_run env (mg_content m) s = Some s' \<Longrightarrow> me_run env (mg_content md) s' = Some s"
  shows "\<exists>st''. mig_down env dir st' = (None, st'') \<and> ms_schema st'' = ms_schema st \<and> get_applied st'' = get_applied st"
proof -
  note * = mig_up_ok[OF up, unfolded one]
  have applied: "get_applied st' = get_applied st @ [mg_filename m]" using *(2) by simp
  have last_one: "Max (set (get_applied st')) = mg_filename m"
    by (rule Max_eqI) (use newest in \<open>auto simp: applied\<close>)
  have "me_run env (mg_content m) (ms_schema st) = Some (ms_schema st')"
    using *(3) by (auto split: option.splits)
  then have undone: "me_run env (mg_content md) (ms_schema st') = Some (ms_schema st)" by (rule inverse)
  have left: "map fst (filter (\<lambda>(name, _). name \<noteq> mg_filename m) (ms_applied st')) = get_applied st"
  proof -
    have "map fst (filter (\<lambda>(name, _). name \<noteq> mg_filename m) (ms_applied st')) =
        filter (\<lambda>name. name \<noteq> mg_filename m) (get_applied st')"
      by (simp add: get_applied_def filter_map comp_def case_prod_unfold)
    also have "\<dots> = get_applied st" using newest by (auto simp: applied filter_id_conv)
    finally show ?thesis .
  qed
  have "get_applied st' \<noteq> []" using applied by simp
  then have "mig_down env dir st' = (None, st'\<lparr>ms_schema := ms_schema st,
      ms_applied := filter (\<lambda>(name, _). name \<noteq> mg_filename m) (ms_applied st')\<rparr>)"
    by (simp add: mig_down_def Let_def last_one down undone)
  then show ?thesis using left by (simp add: get_applied_def)
qed

end
