(* ===== verification/Admin_App.thy ===== *)
theory Admin_App
  imports Admin_Views Api_App
begin

text \<open>
  The admin app around its handlers (\<open>admin/src/main.ts\<close> and the routers it mounts): the table
  of its routes, with the session gate as their guard, and what its pages offer.
\<close>

section \<open>Routes\<close>

datatype admin_handler =
    Require_session | Admin_health | Better_auth | Show_login | Do_login | Do_logout
  | Show_usage | List_usage | Show_keys | Mint_key | Revoke_key | List_keys | Mint_key_json | Revoke_key_json
  | Show_settings | Save_settings | List_settings | Show_prices | Add_price | To_usage

definition login_routes :: "admin_handler route list" where
  "login_routes =
     [on ''GET'' [Exactly ''login''] Show_login,
      on ''POST'' [Exactly ''login''] Do_login,
      on ''POST'' [Exactly ''logout''] Do_logout]"

definition admin_usage_routes :: "admin_handler route list" where
  "admin_usage_routes =
     [on_all [Exactly ''usage''] Require_session,
      on_all [Exactly ''usage'', Any_rest] Require_session,
      on_all [Exactly ''api'', Exactly ''usage''] Require_session,
      on ''GET'' [Exactly ''usage''] Show_usage,
      on ''GET'' [Exactly ''api'', Exactly ''usage''] List_usage]"

definition admin_keys_routes :: "admin_handler route list" where
  "admin_keys_routes =
     [on_all [Exactly ''keys''] Require_session,
      on_all [Exactly ''keys'', Any_rest] Require_session,
      on_all [Exactly ''api'', Exactly ''keys''] Require_session,
      on_all [Exactly ''api'', Exactly ''keys'', Any_rest] Require_session,
      on ''GET'' [Exactly ''keys''] Show_keys,
      on ''POST'' [Exactly ''keys''] Mint_key,
      on ''POST'' [Exactly ''keys'', Param, Exactly ''revoke''] Revoke_key,
      on ''GET'' [Exactly ''api'', Exactly ''keys''] List_keys,
      on ''POST'' [Exactly ''api'', Exactly ''keys''] Mint_key_json,
      on ''POST'' [Exactly ''api'', Exactly ''keys'', Param, Exactly ''revoke''] Revoke_key_json]"

definition settings_routes :: "admin_handler route list" where
  "settings_routes =
     [on_all [Exactly ''settings''] Require_session,
      on_all [Exactly ''api'', Exactly ''settings''] Require_session,
      on ''GET'' [Exactly ''settings''] Show_settings,
      on ''POST'' [Exactly ''settings''] Save_settings,
      on ''GET'' [Exactly ''api'', Exactly ''settings''] List_settings]"

definition prices_routes :: "admin_handler route list" where
  "prices_routes =
     [on_all [Exactly ''prices''] Require_session,
      on ''GET'' [Exactly ''prices''] Show_prices,
      on ''POST'' [Exactly ''prices''] Add_price]"

definition admin_routes :: "admin_handler route list" where
  "admin_routes =
     [on ''GET'' [Exactly ''health''] Admin_health,
      on ''GET'' [Exactly ''api'', Exactly ''auth'', Any_rest] Better_auth,
      on ''POST'' [Exactly ''api'', Exactly ''auth'', Any_rest] Better_auth] @
     mount ''/'' login_routes @
     mount ''/'' admin_usage_routes @
     mount ''/'' admin_keys_routes @
     mount ''/'' settings_routes @
     mount ''/'' prices_routes @
     [on ''GET'' [Exactly []] Require_session,
      on ''GET'' [Exactly []] To_usage]"

definition admin_continues :: "bool \<Rightarrow> admin_handler \<Rightarrow> bool" where
  "admin_continues in_session h \<longleftrightarrow> h = Require_session \<and> in_session"

definition admin_serve :: "bool \<Rightarrow> string \<Rightarrow> string \<Rightarrow> admin_handler option" where
  "admin_serve in_session verb path =
     answers (admin_continues in_session) (handler_chain admin_routes verb (segments path))"

text \<open>What is open without a session.\<close>

definition open_handlers :: "admin_handler list" where
  "open_handlers = [Require_session, Admin_health, Better_auth, Show_login, Do_login, Do_logout]"

definition admin_needs :: "admin_handler \<Rightarrow> admin_handler list" where
  "admin_needs h = (if h \<in> set open_handlers then [] else [Require_session])"

lemmas admin_route_defs = admin_routes_def login_routes_def admin_usage_routes_def admin_keys_routes_def
  settings_routes_def prices_routes_def mount_def segments_def

interpretation admin: guarded_app admin_routes admin_needs
  by unfold_locales (simp add: admin_route_defs route_covers_def admin_needs_def open_handlers_def)

lemma admin_guarded:
  assumes "admin_serve in_session verb path = Some h"
  shows "h \<in> set open_handlers \<or> in_session"
proof (rule disjCI)
  assume "\<not> in_session"
  then have "\<not> admin_continues in_session Require_session" by (simp add: admin_continues_def)
  then have "Require_session \<notin> set (admin_needs h)"
    using admin.needed_guard_passed[OF assms[unfolded admin_serve_def]] by blast
  then show "h \<in> set open_handlers" by (simp add: admin_needs_def split: if_splits)
qed

section \<open>What the pages offer\<close>

lemma form_actions_simps [simp]:
  "concat (map form_actions (when_some v f)) = (case v of None \<Rightarrow> [] | Some a \<Rightarrow> form_actions (f a))"
  "concat (map form_actions (given_text t)) = []"
  by (cases v; cases t; simp add: when_some_def given_text_def)+

lemma form_actions_layout:
  "form_actions (layout title admin cs) =
     (if truthy_text admin = None then [] else [''/logout'']) @ concat (map form_actions cs)"
  by (simp add: layout_def page_header_def split: option.split)

lemma form_actions_key_line:
  "form_actions (key_line pg_text p) = (if key_status (fst p) = Active then [revoke_action (fst p)] else [])"
  by (simp add: key_line_def Let_def)

lemma form_actions_mint: "form_actions (mint_form teams) = [''/keys'']"
  by (simp add: mint_form_def comp_def)

lemma form_actions_keys_page:
  "form_actions (keys_page pg_text a rows teams flash err) =
     (if au_email a = [] then [] else [''/logout'']) @
     ''/keys'' # map revoke_action (filter (\<lambda>k. key_status k = Active) (map fst rows))"
proof -
  have "concat (map (form_actions \<circ> key_line pg_text) rows) =
      map revoke_action (filter (\<lambda>k. key_status k = Active) (map fst rows))"
    by (induction rows) (auto simp: form_actions_key_line)
  then show ?thesis
    by (simp add: keys_page_def form_actions_layout form_actions_mint truthy_text_def split: option.split)
qed

lemma revoke_action_inj: "revoke_action k = revoke_action k' \<longleftrightarrow> key_id k = key_id k'"
proof
  assume "revoke_action k = revoke_action k'"
  then have "uuid_text (key_id k) = uuid_text (key_id k')" by (simp add: revoke_action_def)
  then show "key_id k = key_id k'" by (metis pg_uuid_uuid_text option.inject)
qed (simp add: revoke_action_def)

lemma listed_keys:
  "fst ` set (admin_list_keys rank d) =
     {k \<in> set (db_keys d). key_team k \<in> team_id ` set (db_teams d)}"
  by (force simp: admin_list_keys_def)

text \<open>The history marks as current the row that ingest charges.\<close>

lemma history_mark_current:
  assumes "distinct (map mp_id rows)" "distinct (map mp_valid_from (filter (\<lambda>r. mp_model r = m) rows))"
    and "m \<noteq> []" "get_model models m \<noteq> Absent"
    and p: "p \<in> set (pg_history (price_page_of models (admin_load_table rank rows) now (Some m)))"
  shows "history_mark (pg_current (price_page_of models (admin_load_table rank rows) now (Some m))) now p = ''current'' \<longleftrightarrow>
    pick_price (load_prices (price_query rank' rows)) m now = Some p"
proof -
  let ?table = "admin_load_table rank rows"
  have picked: "pg_current (price_page_of models ?table now (Some m)) = map_option row_id (pick_price ?table m now)"
    using assms(3,4)
    by (auto simp: price_page_of_def effective_price_def split: property.splits option.splits)
  have rows: "or_else (?table m) [] = map to_stored (filter (\<lambda>r. mp_model r = m) (admin_price_query rank rows))"
    by (simp add: admin_load_table_def load_prices_lookup)
  have "distinct (map mp_id (admin_price_query rank rows))"
    using assms(1) by (simp add: admin_price_query_def distinct_map)
  then have ids: "distinct (map row_id (or_else (?table m) []))"
    unfolding rows by (simp add: to_stored_def comp_def distinct_map_filter)
  have "p \<in> set (or_else (?table m) [])"
    using p by (simp add: price_page_of_def Let_def split: if_splits)
  moreover have "q \<in> set (or_else (?table m) [])" if "pick_price ?table m now = Some q" for q
    using that unfolding pick_price_find by (auto dest: find_SomeD)
  ultimately have "map_option row_id (pick_price ?table m now) = Some (row_id p) \<longleftrightarrow> pick_price ?table m now = Some p"
    using ids by (auto simp: distinct_map inj_on_def)
  then show ?thesis
    unfolding picked history_mark_def admin_table_agrees[OF assms(2), of rank now rank', symmetric]
      eq_commute[of "Some (row_id p)"] by simp
qed

end
