(* ===== verification/Claims_Admin.thy ===== *)
theory Claims_Admin
  imports System Claims_Keys Migrations Admin_App
begin

text \<open>
  What the internal price API, the admin app and the migration runner guarantee: a price post
  is idempotent, the admin pages agree with the api, and migrations run once, resume, roll back and
  are checked first.
\<close>

section \<open>Prices\<close>

text \<open>Property C19.  Posting a price is idempotent: after a post that appended a row, the same body
  again, at any later moment and with any cache, answers \<open>unchanged\<close> and writes nothing, as
  the rates come back from the \<open>NUMERIC\<close> columns bit for bit.  A post with a date, past or
  future, looks at that date, one without at the clock; what has to hold is that no other row of the
  same model starts, to the millisecond, at the new row's start or between it and the moment the
  second post looks at.  So older and later rows do not matter to a post with a date, but a row that
  starts at that very date may win the tie and have the second post append again.\<close>

theorem price_post_idempotent:
  assumes "post_price env m d cache body = (Answer 201 v, d', cache')"
    and "parse_price_form (pv_parse_date env) (pv_models env) (form_of (or_else body JNull)) = Inr form"
    and "dates_exact (pv_driver env)" "js_date (pm_pg_now m) \<le> pm_now m'"
    and "\<forall>q\<in>set (db_prices d). mp_model q = np_model form \<longrightarrow>
      js_date (mp_valid_from q) < or_else (np_valid_from form) (js_date (pm_pg_now m)) \<or>
      or_else (np_valid_from form) (pm_now m') < js_date (mp_valid_from q)"
  shows "(\<exists>w c. post_price env m' d' cache'' body = (Answer 200 (True, w), d', c)) \<and>
    (\<exists>row. d' = d\<lparr>db_prices := db_prices d @ [row]\<rparr> \<and> mp_model row = np_model form \<and>
       row_rates (to_stored row) = round6_rates form \<and> mp_created_by row = Some created_by_sync)"
proof -
  obtain row where ins: "insert_price (pv_driver env) m (Some created_by_sync) (rounded_form form) d = Some (row, d')"
    using post_price_201[OF assms(1)] assms(2) by (metis Inr_inject)
  have "full_rates_in_range form" using parse_price_form_Inr[OF assms(2)] by simp
  note row = insert_price_rates[OF ins this rounded_form_simps(3)]
  have "d' = d\<lparr>db_prices := db_prices d @ [row]\<rparr>" "mp_created_by row = Some created_by_sync"
    using ins by (auto simp: insert_price_def Let_def split: option.splits)
  then show ?thesis using post_price_again[OF assms] row(1,2) by auto
qed

definition flat_models :: catalog where
  "flat_models = [(''m'', \<lparr>input_cost_per_mtok_usd = 0, output_cost_per_mtok_usd = 0,
     cache_read_cost_per_mtok_usd = Some 0, cache_write_cost_per_mtok_usd = Some 0,
     per_request_cost_usd = Some 0, long_context = None, provider_slug = ''p'',
     upstream_model_slug = None, request_overrides = None\<rparr>)]"

definition ex_price_env :: price_env where
  "ex_price_env = \<lparr>pv_models = flat_models, pv_parse_date = (\<lambda>_. Some 5), pv_rank = (\<lambda>_. 0), pv_driver = ex_driver\<rparr>"

definition ex_moment :: "js_time \<Rightarrow> price_moment" where
  "ex_moment t = \<lparr>pm_id = 3, pm_loaded = t, pm_now = t, pm_view = t, pm_pg_now = pg_of_date t\<rparr>"

text \<open>A price dated back to 5, before one that is scheduled for 8 already.\<close>

definition ex_price_body :: json where
  "ex_price_body = JObj [(''model'', JStr ''m''), (''input_cost_per_mtok_usd'', JStr ''3''),
     (''output_cost_per_mtok_usd'', JStr ''3''), (''cache_read_cost_per_mtok_usd'', JStr ''3''),
     (''cache_write_cost_per_mtok_usd'', JStr ''3''), (''source'', JStr ''sync''), (''valid_from'', JStr ''then'')]"

definition ex_new_price :: new_price where
  "ex_new_price = \<lparr>input_rate = 3, output_rate = 3, cache_read_rate = 3, cache_write_rate = 3,
     per_request_rate = 0, np_model = ''m'', np_valid_from = Some 5, np_source = ''sync'', np_note = None\<rparr>"

lemma js_number_3: "js_number ''3'' = Fin 3"
  using to_num_small[of 3]
  by (simp add: js_number_def Let_def js_trim_def trim_start_def js_space_def to_lower_def lower_char_def
      starts_with_def decimal_literal_def is_digit_def exponent_part_def base_value_def hex_val_def)

lemma ex_price_form:
  "parse_price_form (\<lambda>_. Some 5) flat_models (form_of ex_price_body) = Inr ex_new_price"
  by (simp add: parse_price_form_def Let_def form_of_def ex_price_body_def js_get_def field_def js_trim_def
      trim_start_def js_space_def parse_rate_def js_number_3 max_rate_def parse_valid_from_def check_model_def
      get_model_def get_property_def flat_models_def ex_new_price_def)

lemma ex_round6: "round6 3 = 3" "round6 0 = 0" "numeric_column 3 = Some 3" "numeric_column 0 = Some 0"
  using millionths(1,2)[of 3000000] millionths(1,2)[of 0] fl_of_int[of 3] by simp_all

lemma ex_rounded: "rounded_form ex_new_price = ex_new_price"
  by (simp add: rounded_form_def Let_def round6_rates_def ex_new_price_def ex_round6)

definition ex_price_row :: price_db_row where
  "ex_price_row = \<lparr>mp_id = 3, mp_model = ''m'', mp_input = 3, mp_output = 3, mp_cache_read = 3,
     mp_cache_write = 3, mp_per_request = 0, mp_valid_from = 5000, mp_source = ''sync'',
     mp_note = None, mp_created_by = Some created_by_sync, mp_created_at = 7000\<rparr>"

definition ex_later_row :: price_db_row where
  "ex_later_row = ex_price_row\<lparr>mp_id := 2, mp_input := 9, mp_valid_from := 8000\<rparr>"

definition ex_scheduled_db :: db where
  "ex_scheduled_db = ex_db\<lparr>db_prices := [ex_later_row]\<rparr>"

definition ex_priced_db :: db where
  "ex_priced_db = ex_db\<lparr>db_prices := [ex_later_row, ex_price_row]\<rparr>"

lemma ex_insert:
  "insert_price ex_driver (ex_moment 7) (Some created_by_sync) ex_new_price ex_scheduled_db = Some (ex_price_row, ex_priced_db)"
  by (simp add: insert_price_def Let_def ex_new_price_def ex_round6 ex_moment_def pg_of_date_def ex_price_row_def
      ex_priced_db_def ex_scheduled_db_def ex_driver_def)

lemma ex_post:
  "\<exists>v. post_price ex_price_env (ex_moment 7) ex_scheduled_db cache (Some ex_price_body) = (Answer 201 v, ex_priced_db, None)"
proof -
  let ?table = "load_prices (price_query (\<lambda>_. 0) (db_prices ex_scheduled_db))"
  have "or_else (?table ''m'') [] = [to_stored ex_later_row]"
    by (simp add: load_prices_lookup price_query_def ex_scheduled_db_def ex_later_row_def ex_price_row_def)
  then have none: "pick_price ?table ''m'' 5 = None"
    unfolding pick_price_find by (simp add: to_stored_def ex_later_row_def js_date_def)
  have "get_model flat_models ''m'' = Own (snd (hd flat_models))"
    by (simp add: get_model_def get_property_def flat_models_def)
  then obtain e where e: "effective_price flat_models ?table ''m'' 5 = Some e"
      "effective_rates e = Some (entry_rates (snd (hd flat_models)))"
    by (simp add: effective_price_def none)
  have "input_rate (round6_rates (entry_rates (snd (hd flat_models)))) = 0"
    by (simp add: round6_rates_def entry_rates_def flat_models_def ex_round6)
  then have moved: "round6_rates (entry_rates (snd (hd flat_models))) \<noteq> full_rates.truncate ex_new_price"
    by (auto simp: full_rates.truncate_def ex_new_price_def)
  have np: "np_model ex_new_price = ''m''" "np_valid_from ex_new_price = Some 5" by (simp_all add: ex_new_price_def)
  have obj: "is_object (Some ex_price_body)" by (simp add: is_object_def ex_price_body_def)
  show ?thesis
    using obj ex_price_form moved ex_insert
    by (simp add: post_price_def reload_price_table_def Let_def ex_price_env_def ex_rounded np e clear_price_cache_def) blast
qed

theorem price_post_idempotent_witness:
  "\<exists>w c. post_price ex_price_env (ex_moment 9) ex_priced_db None (Some ex_price_body) = (Answer 200 (True, w), ex_priced_db, c)"
proof -
  obtain v where post: "post_price ex_price_env (ex_moment 7) ex_scheduled_db None (Some ex_price_body) = (Answer 201 v, ex_priced_db, None)"
    using ex_post by blast
  have form: "parse_price_form (pv_parse_date ex_price_env) (pv_models ex_price_env) (form_of (or_else (Some ex_price_body) JNull)) = Inr ex_new_price"
    by (simp add: ex_price_env_def ex_price_form)
  have "dates_exact (pv_driver ex_price_env)" by (simp add: dates_exact_def ex_price_env_def ex_driver_def)
  moreover have "js_date (pm_pg_now (ex_moment 7)) \<le> pm_now (ex_moment 9)" by (simp add: ex_moment_def)
  moreover have "db_prices ex_scheduled_db = [ex_later_row]" "np_valid_from ex_new_price = Some 5" "js_date (mp_valid_from ex_later_row) = 8"
    by (simp_all add: ex_scheduled_db_def ex_new_price_def ex_later_row_def js_date_def)
  ultimately show ?thesis using price_post_idempotent[OF post form] by simp
qed

text \<open>Property C37.  The admin page prices as ingest does: where the rows of a model start at different
  times, the row its table picks is the one the api's table picks, for every model and instant and
  however the two servers break ties, and the history of the model marks as current that
  row and no other.\<close>

theorem admin_prices_agree:
  assumes "distinct (map mp_id rows)" "distinct (map mp_valid_from (filter (\<lambda>r. mp_model r = m) rows))"
    and "m \<noteq> []" "get_model models m \<noteq> Absent"
    and "pg = price_page_of models (admin_load_table rank rows) t (Some m)"
  shows "pick_price (admin_load_table rank rows) m t = pick_price (load_prices (price_query rank' rows)) m t \<and>
    (\<forall>p\<in>set (pg_history pg). history_mark (pg_current pg) t p = ''current'' \<longleftrightarrow>
       pick_price (load_prices (price_query rank' rows)) m t = Some p)"
  unfolding assms(5) using admin_table_agrees[OF assms(2)] history_mark_current[OF assms(1-4)] by blast

lemma ex_price_page:
  "to_stored ex_price_row \<in> set (pg_history (price_page_of flat_models (admin_load_table (\<lambda>_. 0) [ex_price_row]) 7 (Some ''m'')))"
  "pick_price (load_prices (price_query (\<lambda>_. 1) [ex_price_row])) ''m'' 7 = Some (to_stored ex_price_row)"
  "distinct (map mp_id [ex_price_row])" "distinct (map mp_valid_from (filter (\<lambda>r. mp_model r = ''m'') [ex_price_row]))"
  "get_model flat_models ''m'' \<noteq> Absent"
proof -
  have rows: "or_else (admin_load_table (\<lambda>_. 0) [ex_price_row] ''m'') [] = [to_stored ex_price_row]"
    "or_else (load_prices (price_query (\<lambda>_. 1) [ex_price_row]) ''m'') [] = [to_stored ex_price_row]"
    by (simp_all add: admin_load_table_def admin_price_query_def price_query_def load_prices_lookup ex_price_row_def)
  have own: "get_model flat_models ''m'' = Own (snd (hd flat_models))"
    by (simp add: get_model_def get_property_def flat_models_def)
  show "pick_price (load_prices (price_query (\<lambda>_. 1) [ex_price_row])) ''m'' 7 = Some (to_stored ex_price_row)"
    unfolding pick_price_find rows by (simp add: to_stored_def ex_price_row_def js_date_def)
  show "to_stored ex_price_row \<in> set (pg_history (price_page_of flat_models (admin_load_table (\<lambda>_. 0) [ex_price_row]) 7 (Some ''m'')))"
    by (simp add: price_page_of_def effective_price_def own Let_def) (simp add: rows)
  show "get_model flat_models ''m'' \<noteq> Absent" using own by simp
qed (simp_all add: ex_price_row_def)

theorem admin_prices_agree_witness:
  "history_mark (pg_current (price_page_of flat_models (admin_load_table (\<lambda>_. 0) [ex_price_row]) 7 (Some ''m''))) 7
     (to_stored ex_price_row) = ''current''"
  using admin_prices_agree[OF ex_price_page(3,4) _ ex_price_page(5) refl, of "\<lambda>_. 0" 7 "\<lambda>_. 1"] ex_price_page(1,2) by blast

section \<open>Admin revoke\<close>

text \<open>The two revocations agree: where the api lets a user revoke a key, the admin page
  answers with the same count and changes every key in the same way, but for the name it records.\<close>

theorem admin_revoke_agrees_with_api:
  assumes "revoke_key now user d id_text = (Answer st n, d1)"
  shows "\<exists>d2. admin_revoke now a d id_text = (Answer st n, d2) \<and>
    map (\<lambda>k. k\<lparr>key_revoked_by := None\<rparr>) (db_keys d2) = map (\<lambda>k. k\<lparr>key_revoked_by := None\<rparr>) (db_keys d1) \<and>
    db_usage d2 = db_usage d1 \<and> db_spend d2 = db_spend d1"
  by (rule admin_revoke_agrees[OF assms])

definition ex_admin :: admin_user where
  "ex_admin = \<lparr>au_id = ''1'', au_email = ''a'', au_name = ''A''\<rparr>"

theorem admin_revoke_agrees_with_api_witness:
  "fst (admin_revoke 9 ex_admin ex_db (uuid_text 7)) = Answer 200 1"
proof -
  obtain d1 where "revoke_key 9 ''u'' ex_db (uuid_text 7) = (Answer 200 1, d1)"
    by (simp add: revoke_key_def pg_uuid_uuid_text visible_keys_def user_teams_def in_subtree_def ex_top_def ex_db_def)
  from admin_revoke_agrees_with_api[OF this, of ex_admin] show ?thesis by auto
qed

section \<open>Migrations\<close>

definition ex_mig_env :: "string list mig_env" where
  "ex_mig_env = \<lparr>me_sha256 = (\<lambda>b. b), me_locale = (\<lambda>s. if s = ''1.up.sql'' then 1 else 2),
     me_run = (\<lambda>c s. if c = ''bad'' then None else if c = ''drop'' then (case s of [] \<Rightarrow> None | _ # r \<Rightarrow> Some r)
       else Some (c # s)), me_seed = (\<lambda>c s. Some (c # s))\<rparr>"

definition ex_dir :: "string \<Rightarrow> migration list" where
  "ex_dir second = [\<lparr>mg_filename = ''1.up.sql'', mg_content = ''a''\<rparr>,
     \<lparr>mg_filename = ''2.up.sql'', mg_content = second\<rparr>, \<lparr>mg_filename = ''2.down.sql'', mg_content = ''drop''\<rparr>]"

definition ex_mig_state :: "(string \<times> string) list \<Rightarrow> string list mig_state" where
  "ex_mig_state applied = \<lparr>ms_applied = map (\<lambda>(n, c). (n, Some (compute_hash ex_mig_env c))) applied,
     ms_schema = map snd (rev applied)\<rparr>"

lemma ex_read:
  "read_migrations ex_mig_env ''up'' (ex_dir c) = take 2 (ex_dir c)"
  "read_migrations ex_mig_env ''down'' (ex_dir c) = drop 2 (ex_dir c)"
  by (simp_all add: read_migrations_def ends_with_def ex_dir_def ex_mig_env_def)

lemma ex_hash: "compute_hash ex_mig_env ''a'' \<noteq> []"
proof -
  have "length (compute_hash ex_mig_env ''a'') = 2"
    by (simp add: compute_hash_def ex_mig_env_def text_encode_def utf8_char_def)
  then show ?thesis by auto
qed

lemma ex_names: "distinct (map mg_filename (ex_dir c))"
  by (simp add: ex_dir_def)

lemmas ex_up_simps = mig_up_def ex_read modified_files_def backfill_hashes_def get_applied_def apply_one_def file_named_def

lemma ex_up_fails:
  "mig_up ex_mig_env (ex_dir ''bad'') (ex_mig_state []) = (Some (Migration_failed ''2.up.sql''), ex_mig_state [(''1.up.sql'', ''a'')])"
  by (simp add: ex_up_simps ex_mig_state_def Let_def) (simp add: ex_dir_def ex_mig_env_def get_applied_def apply_one_def)

lemma ex_up_repaired:
  "mig_up ex_mig_env (ex_dir ''b'') (ex_mig_state [(''1.up.sql'', ''a'')]) =
     (None, ex_mig_state [(''1.up.sql'', ''a''), (''2.up.sql'', ''b'')])"
  by (simp add: ex_up_simps ex_mig_state_def Let_def) (simp add: ex_dir_def ex_mig_env_def get_applied_def apply_one_def)

text \<open>Migrations run once: after an upgrade without error exactly the files that were
  pending have been recorded, in order, and another upgrade changes nothing.\<close>

theorem upgrade_runs_once:
  assumes "distinct (map mg_filename dir)" "mig_up env dir st = (None, st')"
  shows "get_applied st' = get_applied st @ map mg_filename (pending_files env dir st) \<and>
    run_all env (pending_files env dir st) (ms_schema st) = Some (ms_schema st') \<and>
    mig_up env dir st' = (None, st')"
  using mig_up_ok(2,3)[OF assms(2)] mig_up_again[OF assms] by blast

theorem upgrade_runs_once_witness:
  "mig_up ex_mig_env (ex_dir ''b'') (ex_mig_state [(''1.up.sql'', ''a''), (''2.up.sql'', ''b'')]) =
     (None, ex_mig_state [(''1.up.sql'', ''a''), (''2.up.sql'', ''b'')])"
  using upgrade_runs_once[OF ex_names ex_up_repaired] by blast

text \<open>Property C34.  An upgrade that stops at a failing file resumes: once that file is repaired, with the
  files already applied left as they were, the next upgrade ends in the very state a single
  upgrade with the repaired files would have ended in.\<close>

theorem upgrade_resumes:
  assumes "distinct (map mg_filename dir)" "distinct (map mg_filename dir')"
    and "mig_up env dir st = (Some (Migration_failed f), st1)"
    and "mig_up env dir' st1 = (None, st2)"
    and "map mg_filename (read_migrations env ''up'' dir') = map mg_filename (read_migrations env ''up'' dir)"
    and "\<And>m. m \<in> set dir \<Longrightarrow> mg_filename m \<in> set (get_applied st1) \<Longrightarrow> m \<in> set dir'"
  shows "run_all env (pending_files env dir' st) (ms_schema st) = Some (ms_schema st2) \<and>
    get_applied st2 = get_applied st @ map mg_filename (pending_files env dir' st)"
  using mig_up_resumes[OF assms] by blast

theorem upgrade_resumes_witness:
  "run_all ex_mig_env (pending_files ex_mig_env (ex_dir ''b'') (ex_mig_state [])) [] = Some [''b'', ''a'']"
proof -
  have "m \<in> set (ex_dir ''b'')" if "m \<in> set (ex_dir ''bad'')"
    "mg_filename m \<in> set (get_applied (ex_mig_state [(''1.up.sql'', ''a'')]))" for m
    using that by (auto simp: ex_dir_def ex_mig_state_def get_applied_def)
  moreover have "map mg_filename (read_migrations ex_mig_env ''up'' (ex_dir ''b'')) =
      map mg_filename (read_migrations ex_mig_env ''up'' (ex_dir ''bad''))"
    by (simp add: ex_read) (simp add: ex_dir_def)
  ultimately show ?thesis
    using upgrade_resumes[OF ex_names ex_names ex_up_fails ex_up_repaired] by (simp add: ex_mig_state_def)
qed

text \<open>A rollback undoes the upgrade before it: where one file was pending, its name is the
  greatest and its down file undoes what it does, \<open>down\<close> after \<open>up\<close> restores the schema and the
  record of applied files.\<close>

theorem rollback_undoes_upgrade:
  assumes "mig_up env dir st = (None, st')" "pending_files env dir st = [m]"
    and "\<forall>name\<in>set (get_applied st). name < mg_filename m"
    and "file_named (read_migrations env ''down'' dir) (down_name (mg_filename m)) = Some md"
    and "\<And>s s'. me_run env (mg_content m) s = Some s' \<Longrightarrow> me_run env (mg_content md) s' = Some s"
  shows "\<exists>st''. mig_down env dir st' = (None, st'') \<and> ms_schema st'' = ms_schema st \<and> get_applied st'' = get_applied st"
  by (rule mig_down_undoes[OF assms])

theorem rollback_undoes_upgrade_witness:
  "\<exists>st. mig_down ex_mig_env (ex_dir ''b'') (ex_mig_state [(''1.up.sql'', ''a''), (''2.up.sql'', ''b'')]) = (None, st) \<and>
     ms_schema st = [''a'']"
proof -
  let ?m = "\<lparr>mg_filename = ''2.up.sql'', mg_content = ''b''\<rparr>"
  have pending: "pending_files ex_mig_env (ex_dir ''b'') (ex_mig_state [(''1.up.sql'', ''a'')]) = [?m]"
    by (simp add: pending_files_def ex_read get_applied_def ex_mig_state_def) (simp add: ex_dir_def)
  have "down_name ''2.up.sql'' = ''2.down.sql''" by (simp add: down_name_def starts_with_def)
  then have down: "file_named (read_migrations ex_mig_env ''down'' (ex_dir ''b'')) (down_name (mg_filename ?m)) =
      Some \<lparr>mg_filename = ''2.down.sql'', mg_content = ''drop''\<rparr>"
    by (simp add: file_named_def ex_read) (simp add: ex_dir_def)
  have "''1.up.sql'' < ''2.up.sql''" by simp
  then show ?thesis
    using rollback_undoes_upgrade[OF ex_up_repaired pending _ down]
    by (auto simp: ex_mig_state_def get_applied_def ex_mig_env_def split: if_splits)
qed

text \<open>Property C35.  A run of the migration runner that changed anything had a known command and a
  database URL, spliced a role of lower-case letters, digits and underscores only into
  \<open>SET ROLE\<close>, and, if it was a reset, had a URL with \<open>localhost\<close> or \<open>127.0.0.1\<close> in it.\<close>

theorem migrate_checks_first:
  assumes "migrate_main envs dirs files dropped args env_var st = (out, st')" "st' \<noteq> st"
  shows "\<exists>cmd url. command_of (ca_words args) = Some cmd \<and> database_url env_var = Some url \<and>
    (\<forall>c\<in>set (migrate_role env_var).
       (97 \<le> (of_char c :: nat) \<and> (of_char c :: nat) \<le> 122) \<or> c = CHR ''_'' \<or>
       (48 \<le> (of_char c :: nat) \<and> (of_char c :: nat) \<le> 57)) \<and>
    (cmd = Reset \<longrightarrow> contains ''localhost'' url \<or> contains ''127.0.0.1'' url)"
  using migrate_main_changed[OF assms] valid_role_chars by meson

definition ex_cli :: "string \<Rightarrow> cli_args" where
  "ex_cli cmd = \<lparr>ca_dir = ''migrations'', ca_seed = False, ca_words = [Word cmd]\<rparr>"

definition ex_mig_vars :: "string \<Rightarrow> string option" where
  "ex_mig_vars name =
     (if name = ''DATABASE_URL'' then Some ''pg://db'' else if name = ''MIGRATE_ROLE'' then Some ''owner_1'' else None)"

lemma ex_migrate:
  "migrate_main (\<lambda>_. ex_mig_env) (\<lambda>_. ex_dir ''bad'') (\<lambda>_. None) (\<lambda>_. []) (ex_cli ''up'') ex_mig_vars (ex_mig_state []) =
   (Ran (Some (Migration_failed ''2.up.sql'')), ex_mig_state [(''1.up.sql'', ''a'')])"
  by (simp add: migrate_main_def command_of_def ex_cli_def database_url_def migrate_role_def ex_mig_vars_def or_else_def
      valid_role_def role_start_def role_char_def ex_up_fails)

theorem migrate_checks_first_witness:
  "(\<exists>cmd. command_of (ca_words (ex_cli ''up'')) = Some cmd) \<and>
   fst (migrate_main (\<lambda>_. ex_mig_env) (\<lambda>_. ex_dir ''bad'') (\<lambda>_. None) (\<lambda>_. []) (ex_cli ''reset'') ex_mig_vars (ex_mig_state [])) =
     Ran (Some Not_local)"
proof -
  have "ex_mig_state [(''1.up.sql'', ''a'')] \<noteq> ex_mig_state []" by (simp add: ex_mig_state_def)
  from migrate_checks_first[OF ex_migrate this] have "\<exists>cmd. command_of (ca_words (ex_cli ''up'')) = Some cmd" by blast
  moreover have "fst (migrate_main (\<lambda>_. ex_mig_env) (\<lambda>_. ex_dir ''bad'') (\<lambda>_. None) (\<lambda>_. []) (ex_cli ''reset'') ex_mig_vars (ex_mig_state [])) =
      Ran (Some Not_local)"
    by (simp add: migrate_main_def command_of_def ex_cli_def database_url_def migrate_role_def ex_mig_vars_def or_else_def
        valid_role_def role_start_def role_char_def mig_reset_def starts_with_def)
  ultimately show ?thesis by blast
qed

end
