(* ===== verification/Base64.thy ===== *)
theory Base64
  imports Key_Material
begin

text \<open>
  Base64 as the code uses it: \<open>btoa\<close> and \<open>atob\<close> of the runtime, the loading of the Ed25519
  key pair in \<open>api/src/lib/ed25519.ts\<close> (and its copy in \<open>scripts/dev-token.ts\<close>), and
  \<open>decodeJwtPayload\<close> of \<open>api/src/lib/kamuid-sync.ts\<close>.  A binary string is a list of characters
  up to 255, so \<open>String.fromCharCode\<close> and \<open>charCodeAt\<close> are conversions between 8-bit words
  and characters.
\<close>

section \<open>The runtime's btoa and atob\<close>

definition b64_char :: "nat \<Rightarrow> char" where
  "b64_char n = (''ABCDEFGHIJKLMNOPQRSTUVWXYZabcdefghijklmnopqrstuvwxyz0123456789+/'' ! n)"

definition b64_val :: "char \<Rightarrow> nat option" where
  "b64_val c =
     (let n = of_char c :: nat
      in if 65 \<le> n \<and> n \<le> 90 then Some (n - 65)
         else if 97 \<le> n \<and> n \<le> 122 then Some (n - 71)
         else if 48 \<le> n \<and> n \<le> 57 then Some (n + 4)
         else if n = 43 then Some 62 else if n = 47 then Some 63 else None)"

lemma less_64_cases:
  assumes "(n::nat) < 64"
  shows "n \<in> (\<lambda>(a, b). 16 * a + b) ` ({0, 1, 2, 3} \<times> {0, 1, 2, 3, 4, 5, 6, 7, 8, 9, 10, 11, 12, 13, 14, 15})"
proof -
  have "n div 16 < 4" using assms by simp
  then have "n div 16 \<in> {0, 1, 2, 3}" by auto
  moreover have "n mod 16 \<in> {0,1,2,3,4,5,6,7,8,9,10,11,12,13,14,15}" by (rule less_16_cases) simp
  ultimately have "(n div 16, n mod 16) \<in> {0, 1, 2, 3} \<times> {0, 1, 2, 3, 4, 5, 6, 7, 8, 9, 10, 11, 12, 13, 14, 15}"
    by (rule SigmaI)
  moreover have "n = (\<lambda>(a, b). 16 * a + b) (n div 16, n mod 16)" by simp
  ultimately show ?thesis by (rule image_eqI[rotated])
qed

lemma b64_val_char [simp]: "n < 64 \<Longrightarrow> b64_val (b64_char n) = Some n"
  by (drule less_64_cases) (auto simp: b64_val_def b64_char_def)

text \<open>\<open>sextets\<close> cuts bytes into groups of six bits, \<open>octets\<close> puts them together and discards
  the bits that do not fill a byte.\<close>

fun sextets :: "nat list \<Rightarrow> nat list" where
  "sextets [] = []"
| "sextets [a] = [a div 4, a mod 4 * 16]"
| "sextets [a, b] = [a div 4, a mod 4 * 16 + b div 16, b mod 16 * 4]"
| "sextets (a # b # c # bs) =
     a div 4 # (a mod 4 * 16 + b div 16) # (b mod 16 * 4 + c div 64) # c mod 64 # sextets bs"

fun octets :: "nat list \<Rightarrow> nat list" where
  "octets (s # t # u # v # xs) =
     (s * 4 + t div 16) # (t mod 16 * 16 + u div 4) # (u mod 4 * 64 + v) # octets xs"
| "octets [s, t, u] = [s * 4 + t div 16, t mod 16 * 16 + u div 4]"
| "octets [s, t] = [s * 4 + t div 16]"
| "octets [s] = []"
| "octets [] = []"

definition btoa :: "string \<Rightarrow> string" where
  "btoa bin = map b64_char (sextets (map of_char bin)) @ replicate ((3 - length bin mod 3) mod 3) (CHR ''='')"

definition ascii_space :: "char \<Rightarrow> bool" where
  "ascii_space c = ((of_char c :: nat) \<in> {9, 10, 12, 13, 32})"

definition drop_padding :: "string \<Rightarrow> string" where
  "drop_padding s =
     (if length s mod 4 = 0
      then (if ends_with ''=='' s then take (length s - 2) s
            else if ends_with ''='' s then take (length s - 1) s else s)
      else s)"

fun b64_vals :: "string \<Rightarrow> nat list option" where
  "b64_vals [] = Some []"
| "b64_vals (c # cs) =
     (case (b64_val c, b64_vals cs) of (Some n, Some ns) \<Rightarrow> Some (n # ns) | _ \<Rightarrow> None)"

text \<open>\<open>None\<close> where \<open>atob\<close> throws.\<close>

definition atob :: "string \<Rightarrow> string option" where
  "atob text =
     (let s = drop_padding (filter (\<lambda>c. \<not> ascii_space c) text)
      in if length s mod 4 = 1 then None
         else map_option (\<lambda>ns. map char_of (octets ns)) (b64_vals s))"

section \<open>Round trip\<close>

lemma sextets_less: "list_all (\<lambda>n. n < 256) bs \<Longrightarrow> list_all (\<lambda>n. n < 64) (sextets bs)"
  by (induction bs rule: sextets.induct) (auto simp: algebra_simps)

lemma group1: "a div 4 * 4 + (a mod 4 * 16 + b div 16) div 16 = a" if "b < 256" for a b :: nat
proof -
  have "b div 16 < 16" using that by (simp add: div_less_iff_less_mult)
  then have "(a mod 4 * 16 + b div 16) div 16 = a mod 4" by simp
  then show ?thesis by simp
qed

lemma group2: "(a mod 4 * 16 + b div 16) mod 16 * 16 + (b mod 16 * 4 + c) div 4 = b"
  if "b < 256" "c < 4" for a b c :: nat
proof -
  have "(a mod 4 * 16 + b div 16) mod 16 = b div 16" using that by (simp add: mod_mult_self3)
  moreover have "(b mod 16 * 4 + c) div 4 = b mod 16" using that by simp
  ultimately show ?thesis by simp
qed

lemma group3: "(b mod 16 * 4 + c div 64) mod 4 * 64 + c mod 64 = c" if "c < 256" for b c :: nat
proof -
  have "(b mod 16 * 4 + c div 64) mod 4 = c div 64" using that by (simp add: mod_mult_self3)
  then show ?thesis by simp
qed

lemma octets_sextets: "list_all (\<lambda>n. n < 256) bs \<Longrightarrow> octets (sextets bs) = bs"
proof (induction bs rule: sextets.induct)
  case (2 a)
  then show ?case using group1[of 0 a] by simp
next
  case (3 a b)
  then show ?case using group1[of b a] group2[of b 0 a] by simp
next
  case (4 a b c bs)
  then show ?case
    using group1[of b a] group2[of b "c div 64" a] group3[of c b]
    by (simp del: mod_mult_self3 mod_mult_self4 add: div_less_iff_less_mult)
qed simp_all

lemma length_sextets: "length (sextets bs) = (length bs * 4 + 2) div 3"
  by (induction bs rule: sextets.induct) simp_all

lemma b64_vals_chars: "list_all (\<lambda>n. n < 64) ns \<Longrightarrow> b64_vals (map b64_char ns) = Some ns"
  by (induction ns) simp_all

text \<open>The characters that may follow each other in an encoded text.\<close>

definition b64_alphabet :: "char \<Rightarrow> bool" where
  "b64_alphabet c \<longleftrightarrow> b64_val c \<noteq> None"

lemma b64_alphabet_plain:
  "b64_alphabet c \<Longrightarrow> \<not> ascii_space c \<and> c \<noteq> CHR ''='' \<and> c \<noteq> CHR ''-'' \<and> c \<noteq> CHR ''_'' \<and> c \<noteq> CHR ''.''"
  by (auto simp: b64_alphabet_def b64_val_def ascii_space_def)

lemma b64_alphabet_char: "n < 64 \<Longrightarrow> b64_alphabet (b64_char n)"
  by (simp add: b64_alphabet_def)

definition bin_values :: "string \<Rightarrow> nat list" where
  "bin_values bin = map of_char bin"

lemma bin_values_less: "list_all (\<lambda>n. n < 256) (bin_values bin)"
  by (simp add: bin_values_def list_all_iff of_char_of)

lemma char_of_bin_values: "map char_of (bin_values bin) = bin"
  by (simp add: bin_values_def comp_def)

text \<open>\<open>btoa\<close> without its padding.\<close>

definition b64_body :: "string \<Rightarrow> string" where
  "b64_body bin = map b64_char (sextets (bin_values bin))"

lemma b64_body_alphabet: "c \<in> set (b64_body bin) \<Longrightarrow> b64_alphabet c"
  using sextets_less[OF bin_values_less, of bin]
  by (auto simp: b64_body_def list_all_iff intro: b64_alphabet_char)

lemma length_b64_body: "length (b64_body bin) = (length bin * 4 + 2) div 3"
  by (simp add: b64_body_def bin_values_def length_sextets)

lemma btoa_body: "btoa bin = b64_body bin @ replicate ((3 - length bin mod 3) mod 3) (CHR ''='')"
  by (simp add: btoa_def b64_body_def bin_values_def)

lemma b64_vals_body: "b64_vals (b64_body bin) = Some (sextets (bin_values bin))"
  unfolding b64_body_def using sextets_less[OF bin_values_less] by (rule b64_vals_chars)

lemma octets_body: "map char_of (octets (sextets (bin_values bin))) = bin"
  by (simp add: octets_sextets[OF bin_values_less] char_of_bin_values)

text \<open>However much of the padding is there, \<open>atob\<close> reads the body back.\<close>

lemma drop_padding_body:
  assumes "\<forall>c\<in>set s. c \<noteq> CHR ''=''" "k \<le> 2" "k = 0 \<or> (length s + k) mod 4 = 0"
  shows "drop_padding (s @ replicate k (CHR ''='')) = s"
proof -
  consider "k = 0" | "k = 1" | "k = 2" using assms(2) by linarith
  then show ?thesis
  proof cases
    case 1
    have "\<not> ends_with ''='' s" "\<not> ends_with ''=='' s"
    proof -
      have "\<not> ends_with (p @ ''='') s" for p
      proof
        assume "ends_with (p @ ''='') s"
        then have "CHR ''='' \<in> set (drop (length s - length (p @ ''='')) s)" unfolding ends_with_def by simp
        then show False using assms(1) in_set_dropD by fast
      qed
      from this[of "[]"] this[of "''=''"] show "\<not> ends_with ''='' s" "\<not> ends_with ''=='' s" by simp_all
    qed
    then show ?thesis using 1 by (simp add: drop_padding_def)
  next
    case 2
    have "\<not> ends_with ''=='' (s @ ''='')"
    proof
      assume "ends_with ''=='' (s @ ''='')"
      then obtain l where l: "1 \<le> length s" "drop (length s - 1) s @ ''='' = ''==''" by (auto simp: ends_with_def)
      then have "CHR ''='' \<in> set (drop (length s - 1) s)" by simp
      then show False using assms(1) in_set_dropD by fast
    qed
    moreover have "ends_with ''='' (s @ ''='')" by (simp add: ends_with_def)
    ultimately show ?thesis using 2 assms(3) by (simp add: drop_padding_def)
  next
    case 3
    then show ?thesis using assms(3) by (simp add: drop_padding_def ends_with_def numeral_2_eq_2)
  qed
qed

lemma body_length_mod: "length (b64_body bin) mod 4 \<noteq> 1"
  unfolding length_b64_body by presburger

lemma atob_padded:
  assumes "k = 0 \<or> (length (b64_body bin) + k) mod 4 = 0" "k \<le> 2"
  shows "atob (b64_body bin @ replicate k (CHR ''='')) = Some bin"
proof -
  have "filter (\<lambda>c. \<not> ascii_space c) (b64_body bin @ replicate k (CHR ''='')) = b64_body bin @ replicate k (CHR ''='')"
    using b64_body_alphabet[of _ bin] b64_alphabet_plain by (auto simp: filter_id_conv ascii_space_def)
  moreover have "drop_padding (b64_body bin @ replicate k (CHR ''='')) = b64_body bin"
    using assms b64_body_alphabet[of _ bin] b64_alphabet_plain by (intro drop_padding_body) auto
  ultimately show ?thesis by (simp add: atob_def Let_def body_length_mod[simplified] b64_vals_body octets_body)
qed

lemma padding_fits:
  fixes n :: nat
  defines "k \<equiv> (3 - n mod 3) mod 3"
  shows "k = 0 \<or> ((n * 4 + 2) div 3 + k) mod 4 = 0" "k \<le> 2"
proof -
  define q where "q = n div 3"
  have "n mod 3 < 3" by simp
  then consider "n mod 3 = 0" | "n mod 3 = 1" | "n mod 3 = 2" by linarith
  then show "k = 0 \<or> ((n * 4 + 2) div 3 + k) mod 4 = 0"
  proof cases
    case 2
    then have "n = 3 * q + 1" unfolding q_def using mult_div_mod_eq[of 3 n] by simp
    then show ?thesis using 2 by (simp add: k_def)
  next
    case 3
    then have "n = 3 * q + 2" unfolding q_def using mult_div_mod_eq[of 3 n] by simp
    then have "(n * 4 + 2) div 3 = 4 * q + 3" by simp
    then show ?thesis using 3 by (simp add: k_def)
  qed (simp add: k_def)
  have "k < 3" by (simp add: k_def)
  then show "k \<le> 2" by simp
qed

theorem atob_btoa: "atob (btoa bin) = Some bin"
  unfolding btoa_body by (rule atob_padded) (unfold length_b64_body, (rule padding_fits)+)

section \<open>base64url\<close>

text \<open>\<open>b64ToB64url\<close>: the two letters replaced, the run of \<open>=\<close> at the end removed.\<close>

definition url_char :: "char \<Rightarrow> char" where
  "url_char c = (if c = CHR ''+'' then CHR ''-'' else if c = CHR ''/'' then CHR ''_'' else c)"

definition b64_to_b64url :: "string \<Rightarrow> string" where
  "b64_to_b64url b = rev (dropWhile (\<lambda>c. c = CHR ''='') (rev (map url_char b)))"

text \<open>The way back: \<open>replaceAll("-", "+").replaceAll("_", "/")\<close>.\<close>

definition plain_char :: "char \<Rightarrow> char" where
  "plain_char c = (if c = CHR ''-'' then CHR ''+'' else if c = CHR ''_'' then CHR ''/'' else c)"

lemma plain_url_char [simp]: "b64_alphabet c \<Longrightarrow> plain_char (url_char c) = c"
  using b64_alphabet_plain[of c] by (auto simp: plain_char_def url_char_def)

lemma url_char_neq:
  "b64_alphabet c \<Longrightarrow> url_char c \<noteq> CHR ''='' \<and> url_char c \<noteq> CHR ''.'' \<and> url_char c \<noteq> CHR ''+'' \<and> url_char c \<noteq> CHR ''/''"
  using b64_alphabet_plain[of c] by (auto simp: url_char_def)

lemma dropWhile_replicate_append: "dropWhile (\<lambda>c. c = x) (replicate k x @ xs) = dropWhile (\<lambda>c. c = x) xs"
  by (induction k) simp_all

lemma b64url_btoa: "b64_to_b64url (btoa bin) = map url_char (b64_body bin)"
proof -
  have "dropWhile (\<lambda>c. c = CHR ''='') (rev (map url_char (b64_body bin))) = rev (map url_char (b64_body bin))"
  proof (rule dropWhile_eq_self_iff[THEN iffD2], rule disjCI)
    assume "\<not> hd (rev (map url_char (b64_body bin))) \<noteq> CHR ''=''"
    moreover have "\<forall>c\<in>set (rev (map url_char (b64_body bin))). c \<noteq> CHR ''=''"
      using b64_body_alphabet url_char_neq by auto
    ultimately show "rev (map url_char (b64_body bin)) = []" using hd_in_set by metis
  qed
  moreover have "url_char (CHR ''='') = CHR ''=''" by (simp add: url_char_def)
  ultimately show ?thesis
    by (simp add: b64_to_b64url_def btoa_body dropWhile_replicate_append)
qed

lemma plain_b64url: "map plain_char (b64_to_b64url (btoa bin)) = b64_body bin"
  using b64_body_alphabet[of _ bin] by (simp add: b64url_btoa map_idI)

section \<open>The Ed25519 key pair\<close>

text \<open>\<open>decodeBase64Bytes\<close>; \<open>None\<close> is the exception of \<open>atob\<close>.\<close>

definition decode_base64_bytes :: "string \<Rightarrow> bytes option" where
  "decode_base64_bytes b64 = map_option (map (\<lambda>c. word_of_nat (of_char c))) (atob b64)"

definition from_char_codes :: "bytes \<Rightarrow> string" where
  "from_char_codes bs = map (\<lambda>b. char_of (unat b)) bs"

datatype ed25519_error = Invalid_character | Private_key_length nat | Public_key_length nat

text \<open>The module body of \<open>ed25519.ts\<close>: the JWK fields \<open>x\<close> and \<open>d\<close>, or the exception that stops
  the process at boot.\<close>

definition load_ed25519 :: "string \<Rightarrow> string \<Rightarrow> ed25519_error + (string \<times> string)" where
  "load_ed25519 private_key public_key =
     (case (decode_base64_bytes private_key, decode_base64_bytes public_key) of
        (Some seed, Some pub) \<Rightarrow>
          if length seed \<noteq> 32 then Inl (Private_key_length (length seed))
          else if length pub \<noteq> 32 then Inl (Public_key_length (length pub))
          else Inr (b64_to_b64url (btoa (from_char_codes pub)), b64_to_b64url (btoa (from_char_codes seed)))
      | _ \<Rightarrow> Inl Invalid_character)"

text \<open>\<open>importJWK\<close> yields a \<open>CryptoKey\<close> or raw bytes, or throws; the key is imported once.\<close>

record okp_jwk =
  okp_x :: string
  okp_d :: "string option"

datatype 'k imported = Crypto_key 'k | Raw_bytes bytes
datatype key_load_error = Import_failed | Not_a_crypto_key

definition as_crypto_key :: "'k imported \<Rightarrow> key_load_error + 'k" where
  "as_crypto_key k = (case k of Crypto_key c \<Rightarrow> Inr c | Raw_bytes _ \<Rightarrow> Inl Not_a_crypto_key)"

definition get_key ::
  "(okp_jwk \<Rightarrow> 'k imported option) \<Rightarrow> okp_jwk \<Rightarrow> 'k option \<Rightarrow> (key_load_error + 'k) \<times> 'k option" where
  "get_key import_jwk jwk cached =
     (case cached of
        Some k \<Rightarrow> (Inr k, cached)
      | None \<Rightarrow>
          (case import_jwk jwk of
             None \<Rightarrow> (Inl Import_failed, None)
           | Some imported \<Rightarrow>
               (case as_crypto_key imported of Inl e \<Rightarrow> (Inl e, None) | Inr k \<Rightarrow> (Inr k, Some k))))"

definition get_signing_key ::
  "(okp_jwk \<Rightarrow> 'k imported option) \<Rightarrow> string \<Rightarrow> string \<Rightarrow> 'k option \<Rightarrow> (key_load_error + 'k) \<times> 'k option" where
  "get_signing_key import_jwk x d = get_key import_jwk \<lparr>okp_x = x, okp_d = Some d\<rparr>"

definition get_verify_key ::
  "(okp_jwk \<Rightarrow> 'k imported option) \<Rightarrow> string \<Rightarrow> 'k option \<Rightarrow> (key_load_error + 'k) \<times> 'k option" where
  "get_verify_key import_jwk x = get_key import_jwk \<lparr>okp_x = x, okp_d = None\<rparr>"

lemma from_char_codes_back: "map (\<lambda>c. word_of_nat (of_char c)) (from_char_codes bs) = bs"
proof -
  have "word_of_nat (of_char (char_of (unat b) :: char)) = b" for b :: "8 word"
    using unsigned_less[of b, where 'a=nat] by (simp add: of_char_of)
  then show ?thesis by (simp add: from_char_codes_def comp_def map_idI)
qed

lemma length_from_char_codes [simp]: "length (from_char_codes bs) = length bs"
  by (simp add: from_char_codes_def)

text \<open>What RFC 7515 reads in a base64url field.\<close>

definition b64url_bytes :: "string \<Rightarrow> bytes option" where
  "b64url_bytes field = decode_base64_bytes (map plain_char field)"

lemma b64url_bytes_field:
  "b64url_bytes (b64_to_b64url (btoa (from_char_codes bs))) = Some bs"
  using atob_padded[of 0 "from_char_codes bs"]
  by (simp add: b64url_bytes_def decode_base64_bytes_def plain_b64url from_char_codes_back)

text \<open>The two fields are 43 characters of the base64url alphabet and read back as the
  configured bytes, whatever white space and padding the configuration had.\<close>

theorem ed25519_fields:
  assumes "load_ed25519 private_key public_key = Inr (x, d)"
  shows "b64url_bytes x = decode_base64_bytes public_key \<and> b64url_bytes d = decode_base64_bytes private_key \<and>
    length x = 43 \<and> length d = 43 \<and> (\<forall>c\<in>set (x @ d). c \<notin> set ''+/='')"
proof -
  obtain seed pub where *: "decode_base64_bytes private_key = Some seed" "decode_base64_bytes public_key = Some pub"
    "length seed = 32" "length pub = 32"
    "x = b64_to_b64url (btoa (from_char_codes pub))" "d = b64_to_b64url (btoa (from_char_codes seed))"
    using assms by (auto simp: load_ed25519_def split: option.splits if_splits)
  have "length (b64_to_b64url (btoa (from_char_codes bs))) = 43" if "length bs = 32" for bs
    using that by (simp add: b64url_btoa length_b64_body)
  moreover have "c \<notin> set ''+/=''" if "c \<in> set (b64_to_b64url (btoa bin))" for c bin
    using that b64_body_alphabet[of _ bin] url_char_neq by (auto simp: b64url_btoa)
  ultimately show ?thesis unfolding *(5,6) using *(1-4) b64url_bytes_field by auto
qed

section \<open>decodeJwtPayload\<close>

definition decode_jwt_payload :: "(string \<Rightarrow> json option) \<Rightarrow> string \<Rightarrow> json" where
  "decode_jwt_payload json_parse jwt =
     (case split_on (CHR ''.'') jwt of
        _ # part # _ \<Rightarrow>
          if part = [] then JNull
          else
            (let b64 = map plain_char part;
                 padded = b64 @ replicate ((4 - length b64 mod 4) mod 4) (CHR ''='')
             in case atob padded of None \<Rightarrow> JNull | Some text \<Rightarrow> or_else (json_parse text) JNull)
      | _ \<Rightarrow> JNull)"

lemma repeat_fits:
  assumes "n mod 4 \<noteq> (1::nat)"
  shows "(4 - n mod 4) mod 4 = 0 \<or> (n + (4 - n mod 4) mod 4) mod 4 = 0" "(4 - n mod 4) mod 4 \<le> 2"
proof -
  have less: "n mod 4 < 4" by simp
  then have "(4 - n mod 4) mod 4 = (if n mod 4 = 0 then 0 else 4 - n mod 4)" by simp
  moreover from this have "(n + (4 - n mod 4)) mod 4 = 0"
    using less mod_mult_div_eq[of n 4] by (metis add.commute add_diff_inverse_nat less_imp_not_less mod_add_left_eq mod_self)
  ultimately show "(4 - n mod 4) mod 4 = 0 \<or> (n + (4 - n mod 4) mod 4) mod 4 = 0" by simp
  show "(4 - n mod 4) mod 4 \<le> 2" using less assms by (cases "n mod 4 = 0") simp_all
qed

lemma split_on_append: "c \<notin> set xs \<Longrightarrow> split_on c (xs @ c # ys) = xs # split_on c ys"
  by (induction xs) auto

theorem jwt_payload_read:
  assumes "CHR ''.'' \<notin> set hdr" "bin \<noteq> []"
  shows "decode_jwt_payload json_parse (hdr @ ''.'' @ b64_to_b64url (btoa bin) @ ''.'' @ sg) =
    or_else (json_parse bin) JNull"
proof -
  let ?part = "b64_to_b64url (btoa bin)"
  have "c \<noteq> CHR ''.''" if "c \<in> set ?part" for c
    using that b64_body_alphabet[of _ bin] url_char_neq by (auto simp: b64url_btoa)
  then have "CHR ''.'' \<notin> set ?part" by blast
  then have "split_on (CHR ''.'') (hdr @ ''.'' @ ?part @ ''.'' @ sg) =
      hdr # ?part # split_on (CHR ''.'') sg"
    using assms(1) by (simp add: split_on_append)
  moreover have "0 < length ?part"
    using assms(2) by (cases bin) (simp_all add: b64url_btoa length_b64_body)
  moreover note fits = repeat_fits[OF body_length_mod, of bin]
  have "atob (b64_body bin @ replicate ((4 - length (b64_body bin) mod 4) mod 4) (CHR ''='')) = Some bin"
    using fits by (rule atob_padded)
  ultimately show ?thesis by (simp add: decode_jwt_payload_def Let_def plain_b64url)
qed

end
