(* ===== verification/Boot.thy ===== *)
theory Boot
  imports Base64 Js_Parse Key_Derive Auth Api_App
begin

text \<open>
  Start-up: the environment schemas of \<open>api/src/env.ts\<close> and \<open>admin/src/env.ts\<close> and, for the
  api, the key pair that is loaded next.  A misconfigured value stops the process, so
  what a schema promises holds in every running process.  The schema library is modelled
  as documented: a default replaces an unset variable and is validated like a set one, the
  coercion is \<open>Number\<close>, and every failed check is an issue.  Whether a text is a URL is a
  parameter.
\<close>

section \<open>Fields\<close>

datatype issue = Missing | Too_short nat | Not_a_number | Not_an_integer | Not_positive | Not_an_option | Not_a_url

type_synonym 'a env_field = "(string \<times> issue) list + 'a"

type_synonym raw_env = "string \<Rightarrow> string option"

definition text_field :: "nat \<Rightarrow> raw_env \<Rightarrow> string \<Rightarrow> string env_field" where
  "text_field n raw name =
     (case raw name of
        None \<Rightarrow> Inl [(name, Missing)]
      | Some s \<Rightarrow> if length s < n then Inl [(name, Too_short n)] else Inr s)"

definition plain_field :: "string \<Rightarrow> raw_env \<Rightarrow> string \<Rightarrow> string env_field" where
  "plain_field d raw name = Inr (or_else (raw name) d)"

definition url_field :: "(string \<Rightarrow> bool) \<Rightarrow> string \<Rightarrow> raw_env \<Rightarrow> string \<Rightarrow> string env_field" where
  "url_field valid_url d raw name =
     (let s = or_else (raw name) d in if valid_url s then Inr s else Inl [(name, Not_a_url)])"

definition level_field :: "raw_env \<Rightarrow> string \<Rightarrow> log_level env_field" where
  "level_field raw name =
     (case raw name of
        None \<Rightarrow> Inr Info
      | Some s \<Rightarrow>
          (case find (\<lambda>l. level_text l = s) [Debug, Info, Warn, Error] of
             None \<Rightarrow> Inl [(name, Not_an_option)] | Some l \<Rightarrow> Inr l))"

definition coerced :: "int \<Rightarrow> string option \<Rightarrow> js_num" where
  "coerced d v = (case v of None \<Rightarrow> Fin (of_int d) | Some s \<Rightarrow> js_number s)"

definition number_field :: "int \<Rightarrow> raw_env \<Rightarrow> string \<Rightarrow> js_num env_field" where
  "number_field d raw name =
     (let n = coerced d (raw name) in if n = NaN then Inl [(name, Not_a_number)] else Inr n)"

text \<open>\<open>int()\<close> and \<open>positive()\<close> are separate checks, and both may fail.\<close>

definition js_integer :: "js_num \<Rightarrow> int option" where
  "js_integer n = (case n of Fin x \<Rightarrow> if x = of_int \<lfloor>x\<rfloor> then Some \<lfloor>x\<rfloor> else None | _ \<Rightarrow> None)"

definition js_positive :: "js_num \<Rightarrow> bool" where
  "js_positive n = (case n of Fin x \<Rightarrow> 0 < x | Infinity negative \<Rightarrow> \<not> negative | NaN \<Rightarrow> False)"

definition positive_field :: "int \<Rightarrow> raw_env \<Rightarrow> string \<Rightarrow> int env_field" where
  "positive_field d raw name =
     (let n = coerced d (raw name)
      in if n = NaN then Inl [(name, Not_a_number)]
         else
           (case (if js_integer n = None then [(name, Not_an_integer)] else []) @
                 (if js_positive n then [] else [(name, Not_positive)]) of
              [] \<Rightarrow> Inr (or_else (js_integer n) 0) | issues \<Rightarrow> Inl issues))"

definition issues_of :: "'a env_field \<Rightarrow> (string \<times> issue) list" where
  "issues_of f = (case f of Inl is \<Rightarrow> is | Inr _ \<Rightarrow> [])"

lemma issues_of_simps [simp]: "issues_of (Inl is) = is" "issues_of (Inr a) = []"
  by (simp_all add: issues_of_def)

section \<open>The two environments\<close>

record api_settings =
  app_user_database_url :: string
  bypassrls_database_url :: string
  port :: js_num
  log_threshold :: log_level
  kamuid_issuer :: string
  kamuhub_jwks_url :: string
  kamuhub_dev_jwk :: string
  ed25519_private_key :: string
  ed25519_public_key :: string
  ed25519_key_id :: string
  default_subkey_ttl_seconds :: int
  max_subkey_ttl_seconds :: int
  subkey_derive_rate_per_min :: int
  subkey_derive_max_active :: int
  key_meta_cache_ttl_sec :: int
  llm_proxy_url :: string
  control_plane_poll_token :: string
  usage_poll_interval_ms :: int
  internal_api_token :: string

definition api_env :: "(string \<Rightarrow> bool) \<Rightarrow> raw_env \<Rightarrow> api_settings env_field" where
  "api_env valid_url raw =
     (let app = text_field 1 raw ''APP_USER_DATABASE_URL'';
          bypass = text_field 1 raw ''BYPASSRLS_DATABASE_URL'';
          pt = number_field 8300 raw ''PORT'';
          level = level_field raw ''LOG_LEVEL'';
          issuer = url_field valid_url ''https://accounts.kamuhub.com'' raw ''KAMUID_ISSUER'';
          jwks = plain_field ''dev'' raw ''KAMUHUB_JWKS_URL'';
          jwk = plain_field '''' raw ''KAMUHUB_DEV_JWK'';
          private = text_field 1 raw ''ED25519_PRIVATE_KEY'';
          public = text_field 1 raw ''ED25519_PUBLIC_KEY'';
          kid = plain_field ''dev-ed25519-1'' raw ''ED25519_KEY_ID'';
          ttl = positive_field 3600 raw ''DEFAULT_SUBKEY_TTL_SECONDS'';
          most = positive_field 86400 raw ''MAX_SUBKEY_TTL_SECONDS'';
          rate = positive_field 60 raw ''SUBKEY_DERIVE_RATE_PER_MIN'';
          active = positive_field 1000 raw ''SUBKEY_DERIVE_MAX_ACTIVE'';
          meta = positive_field 10 raw ''KEY_META_CACHE_TTL_SEC'';
          proxy = url_field valid_url ''http://localhost:8301'' raw ''LLM_PROXY_URL'';
          poll = text_field 1 raw ''CONTROL_PLANE_POLL_TOKEN'';
          interval = positive_field 2000 raw ''USAGE_POLL_INTERVAL_MS'';
          internal = text_field 1 raw ''INTERNAL_API_TOKEN''
      in case issues_of app @ issues_of bypass @ issues_of pt @ issues_of level @ issues_of issuer @
              issues_of jwks @ issues_of jwk @ issues_of private @ issues_of public @ issues_of kid @
              issues_of ttl @ issues_of most @ issues_of rate @ issues_of active @ issues_of meta @
              issues_of proxy @ issues_of poll @ issues_of interval @ issues_of internal of
           [] \<Rightarrow> Inr \<lparr>app_user_database_url = projr app, bypassrls_database_url = projr bypass, port = projr pt,
               log_threshold = projr level, kamuid_issuer = projr issuer, kamuhub_jwks_url = projr jwks,
               kamuhub_dev_jwk = projr jwk, ed25519_private_key = projr private,
               ed25519_public_key = projr public, ed25519_key_id = projr kid,
               default_subkey_ttl_seconds = projr ttl, max_subkey_ttl_seconds = projr most,
               subkey_derive_rate_per_min = projr rate, subkey_derive_max_active = projr active,
               key_meta_cache_ttl_sec = projr meta, llm_proxy_url = projr proxy,
               control_plane_poll_token = projr poll, usage_poll_interval_ms = projr interval,
               internal_api_token = projr internal\<rparr>
         | issues \<Rightarrow> Inl issues)"

record admin_settings =
  admin_port :: js_num
  admin_database_url :: string
  admin_auth_database_url :: string
  better_auth_secret :: string
  admin_base_url :: string
  admin_log_level :: log_level

definition admin_env :: "(string \<Rightarrow> bool) \<Rightarrow> raw_env \<Rightarrow> admin_settings env_field" where
  "admin_env valid_url raw =
     (let pt = number_field 8302 raw ''PORT'';
          db = text_field 1 raw ''ADMIN_DATABASE_URL'';
          au = text_field 1 raw ''ADMIN_AUTH_DATABASE_URL'';
          sec = text_field 16 raw ''BETTER_AUTH_SECRET'';
          base = url_field valid_url ''http://localhost:8302'' raw ''BASE_URL'';
          level = level_field raw ''LOG_LEVEL''
      in case issues_of pt @ issues_of db @ issues_of au @ issues_of sec @ issues_of base @ issues_of level of
           [] \<Rightarrow> Inr \<lparr>admin_port = projr pt, admin_database_url = projr db, admin_auth_database_url = projr au,
                       better_auth_secret = projr sec, admin_base_url = projr base, admin_log_level = projr level\<rparr>
         | issues \<Rightarrow> Inl issues)"

text \<open>What the handlers read of it.\<close>

definition derive_settings :: "api_settings \<Rightarrow> derive_env" where
  "derive_settings s = \<lparr>default_ttl = default_subkey_ttl_seconds s, max_ttl = max_subkey_ttl_seconds s,
     rate_per_min = nat (subkey_derive_rate_per_min s), max_active = nat (subkey_derive_max_active s),
     signing_kid = ed25519_key_id s\<rparr>"

definition auth_settings :: "api_settings \<Rightarrow> auth_env" where
  "auth_settings s = \<lparr>jwks_url = kamuhub_jwks_url s, dev_jwk = kamuhub_dev_jwk s\<rparr>"

section \<open>Booting the api\<close>

datatype boot_error = Invalid_environment "(string \<times> issue) list" | Bad_key_pair ed25519_error

record booted =
  bt_settings :: api_settings
  bt_x :: string
  bt_d :: string

definition boot_api :: "(string \<Rightarrow> bool) \<Rightarrow> raw_env \<Rightarrow> boot_error + booted" where
  "boot_api valid_url raw =
     (case api_env valid_url raw of
        Inl issues \<Rightarrow> Inl (Invalid_environment issues)
      | Inr s \<Rightarrow>
          (case load_ed25519 (ed25519_private_key s) (ed25519_public_key s) of
             Inl e \<Rightarrow> Inl (Bad_key_pair e)
           | Inr (x, d) \<Rightarrow> Inr \<lparr>bt_settings = s, bt_x = x, bt_d = d\<rparr>))"

section \<open>What a field promises\<close>

lemma case_issues: "(case xs of [] \<Rightarrow> Inr a | issues \<Rightarrow> Inl issues) = Inr s \<longleftrightarrow> xs = [] \<and> s = a"
  by (cases xs) auto

lemma text_field_ok: "issues_of (text_field n raw name) = [] \<Longrightarrow> raw name = Some (projr (text_field n raw name)) \<and>
    n \<le> length (projr (text_field n raw name))"
  by (auto simp: text_field_def split: option.splits if_splits)

lemma js_integer_positive: "js_integer n = Some i \<Longrightarrow> js_positive n \<Longrightarrow> 1 \<le> i"
  by (cases n) (auto simp: js_integer_def js_positive_def split: if_splits)

lemma positive_field_ok: "issues_of (positive_field d raw name) = [] \<Longrightarrow> 1 \<le> projr (positive_field d raw name)"
  by (cases "js_integer (coerced d (raw name))"; cases "js_positive (coerced d (raw name))")
    (auto simp: positive_field_def Let_def or_else_def js_integer_positive split: if_splits)

lemma url_field_ok: "issues_of (url_field valid_url d raw name) = [] \<Longrightarrow> valid_url (projr (url_field valid_url d raw name))"
  by (auto simp: url_field_def Let_def split: if_splits)

lemma api_env_Inr:
  assumes "api_env valid_url raw = Inr s"
  shows "raw ''ED25519_PRIVATE_KEY'' = Some (ed25519_private_key s)" "raw ''ED25519_PUBLIC_KEY'' = Some (ed25519_public_key s)"
    "raw ''INTERNAL_API_TOKEN'' = Some (internal_api_token s)" "internal_api_token s \<noteq> []"
    "raw ''CONTROL_PLANE_POLL_TOKEN'' = Some (control_plane_poll_token s)" "control_plane_poll_token s \<noteq> []"
    "1 \<le> default_subkey_ttl_seconds s" "1 \<le> max_subkey_ttl_seconds s" "1 \<le> subkey_derive_rate_per_min s"
    "1 \<le> subkey_derive_max_active s" "1 \<le> key_meta_cache_ttl_sec s" "1 \<le> usage_poll_interval_ms s"
    "valid_url (llm_proxy_url s)" "valid_url (kamuid_issuer s)"
proof -
  note * = assms[unfolded api_env_def Let_def case_issues append_is_Nil_conv]
  have secret: "raw name = Some (projr (text_field 1 raw name)) \<and> projr (text_field 1 raw name) \<noteq> []"
    if "issues_of (text_field 1 raw name) = []" for name
    using text_field_ok[OF that] by auto
  show "raw ''ED25519_PRIVATE_KEY'' = Some (ed25519_private_key s)" "raw ''ED25519_PUBLIC_KEY'' = Some (ed25519_public_key s)"
    "raw ''INTERNAL_API_TOKEN'' = Some (internal_api_token s)" "internal_api_token s \<noteq> []"
    "raw ''CONTROL_PLANE_POLL_TOKEN'' = Some (control_plane_poll_token s)" "control_plane_poll_token s \<noteq> []"
    using * secret by simp_all
  show "1 \<le> default_subkey_ttl_seconds s" "1 \<le> max_subkey_ttl_seconds s" "1 \<le> subkey_derive_rate_per_min s"
    "1 \<le> subkey_derive_max_active s" "1 \<le> key_meta_cache_ttl_sec s" "1 \<le> usage_poll_interval_ms s"
    using * positive_field_ok[of _ raw] by simp_all
  show "valid_url (llm_proxy_url s)" "valid_url (kamuid_issuer s)"
    using * url_field_ok[of valid_url _ raw] by simp_all
qed

end
