(* ===== verification/Number_Text.thy ===== *)
theory Number_Text
  imports Internal_Prices
begin

text \<open>
  \<open>Number::toString\<close> and \<open>Number\<close> are inverse: seventeen significant digits always suffice to tell
  a double from its neighbours, and each of the four formats is read back.  Prices travel through
  both on their way from a page or a JSON body into the table.
\<close>

section \<open>Seventeen digits suffice\<close>

lemma round_even_near:
  assumes "\<bar>y - of_int k\<bar> < 1 / 2" shows "round_even y = k"
proof -
  have "\<bar>of_int (round_even y) - y\<bar> \<le> 1 / 2" by (rule round_even_err)
  then have "\<bar>of_int (round_even y - k) :: rat\<bar> < 1" unfolding of_int_diff using assms by linarith
  then show ?thesis by linarith
qed

lemma double_multiple:
  assumes "is_double x" "0 < x" "p \<le> quantum x"
  obtains m :: int where "x = of_int m * 2 powi p"
proof -
  define r where "r = round_even (x / 2 powi quantum x)"
  have "x = of_int r * 2 powi quantum x"
    using fl_pos_form[OF assms(2)] assms(1) by (simp add: r_def)
  also have "2 powi quantum x = (2::rat) powi p * 2 ^ nat (quantum x - p)"
    using powi_split[of p "nat (quantum x - p)"] assms(3) by simp
  finally have "x = of_int (r * 2 ^ nat (quantum x - p)) * 2 powi p" by (simp add: mult_ac)
  then show ?thesis by (rule that)
qed

lemma multiples_apart:
  assumes "of_int a * 2 powi q < of_int b * (2::rat) powi q"
  shows "of_int a * 2 powi q + 2 powi q \<le> of_int b * (2::rat) powi q"
proof -
  have "of_int a < (of_int b :: rat)" using assms by simp
  then have "a + 1 \<le> b" by simp
  then have "(of_int (a + 1) :: rat) \<le> of_int b" by (simp only: of_int_le_iff)
  then have "(of_int (a + 1) :: rat) * 2 powi q \<le> of_int b * 2 powi q" by (rule mult_right_mono) simp
  then show ?thesis by (simp add: algebra_simps)
qed

lemma powi_multiple: "q \<le> e \<Longrightarrow> (2::rat) powi e = of_int (2 ^ nat (e - q)) * 2 powi q"
  using powi_split[of q "nat (e - q)"] by (simp add: mult.commute)

lemma double_ge_quantum:
  assumes "is_double x" "0 < x" shows "2 powi quantum x \<le> x"
proof -
  obtain m :: int where m: "x = of_int m * 2 powi quantum x" using double_multiple[OF assms order_refl] .
  then have "0 < m" using assms(2) by (metis not_less of_int_0_le_iff of_int_le_0_iff mult_nonpos_nonneg zero_le_power_int zero_le_numeral less_le_not_le)
  then show ?thesis using multiples_apart[of 0 "quantum x" m] assms(2) m by simp
qed

text \<open>A decimal closer than \<open>x / 2^54\<close> to a double \<open>x\<close> is read as \<open>x\<close>.\<close>

lemma fl_near:
  assumes x: "is_double x" "0 < x" and d: "\<bar>d - x\<bar> < x * 2 powi (-54)"
  shows "fl d = x"
proof -
  define e q where "e = ilog 2 x" and "q = quantum x"
  have e: "2 powi e \<le> x" "x < 2 powi (e + 1)" using ilog_bounds[of 2 x] x(2) by (simp_all add: e_def)
  have q: "q = max (e - 52) (-1074)" using x(2) by (simp add: q_def quantum_def e_def)
  have qe: "q \<le> e"
  proof -
    have "(2::rat) powi q \<le> x" using double_ge_quantum[OF x] by (simp add: q_def)
    then have "q \<le> ilog 2 x" using x(2) by (intro ilog_ge) simp_all
    then show ?thesis by (simp add: e_def)
  qed
  obtain m where m: "x = of_int m * 2 powi q" using double_multiple[OF x order_refl] unfolding q_def by blast
  have small: "x * 2 powi (-54) < 2 powi (e - 53)"
  proof -
    have "x * 2 powi (-54) < 2 powi (e + 1) * 2 powi (-54)" using e(2) by simp
    also have "\<dots> = 2 powi (e - 53)" using power_int_add[of "2::rat" "e + 1" "-54"] by simp
    finally show ?thesis .
  qed
  have eq1: "(2::rat) powi (e - 53) \<le> 2 powi (q - 1)" using q by (intro power_int_increasing) simp_all
  have qhalf: "(2::rat) powi (q - 1) < 2 powi q" by (intro power_int_strict_increasing) simp_all
  have top: "x + 2 powi q \<le> 2 powi (e + 1)"
    using multiples_apart[of m q "2 ^ nat (e + 1 - q)"] powi_multiple[of q "e + 1"] e(2) qe m by simp
  have d0: "0 < d"
  proof -
    have "x * 2 powi (-54) < x * 1" using x(2) by (intro mult_strict_left_mono) (simp_all add: power_int_minus)
    then show ?thesis using d by linarith
  qed
  have "d < 2 powi (e + 1)" using d small eq1 qhalf top by linarith
  then have le: "ilog 2 d \<le> e" using d0 by (intro ilog_le) simp_all
  define p where "p = quantum d"
  have p: "p = max (ilog 2 d - 52) (-1074)" using d0 by (simp add: p_def quantum_def)
  have close: "p \<le> q \<and> \<bar>d - x\<bar> < 2 powi (p - 1)"
  proof (cases "2 powi e \<le> d")
    case True
    then have "e \<le> ilog 2 d" using d0 by (intro ilog_ge) simp_all
    then have "p = q" using le p q by simp
    then have "\<bar>d - x\<bar> < 2 powi (p - 1)" using d small eq1 by simp
    then show ?thesis using \<open>p = q\<close> by simp
  next
    case False
    have "x = 2 powi e"
    proof (rule ccontr)
      assume "x \<noteq> 2 powi e"
      then have "2 powi e < x" using e(1) by simp
      then have "2 powi e + 2 powi q \<le> x"
        using multiples_apart[of "2 ^ nat (e - q)" q m] powi_multiple[OF qe] m by simp
      then show False using False d small eq1 qhalf by linarith
    qed
    then have dist: "\<bar>d - x\<bar> < 2 powi (e - 54)"
      using d power_int_add[of "2::rat" e "-54"] by simp
    have "(2::rat) powi (e - 54) \<le> 2 powi (e - 1)" by (intro power_int_increasing) simp_all
    moreover have "2 powi (e - 1) * 2 = (2::rat) powi e" using power_int_add_1[of "2::rat" "e - 1"] by simp
    ultimately have "2 powi (e - 1) \<le> d" using dist \<open>x = 2 powi e\<close> by linarith
    then have "e - 1 \<le> ilog 2 d" using d0 by (intro ilog_ge) simp_all
    then have "e - 53 \<le> p" using p by simp
    then have "(2::rat) powi (e - 54) \<le> 2 powi (p - 1)" by (intro power_int_increasing) simp_all
    moreover have "p \<le> q" using le p q by simp
    ultimately show ?thesis using dist by linarith
  qed
  then obtain k where k: "x = of_int k * 2 powi p" using double_multiple[OF x, of p] unfolding q_def by blast
  have "2 powi (p - 1) * 2 = (2::rat) powi p" using power_int_add_1[of "2::rat" "p - 1"] by simp
  then have "\<bar>d - x\<bar> / 2 powi p < 1 / 2" using close by (simp add: pos_divide_less_eq)
  moreover have "d / 2 powi p - of_int k = (d - x) / 2 powi p" by (simp add: k diff_divide_distrib)
  ultimately have "\<bar>d / 2 powi p - of_int k\<bar> < 1 / 2" by simp
  then have "round_even (d / 2 powi p) = k" by (rule round_even_near)
  then show ?thesis using fl_pos_form[OF d0] k by (simp add: p_def)
qed

section \<open>The decimal that is printed\<close>

lemma ilog10: "0 < x \<Longrightarrow> 10 powi ilog 10 x \<le> x \<and> x < 10 powi (ilog 10 x + 1)"
  using ilog_bounds[of 10 x] by simp

lemma decimals_around_form:
  assumes "0 < x" "1 \<le> j" "d \<in> set (decimals_around x j)"
  obtains m :: int where "d = of_int m * 10 powi (ilog 10 x - int j + 1)" "10 ^ (j - 1) \<le> m" "m \<le> 10 ^ j"
proof -
  define s where "s = (10::rat) powi (ilog 10 x - int j + 1)"
  have s: "0 < s" by (simp add: s_def)
  obtain i where i: "j = Suc i" using assms(2) by (cases j) simp_all
  have s0: "10 ^ i * s = 10 powi ilog 10 x"
    using power_int_add[of "10::rat" "int i" "ilog 10 x - int j + 1"] i by (simp add: s_def)
  moreover have "10 ^ Suc i * s = 10 powi (ilog 10 x + 1)"
    using s0 power_int_add_1[of "10::rat" "ilog 10 x"] by (simp add: mult.assoc)
  ultimately have "10 ^ i * s = 10 powi ilog 10 x" "10 ^ Suc i * s = 10 powi (ilog 10 x + 1)" by blast+
  then have "10 ^ (j - 1) \<le> x / s" "x / s < 10 ^ j"
    unfolding i using ilog10[OF assms(1)] s by (simp_all add: pos_le_divide_eq pos_divide_less_eq)
  then have "of_int (10 ^ (j - 1)) \<le> x / s" "x / s < of_int (10 ^ j)" by simp_all
  then have f: "10 ^ (j - 1) \<le> \<lfloor>x / s\<rfloor>" "\<lfloor>x / s\<rfloor> < 10 ^ j" by (simp_all only: le_floor_iff floor_less_iff)
  have "d = of_int \<lfloor>x / s\<rfloor> * s \<or> d = of_int (\<lfloor>x / s\<rfloor> + 1) * s"
    using assms(3) by (auto simp: decimals_around_def Let_def s_def split: if_splits)
  then show ?thesis
  proof
    assume "d = of_int \<lfloor>x / s\<rfloor> * s"
    then show ?thesis using f that[of "\<lfloor>x / s\<rfloor>"] by (simp add: s_def)
  next
    assume "d = of_int (\<lfloor>x / s\<rfloor> + 1) * s"
    then show ?thesis using f that[of "\<lfloor>x / s\<rfloor> + 1"] by (simp add: s_def)
  qed
qed

lemma nearest_decimal:
  assumes "0 < x"
  shows "\<bar>hd (decimals_around x j) - x\<bar> \<le> 10 powi (ilog 10 x - int j + 1) / 2 \<and>
    hd (decimals_around x j) \<in> set (decimals_around x j)"
proof -
  define s where "s = (10::rat) powi (ilog 10 x - int j + 1)"
  have s: "0 < s" by (simp add: s_def)
  have "of_int \<lfloor>x / s\<rfloor> \<le> x / s" "x / s < of_int (\<lfloor>x / s\<rfloor> + 1)" by linarith+
  then have "of_int \<lfloor>x / s\<rfloor> * s \<le> x" "x < of_int (\<lfloor>x / s\<rfloor> + 1) * s"
    using s by (simp_all only: pos_le_divide_eq pos_divide_less_eq)
  moreover have "of_int (\<lfloor>x / s\<rfloor> + 1) * s = of_int \<lfloor>x / s\<rfloor> * s + s" by (simp add: algebra_simps)
  ultimately have "x - of_int \<lfloor>x / s\<rfloor> * s \<le> of_int (\<lfloor>x / s\<rfloor> + 1) * s - x \<Longrightarrow> \<bar>of_int \<lfloor>x / s\<rfloor> * s - x\<bar> \<le> s / 2"
    "\<not> x - of_int \<lfloor>x / s\<rfloor> * s \<le> of_int (\<lfloor>x / s\<rfloor> + 1) * s - x \<Longrightarrow> \<bar>of_int (\<lfloor>x / s\<rfloor> + 1) * s - x\<bar> \<le> s / 2"
    by linarith+
  then show ?thesis by (simp only: decimals_around_def Let_def flip: s_def) (simp split: if_split)
qed

lemma num_text_digits:
  assumes "is_double x" "0 < x"
  obtains j m where "1 \<le> j" "j \<le> 17" "num_text_pos x = of_int m * 10 powi (ilog 10 x - int j + 1)"
    "10 ^ (j - 1) \<le> m" "m \<le> 10 ^ j"
proof -
  have "10 powi (ilog 10 x - 16) / 2 < x * 2 powi (-54)"
  proof -
    have "10 powi (ilog 10 x - 16) = 10 powi ilog 10 x * (10::rat) powi (-16)"
      using power_int_add[of "10::rat" "ilog 10 x" "-16"] by simp
    also have "\<dots> \<le> x * 10 powi (-16)" using ilog10[OF assms(2)] by simp
    also have "\<dots> < x * (2 powi (-54) * 2)" using assms(2) by (simp add: power_int_minus)
    finally show ?thesis by simp
  qed
  then have "\<bar>hd (decimals_around x 17) - x\<bar> < x * 2 powi (-54)"
    using nearest_decimal[OF assms(2), of 17] by simp
  then have "fl (hd (decimals_around x 17)) = x" by (rule fl_near[OF assms])
  moreover have "hd (decimals_around x 17) \<in> set (concat (map (decimals_around x) [1..<18]))"
    using nearest_decimal[OF assms(2), of 17] by fastforce
  ultimately have "find (\<lambda>d. fl d = x) (concat (map (decimals_around x) [1..<18])) \<noteq> None"
    unfolding find_None_iff by blast
  then obtain d where d: "find (\<lambda>d. fl d = x) (concat (map (decimals_around x) [1..<18])) = Some d" by blast
  then obtain j where j: "j \<in> set [1..<18]" "d \<in> set (decimals_around x j)" by (auto dest!: find_SomeD)
  have n: "num_text_pos x = d" unfolding num_text_pos_def d by simp
  from j(1) have "1 \<le> j" "j \<le> 17" by simp_all
  then show ?thesis using decimals_around_form[OF assms(2) _ j(2)] that[of j] n by metis
qed

section \<open>Decimal digits\<close>

lemma is_digit_hex_char: "n < 10 \<Longrightarrow> is_digit (hex_char n)"
  using less_16_cases[of n] by (auto simp: is_digit_def hex_char_def)

lemma base_value_append: "base_value 10 (s @ [hex_char d]) = base_value 10 s * 10 + d" if "d < 16"
  using that by (simp add: base_value_def or_else_def)

lemma base_value_zeros: "base_value 10 (s @ replicate i (CHR ''0'')) = base_value 10 s * 10 ^ i"
proof (induction i)
  case (Suc i)
  have "base_value 10 (s @ replicate (Suc i) (CHR ''0'')) = base_value 10 ((s @ replicate i (CHR ''0'')) @ [hex_char 0])"
    by (simp add: replicate_append_same[symmetric] hex_char_def)
  also have "\<dots> = base_value 10 (s @ replicate i (CHR ''0'')) * 10 + 0" by (rule base_value_append) simp
  also have "\<dots> = base_value 10 s * 10 ^ Suc i" using Suc by simp
  finally show ?case .
qed simp

lemma foldl_zeros: "foldl (\<lambda>a c. a * 10 + or_else (hex_val c) 0) 0 (replicate i (CHR ''0'') @ s) =
    foldl (\<lambda>a c. a * 10 + or_else (hex_val c) 0) (0::nat) s"
  by (induction i) (simp_all add: hex_val_def or_else_def)

lemma base_value_leading: "base_value 10 (replicate i (CHR ''0'') @ s) = base_value 10 s"
  unfolding base_value_def by (rule foldl_zeros)

lemma dec_text_digits: "list_all is_digit (dec_text v)" "dec_text v \<noteq> []" "base_value 10 (dec_text v) = v"
proof -
  have "list_all is_digit (dec_text v) \<and> dec_text v \<noteq> [] \<and> base_value 10 (dec_text v) = v"
  proof (induction v rule: dec_text.induct)
    case (1 v)
    show ?case
    proof (cases "v < 10")
      case True
      then have "dec_text v = [] @ [hex_char v]" by (subst dec_text.simps) simp
      then show ?thesis using True base_value_append[of v "[]"] by (simp add: is_digit_hex_char base_value_def)
    next
      case False
      then have "dec_text v = dec_text (v div 10) @ [hex_char (v mod 10)]" by (subst dec_text.simps) simp
      then show ?thesis using 1 False base_value_append[of "v mod 10" "dec_text (v div 10)"] by (simp add: is_digit_hex_char)
    qed
  qed
  then show "list_all is_digit (dec_text v)" "dec_text v \<noteq> []" "base_value 10 (dec_text v) = v" by blast+
qed

lemma length_dec_text: "10 ^ k \<le> v \<Longrightarrow> v < 10 ^ Suc k \<Longrightarrow> length (dec_text v) = Suc k"
proof (induction k arbitrary: v)
  case 0
  then show ?case by (subst dec_text.simps) simp
next
  case (Suc k)
  have "10 ^ k \<le> v div 10" "v div 10 < 10 ^ Suc k" using Suc.prems by (simp_all add: div_le_mono le_div_geq less_mult_imp_div_less mult.commute div_less_iff_less_mult less_eq_div_iff_mult_less_eq)
  then have "length (dec_text (v div 10)) = Suc k" by (rule Suc.IH)
  moreover have "\<not> v < 10"
  proof -
    have "(10::nat) \<le> 10 ^ Suc k" by simp
    then show ?thesis using Suc.prems(1) by linarith
  qed
  ultimately show ?case by (subst dec_text.simps) simp
qed

lemma pow_powi: "10 ^ i * 10 powi k = (10::rat) powi (int i + k)"
  by (simp add: power_int_add)

lemma decimal_digits_value:
  assumes x: "is_double x" "0 < x"
  defines "v \<equiv> num_text_pos x"
  defines "n \<equiv> ilog 10 v + 1"
  obtains N k where "decimal_digits v n = dec_text N" "length (dec_text N) = k" "1 \<le> k" "k \<le> 17"
    "v = of_nat N * 10 powi (n - int k)"
proof -
  let ?E = "ilog 10 x"
  obtain j m where j: "1 \<le> j" "j \<le> 17" "v = of_int m * 10 powi (?E - int j + 1)" "10 ^ (j - 1) \<le> m" "m \<le> 10 ^ j"
    using num_text_digits[OF x] unfolding v_def by metis
  have m: "(10::rat) ^ (j - 1) \<le> of_int m" "of_int m \<le> (10::rat) ^ j"
    using j(4,5) by (metis of_int_le_iff of_int_numeral of_int_power)+
  obtain i where i: "j = Suc i" using j(1) by (cases j) simp_all
  have p: "10 ^ j * 10 powi (?E - int j + 1) = (10::rat) powi (?E + 1)" "10 ^ (j - 1) * 10 powi (?E - int j + 1) = (10::rat) powi ?E"
    using pow_powi[of j "?E - int j + 1"] pow_powi[of i "?E - int j + 1"] by (simp_all add: i add.commute)
  have "(10::rat) powi ?E \<le> v" unfolding j(3) using m(1) by (simp flip: p(2))
  then have v0: "0 < v" by (rule less_le_trans[rotated]) simp
  have "\<exists>k\<in>set [1..<18]. v * 10 powi (int k - n) = of_int \<lfloor>v * 10 powi (int k - n)\<rfloor>"
  proof (cases "m = 10 ^ j")
    case True
    then have v: "v = 10 powi (?E + 1)" using j(3) p(1) by simp
    then have "ilog 10 v = ?E + 1"
      using v0 by (intro antisym ilog_le ilog_ge) (simp_all add: power_int_strict_increasing)
    then have "v * 10 powi (int 1 - n) = of_int 1" using v by (simp add: n_def flip: power_int_add)
    then show ?thesis by (intro bexI[of _ 1]) simp_all
  next
    case False
    then have "m < 10 ^ j" using j(5) by simp
    then have "of_int m < (10::rat) ^ j" by (metis of_int_less_iff of_int_numeral of_int_power)
    then have "v < 10 powi (?E + 1)" unfolding j(3) by (simp flip: p(1))
    then have "ilog 10 v = ?E"
      using v0 \<open>10 powi ?E \<le> v\<close> by (intro antisym ilog_le ilog_ge) simp_all
    then have e: "n = ?E + 1" by (simp add: n_def)
    have "v * 10 powi (int j - n) = of_int m * (10 powi (?E - int j + 1) * 10 powi (int j - n))"
      unfolding j(3) by (simp only: mult.assoc)
    also have "\<dots> = of_int m" by (simp add: e flip: power_int_add)
    finally have "v * 10 powi (int j - n) = of_int m" .
    then show ?thesis using j(1,2) by (intro bexI[of _ j]) simp_all
  qed
  then obtain k where k: "find (\<lambda>k. v * 10 powi (int k - n) = of_int \<lfloor>v * 10 powi (int k - n)\<rfloor>) [1..<18] = Some k"
    by (metis (mono_tags, lifting) find_None_iff option.exhaust)
  then have kk: "1 \<le> k" "k \<le> 17" "v * 10 powi (int k - n) = of_int \<lfloor>v * 10 powi (int k - n)\<rfloor>"
    by (auto dest: find_SomeD)
  define N where "N = nat \<lfloor>v * 10 powi (int k - n)\<rfloor>"
  have "0 \<le> v * 10 powi (int k - n)" using v0 by simp
  then have N: "v * 10 powi (int k - n) = of_nat N" using kk(3) by (simp add: N_def)
  have "v = v * (10 powi (int k - n) * 10 powi (n - int k))" by (simp flip: power_int_add)
  then have v: "v = of_nat N * 10 powi (n - int k)" unfolding N[symmetric] by (simp add: mult.assoc)
  obtain i where i: "k = Suc i" using kk(1) by (cases k) simp_all
  have "10 powi (n - 1) \<le> v" "v < 10 powi n" using ilog10[OF v0] by (simp_all add: n_def)
  then have "10 powi (n - 1) * 10 powi (int k - n) \<le> (of_nat N :: rat)" "of_nat N < (10::rat) powi n * 10 powi (int k - n)"
    unfolding N[symmetric] by simp_all
  then have "10 powi int i \<le> (of_nat N :: rat)" "of_nat N < (10::rat) powi int (Suc i)"
    using i by (simp_all flip: power_int_add)
  then have "of_nat (10 ^ i) \<le> (of_nat N :: rat)" "of_nat N < (of_nat (10 ^ Suc i) :: rat)"
    unfolding power_int_of_nat of_nat_power by simp_all
  then have "length (dec_text N) = k" using length_dec_text[of i N] i unfolding of_nat_le_iff of_nat_less_iff by simp
  moreover have "decimal_digits v n = dec_text N" unfolding decimal_digits_def k by (simp add: N_def)
  ultimately show ?thesis using that[of N k] kk(1,2) v by blast
qed

section \<open>Reading decimal literals\<close>

lemma takeWhile_digits: "list_all is_digit s \<Longrightarrow> r = [] \<or> \<not> is_digit (hd r) \<Longrightarrow>
    takeWhile is_digit (s @ r) = s \<and> dropWhile is_digit (s @ r) = r"
  by (induction s) (cases r; auto)+

lemma decimal_literal_whole:
  assumes "list_all is_digit ip" "ip \<noteq> []" "ep = [] \<or> hd ep = CHR ''e''" "exponent_part ep = Some m"
  shows "decimal_literal (ip @ ep) = Some (of_nat (base_value 10 ip) * 10 powi m)"
proof -
  have "ep = [] \<or> \<not> is_digit (hd ep)" using assms(3) by (auto simp: is_digit_def)
  moreover have "\<not> starts_with ''.'' ep" using assms(3) by (cases ep) (auto simp: starts_with_def)
  ultimately show ?thesis using takeWhile_digits[OF assms(1), of ep] assms(2,4) by (simp add: decimal_literal_def)
qed

lemma decimal_literal_fraction:
  assumes "list_all is_digit ip" "ip \<noteq> []" "list_all is_digit fp" "ep = [] \<or> hd ep = CHR ''e''" "exponent_part ep = Some m"
  shows "decimal_literal (ip @ CHR ''.'' # fp @ ep) = Some (of_nat (base_value 10 (ip @ fp)) * 10 powi (m - int (length fp)))"
proof -
  have "ep = [] \<or> \<not> is_digit (hd ep)" using assms(4) by (auto simp: is_digit_def)
  moreover have "\<not> is_digit (CHR ''.'')" by (simp add: is_digit_def)
  ultimately show ?thesis
    using takeWhile_digits[OF assms(1), of "CHR ''.'' # fp @ ep"] takeWhile_digits[OF assms(3), of ep] assms(2,5)
    by (simp add: decimal_literal_def starts_with_def)
qed

lemma exponent_part_text:
  "exponent_part (''e'' @ (if m < 0 then ''-'' else ''+'') @ dec_text (nat \<bar>m\<bar>)) = Some m"
  by (simp add: exponent_part_def starts_with_def dec_text_digits)

lemma exponent_part_Nil: "exponent_part [] = Some 0"
  by (simp add: exponent_part_def)

text \<open>The characters of a printed number: nothing to trim, no radix prefix, no word.\<close>

definition num_char :: "char \<Rightarrow> bool" where
  "num_char c = (is_digit c \<or> c \<in> {CHR ''.'', CHR ''e'', CHR ''+'', CHR ''-''})"

lemma num_char_plain:
  assumes "num_char c"
  shows "\<not> js_space c" "lower_char c = c" "c \<notin> {CHR ''x'', CHR ''o'', CHR ''b'', CHR ''I''}"
  using assms by (auto simp: num_char_def is_digit_def js_space_def lower_char_def Let_def)

lemma num_chars_plain:
  assumes "list_all num_char s"
  shows "js_trim s = s" "to_lower s = s" "\<not> starts_with ''0x'' s" "\<not> starts_with ''0o'' s" "\<not> starts_with ''0b'' s" "s \<noteq> ''Infinity''"
proof -
  have all: "\<forall>c\<in>set s. \<not> js_space c \<and> lower_char c = c \<and> c \<notin> {CHR ''x'', CHR ''o'', CHR ''b'', CHR ''I''}"
    using assms num_char_plain by (simp add: list_all_iff)
  have "\<forall>c\<in>set s. \<not> js_space c" using all by blast
  moreover have ball: "CHR ''x'' \<notin> set s" "CHR ''o'' \<notin> set s" "CHR ''b'' \<notin> set s" "CHR ''I'' \<notin> set s"
    using assms num_char_plain(3) by (auto simp: list_all_iff)
  ultimately have "dropWhile js_space s = s" "dropWhile js_space (rev s) = rev s"
    using hd_in_set[of s] last_in_set[of s] by (auto simp: dropWhile_eq_self_iff hd_rev)
  then show "js_trim s = s" by (simp add: js_trim_def trim_start_def)
  show "to_lower s = s" using all by (simp add: to_lower_def map_idI)
  have in_take: "c \<in> set s" if "starts_with [a, c] s" for a c
    using that in_set_takeD[of c "Suc (Suc 0)" s] by (simp add: starts_with_def)
  show "\<not> starts_with ''0x'' s" "\<not> starts_with ''0o'' s" "\<not> starts_with ''0b'' s"
    using in_take[of "CHR ''0''" "CHR ''x''"] in_take[of "CHR ''0''" "CHR ''o''"] in_take[of "CHR ''0''" "CHR ''b''"] ball
    by meson+
  show "s \<noteq> ''Infinity''" using ball(4) by auto
qed

lemma js_number_decimal:
  assumes "list_all num_char s" "s \<noteq> []" "is_digit (hd s)" "decimal_literal s = Some v"
  shows "js_number s = to_num v" "js_number (''-'' @ s) = to_num (- v)"
proof -
  have "hd s \<noteq> CHR ''-''" "hd s \<noteq> CHR ''+''" using assms(3) by (auto simp: is_digit_def)
  then have "\<not> starts_with ''-'' s" "\<not> starts_with ''+'' s" using assms(2) by (cases s; simp add: starts_with_def)+
  then show "js_number s = to_num v"
    using assms(2,4) num_chars_plain[OF assms(1)] by (simp add: js_number_def Let_def)
  have "list_all num_char (''-'' @ s)" using assms(1) by (simp add: num_char_def)
  then show "js_number (''-'' @ s) = to_num (- v)"
    using assms(4) num_chars_plain[OF assms(1)] num_chars_plain[of "''-'' @ s"]
    by (simp add: js_number_def Let_def starts_with_def)
qed

section \<open>The printed number\<close>

lemma list_all_take_drop: "list_all P s \<Longrightarrow> list_all P (take i s) \<and> list_all P (drop i s)"
  by (auto simp: list_all_iff dest: in_set_takeD in_set_dropD)

lemma digits_num_chars: "list_all is_digit s \<Longrightarrow> list_all num_char s"
  by (simp add: list_all_iff num_char_def)

lemma is_digit_0: "is_digit (CHR ''0'')" "list_all is_digit (replicate i (CHR ''0''))"
  by (simp_all add: is_digit_def list_all_iff)

definition printed :: "string \<Rightarrow> rat \<Rightarrow> bool" where
  "printed s v = (list_all num_char s \<and> s \<noteq> [] \<and> is_digit (hd s) \<and> decimal_literal s = Some v)"

lemma printed_whole:
  assumes "list_all is_digit ip" "ip \<noteq> []"
  shows "printed ip (of_nat (base_value 10 ip))"
  using decimal_literal_whole[OF assms, of "[]" 0] digits_num_chars[OF assms(1)] assms
  by (cases ip) (simp_all add: printed_def exponent_part_Nil)

lemma printed_fraction:
  assumes "list_all is_digit ip" "ip \<noteq> []" "list_all is_digit fp"
  shows "printed (ip @ CHR ''.'' # fp) (of_nat (base_value 10 (ip @ fp)) * 10 powi (- int (length fp)))"
  using decimal_literal_fraction[OF assms, of "[]" 0] digits_num_chars[OF assms(1)] digits_num_chars[OF assms(3)] assms
  by (cases ip) (simp_all add: printed_def exponent_part_Nil num_char_def)

lemma printed_exponent:
  assumes d: "is_digit d" and ds: "list_all is_digit ds"
  shows "printed ([d] @ (if ds = [] then [] else ''.'' @ ds) @ ''e'' @ (if m < 0 then ''-'' else ''+'') @ dec_text (nat \<bar>m\<bar>))
    (of_nat (base_value 10 (d # ds)) * 10 powi (m - int (length ds)))"
proof -
  define e where "e = ''e'' @ (if m < 0 then ''-'' else ''+'') @ dec_text (nat \<bar>m\<bar>)"
  let ?f = "if ds = [] then [] else ''.'' @ ds"
  have e: "exponent_part e = Some m" "e = [] \<or> hd e = CHR ''e''" using exponent_part_text[of m] by (simp_all add: e_def)
  have i: "list_all is_digit [d]" "[d] \<noteq> []" using d by simp_all
  have "list_all num_char e" using digits_num_chars[OF dec_text_digits(1)] by (simp add: e_def num_char_def)
  then have "list_all num_char ([d] @ ?f @ e)" using d digits_num_chars[OF ds] by (simp add: num_char_def)
  moreover have "decimal_literal ([d] @ ?f @ e) = Some (of_nat (base_value 10 (d # ds)) * 10 powi (m - int (length ds)))"
  proof (cases "ds = []")
    case True
    then show ?thesis using decimal_literal_whole[OF i e(2,1)] by simp
  next
    case False
    then show ?thesis using decimal_literal_fraction[OF i ds e(2,1)] by simp
  qed
  ultimately have "printed ([d] @ ?f @ e) (of_nat (base_value 10 (d # ds)) * 10 powi (m - int (length ds)))"
    using d by (simp add: printed_def)
  then show ?thesis unfolding e_def .
qed

lemma pos_num_string_printed:
  assumes x: "is_double x" "0 < x"
  shows "printed (pos_num_string x) (num_text_pos x)"
proof -
  define v n where "v = num_text_pos x" and "n = ilog 10 v + 1"
  obtain N k where N: "decimal_digits v n = dec_text N" "length (dec_text N) = k" "1 \<le> k"
    "v = of_nat N * 10 powi (n - int k)"
    using decimal_digits_value[OF x] unfolding v_def n_def by metis
  let ?ds = "dec_text N"
  note ds = dec_text_digits[of N] list_all_take_drop[OF dec_text_digits(1), of _ N]
  have t: "num_text x = v" using x(2) by (simp add: num_text_def v_def)
  have u: "pos_num_string x =
      (if int k \<le> n \<and> n \<le> 21 then ?ds @ replicate (nat (n - int k)) CHR ''0''
       else if 0 < n \<and> n \<le> 21 then take (nat n) ?ds @ ''.'' @ drop (nat n) ?ds
       else if - 6 < n \<and> n \<le> 0 then ''0.'' @ replicate (nat (- n)) CHR ''0'' @ ?ds
       else take 1 ?ds @ (if int k = 1 then [] else ''.'' @ drop 1 ?ds) @ ''e'' @
            (if n - 1 < 0 then ''-'' else ''+'') @ dec_text (nat \<bar>n - 1\<bar>))"
    unfolding pos_num_string_def t Let_def by (simp only: N(1,2) flip: n_def)
  consider "int k \<le> n \<and> n \<le> 21" | "\<not> int k \<le> n" "0 < n \<and> n \<le> 21"
    | "- 6 < n \<and> n \<le> 0" "\<not> (int k \<le> n \<and> n \<le> 21)"
    | "\<not> (int k \<le> n \<and> n \<le> 21)" "\<not> (0 < n \<and> n \<le> 21)" "\<not> (- 6 < n \<and> n \<le> 0)" by blast
  then have "printed (pos_num_string x) v"
  proof cases
    case 1
    then have "10 powi (n - int k) = (10::rat) ^ nat (n - int k)" by (simp add: power_int_def)
    then have "of_nat (base_value 10 (?ds @ replicate (nat (n - int k)) (CHR ''0''))) = v"
      using N(4) ds(3) by (simp add: base_value_zeros)
    moreover have "pos_num_string x = ?ds @ replicate (nat (n - int k)) (CHR ''0'')"
      unfolding u using 1 by simp
    ultimately show ?thesis
      using printed_whole[of "?ds @ replicate (nat (n - int k)) (CHR ''0'')"] ds is_digit_0 by simp
  next
    case 2
    have "pos_num_string x = take (nat n) ?ds @ CHR ''.'' # drop (nat n) ?ds"
      unfolding u using 2 by simp
    moreover have "take (nat n) ?ds \<noteq> []" "int (length (drop (nat n) ?ds)) = int k - n" using 2 N(2,3) ds(2) by simp_all
    ultimately show ?thesis
      using printed_fraction[of "take (nat n) ?ds" "drop (nat n) ?ds"] ds N(4) by simp
  next
    case 3
    have "pos_num_string x = ''0'' @ CHR ''.'' # replicate (nat (- n)) (CHR ''0'') @ ?ds"
      unfolding u using 3 by simp
    moreover have "base_value 10 (''0'' @ replicate (nat (- n)) (CHR ''0'') @ ?ds) = N"
      using base_value_leading[of "Suc (nat (- n))" ?ds] ds(3) by simp
    ultimately show ?thesis
      using printed_fraction[of "''0''" "replicate (nat (- n)) (CHR ''0'') @ ?ds"] ds is_digit_0 3(1) N(2,4)
      by simp
  next
    case 4
    obtain d r where dr: "?ds = d # r" using ds(2) by (cases ?ds) simp_all
    then have r: "r = [] \<longleftrightarrow> k = 1" "int (length r) = int k - 1" "is_digit d" "list_all is_digit r" using N(2) ds(1) by auto
    have "pos_num_string x = [d] @ (if r = [] then [] else ''.'' @ r) @ ''e'' @
        (if n - 1 < 0 then ''-'' else ''+'') @ dec_text (nat \<bar>n - 1\<bar>)"
      unfolding u using 4 dr r(1) by (simp only: if_False) simp
    then show ?thesis using printed_exponent[OF r(3,4), of "n - 1"] r(2) ds(3) N(4) dr by simp
  qed
  then show ?thesis unfolding v_def .
qed

theorem number_text_reads_back:
  assumes x: "is_double x" "\<bar>x\<bar> < 2 ^ 1024"
  shows "js_number (num_string (Fin x)) = Fin x"
proof -
  have pos: "js_number (pos_num_string y) = to_num (num_text_pos y)" "js_number (''-'' @ pos_num_string y) = to_num (- num_text_pos y)"
    if "is_double y" "0 < y" for y
    using pos_num_string_printed[OF that] js_number_decimal by (auto simp: printed_def)
  consider "x = 0" | "0 < x" | "0 < - x" by linarith
  then show ?thesis
  proof cases
    case 1
    then show ?thesis
      using printed_whole[of "''0''"] js_number_decimal[of "''0''" 0] 
      by (simp add: num_string_def printed_def is_digit_0 base_value_def hex_val_def or_else_def to_num_def)
  next
    case 2
    then show ?thesis using pos(1)[OF x(1) 2] fl_num_text_pos[OF x(1)] x(2) by (simp add: num_string_def to_num_def)
  next
    case 3
    have d: "is_double (- x)" using x(1) by (simp add: fl_minus)
    then show ?thesis
      using pos(2)[OF d 3] fl_num_text_pos[OF d] x(2) 3 by (simp add: num_string_def to_num_def fl_minus)
  qed
qed

text \<open>The text of a number is not blank and has nothing to trim.\<close>

lemma number_text_plain:
  assumes x: "is_double x" "0 \<le> x"
  shows "num_string (Fin x) \<noteq> []" "js_trim (num_string (Fin x)) = num_string (Fin x)"
proof -
  have "list_all num_char (num_string (Fin x)) \<and> num_string (Fin x) \<noteq> []"
  proof (cases "x = 0")
    case True
    then show ?thesis by (simp add: num_string_def num_char_def is_digit_0)
  next
    case False
    then show ?thesis using pos_num_string_printed[of x] x by (simp add: num_string_def printed_def)
  qed
  then show "num_string (Fin x) \<noteq> []" "js_trim (num_string (Fin x)) = num_string (Fin x)"
    using num_chars_plain(1) by blast+
qed

lemma parse_rate_number_text:
  assumes "rate_in_range x"
  shows "parse_rate name (num_string (Fin x)) = Inr x"
proof -
  have x: "is_double x" "0 \<le> x" "x \<le> max_rate" using assms by (simp_all add: rate_in_range_def)
  have "max_rate < 2 ^ 20" by (simp add: max_rate_def)
  also have "(2::rat) ^ 20 < 2 ^ 1024" by (intro power_strict_increasing) auto
  finally have "\<bar>x\<bar> < 2 ^ 1024" using x(2,3) by simp
  then show ?thesis
    using number_text_reads_back[OF x(1)] number_text_plain(1)[OF x(1,2)] x(2,3) by (simp add: parse_rate_def)
qed

end
