(* ===== verification/Claims_App.thy ===== *)
theory Claims_App
  imports Boot Admin_App Number_Text
begin

text \<open>
  Properties of the two apps as wholes: which requests reach which handlers, and what a process
  that has started was configured with.  The guards' own decisions are arbitrary here; what
  they check is the subject of the other properties.
\<close>

section \<open>Requests and guards\<close>

text \<open>Property C17.  Every request of the api reaches a handler only past its guards, in whatever way the
  guards decide: key, team and usage reads past the context check, minting and revoking past
  the grant as well, the price api past the service token.  Deriving, the key holder's
  usage and the health probe are reached without any of them.\<close>

theorem api_requests_guarded:
  assumes "api_serve lets_in verb path = Some h"
  shows "(h \<in> {Get_keys, Post_key, Get_key, Post_key_revoke, Get_teams, Get_usage, Get_usage_totals, Get_usage_facets}
      \<longrightarrow> lets_in Require_auth) \<and>
    (h = Post_key \<longrightarrow> lets_in (Require_grant ''llm.keys.create'')) \<and>
    (h = Post_key_revoke \<longrightarrow> lets_in (Require_grant ''llm.keys.revoke'')) \<and>
    (h \<in> {Get_internal_prices, Post_internal_price} \<longrightarrow> lets_in Require_internal_token) \<and>
    api_serve none ''POST'' ''/api/keys/derive'' = Some Post_derive \<and>
    api_serve none ''GET'' ''/usage'' = Some Get_key_usage \<and>
    api_serve none ''GET'' ''/health'' = Some Get_health"
proof -
  note passed = api_guard_passed[OF assms]
  have "api_serve none ''GET'' ''/usage'' = Some Get_key_usage" "api_serve none ''GET'' ''/health'' = Some Get_health"
    by (simp_all add: api_serve_def handler_chain_def api_route_defs route_matches_def answers_def)
  then show ?thesis
    using passed[of Require_auth] passed[of "Require_grant ''llm.keys.create''"]
      passed[of "Require_grant ''llm.keys.revoke''"] passed[of Require_internal_token] derive_bypasses[of none]
    by auto
qed

lemma ex_serve: "api_serve (\<lambda>h. h \<noteq> Require_internal_token) ''POST'' ''/api/keys/7/revoke'' = Some Post_key_revoke"
  by (simp add: api_serve_def handler_chain_def api_route_defs route_matches_def answers_def)

theorem api_requests_guarded_witness:
  "api_serve (\<lambda>h. h \<noteq> Require_internal_token) ''POST'' ''/api/keys/7/revoke'' = Some Post_key_revoke \<and>
   api_serve (\<lambda>h. False) ''POST'' ''/api/keys/derive'' = Some Post_derive"
  using api_requests_guarded[OF ex_serve, of "\<lambda>h. False"] ex_serve by blast

text \<open>Property C24.  Every request of the admin app that reaches anything but the health probe, the login
  and logout forms or the handler of the session library carries a session; without one it ends at the
  gate or finds no route.\<close>

theorem admin_requests_need_session:
  assumes "admin_serve in_session verb path = Some h"
  shows "in_session \<or> h \<in> {Require_session, Admin_health, Better_auth, Show_login, Do_login, Do_logout}"
  using admin_guarded[OF assms] by (auto simp: open_handlers_def)

lemma ex_admin_serve:
  "admin_serve False ''POST'' ''/api/keys'' = Some Require_session"
  "admin_serve True ''POST'' ''/api/keys'' = Some Mint_key_json"
  by (simp_all add: admin_serve_def handler_chain_def admin_route_defs route_matches_def answers_def admin_continues_def)

theorem admin_requests_need_session_witness:
  "admin_serve True ''POST'' ''/api/keys'' = Some Mint_key_json \<and> (True \<or> Mint_key_json = Require_session)"
  using admin_requests_need_session[OF ex_admin_serve(2)] ex_admin_serve(2) by simp

section \<open>Start-up\<close>

text \<open>Property C28.  The api starts only with a sound configuration: the lifetimes and limits that derive
  works with are positive, the service secrets are there, and the fields of the
  imported key pair are 43 characters of base64url that read back as the 32 configured bytes.\<close>

theorem boot_fails_fast:
  assumes "boot_api valid_url raw = Inr b"
  defines "s \<equiv> bt_settings b"
  shows "1 \<le> default_ttl (derive_settings s) \<and> 1 \<le> max_ttl (derive_settings s) \<and>
    0 < rate_per_min (derive_settings s) \<and> 0 < max_active (derive_settings s) \<and>
    1 \<le> usage_poll_interval_ms s \<and> valid_url (llm_proxy_url s) \<and>
    raw ''INTERNAL_API_TOKEN'' = Some (internal_api_token s) \<and> internal_api_token s \<noteq> [] \<and>
    control_plane_poll_token s \<noteq> [] \<and>
    (\<exists>seed pub. decode_base64_bytes (ed25519_private_key s) = Some seed \<and> b64url_bytes (bt_d b) = Some seed \<and>
       decode_base64_bytes (ed25519_public_key s) = Some pub \<and> b64url_bytes (bt_x b) = Some pub \<and>
       length seed = 32 \<and> length pub = 32 \<and> length (bt_x b) = 43 \<and> length (bt_d b) = 43)"
proof -
  have env: "api_env valid_url raw = Inr s"
    and load: "load_ed25519 (ed25519_private_key s) (ed25519_public_key s) = Inr (bt_x b, bt_d b)"
    using assms(1) unfolding s_def boot_api_def by (auto split: sum.splits)
  obtain seed pub where "decode_base64_bytes (ed25519_private_key s) = Some seed" "length seed = 32"
    "decode_base64_bytes (ed25519_public_key s) = Some pub" "length pub = 32"
    using load by (auto simp: load_ed25519_def split: option.splits if_splits)
  then show ?thesis
    using api_env_Inr[OF env] ed25519_fields[OF load] by (simp add: derive_settings_def)
qed

definition ex_raw_env :: raw_env where
  "ex_raw_env name =
     (if name = ''ED25519_PRIVATE_KEY'' then Some (btoa (from_char_codes (replicate 32 1)))
      else if name = ''ED25519_PUBLIC_KEY'' then Some (btoa (from_char_codes (replicate 32 2)))
      else if name \<in> {''APP_USER_DATABASE_URL'', ''BYPASSRLS_DATABASE_URL'', ''CONTROL_PLANE_POLL_TOKEN'', ''INTERNAL_API_TOKEN''}
      then Some ''x'' else None)"

lemma decode_btoa: "decode_base64_bytes (btoa (from_char_codes bs)) = Some bs"
  by (simp add: decode_base64_bytes_def atob_btoa from_char_codes_back)

lemma ex_fields:
  "text_field 1 ex_raw_env ''APP_USER_DATABASE_URL'' = Inr ''x''" "text_field 1 ex_raw_env ''BYPASSRLS_DATABASE_URL'' = Inr ''x''"
  "text_field 1 ex_raw_env ''CONTROL_PLANE_POLL_TOKEN'' = Inr ''x''" "text_field 1 ex_raw_env ''INTERNAL_API_TOKEN'' = Inr ''x''"
  "text_field 1 ex_raw_env ''ED25519_PRIVATE_KEY'' = Inr (btoa (from_char_codes (replicate 32 1)))"
  "text_field 1 ex_raw_env ''ED25519_PUBLIC_KEY'' = Inr (btoa (from_char_codes (replicate 32 2)))"
  by (simp_all add: text_field_def ex_raw_env_def btoa_body length_b64_body)

lemma ex_unset:
  "positive_field 3600 ex_raw_env ''DEFAULT_SUBKEY_TTL_SECONDS'' = Inr 3600" "positive_field 86400 ex_raw_env ''MAX_SUBKEY_TTL_SECONDS'' = Inr 86400"
  "positive_field 60 ex_raw_env ''SUBKEY_DERIVE_RATE_PER_MIN'' = Inr 60" "positive_field 1000 ex_raw_env ''SUBKEY_DERIVE_MAX_ACTIVE'' = Inr 1000"
  "positive_field 10 ex_raw_env ''KEY_META_CACHE_TTL_SEC'' = Inr 10" "positive_field 2000 ex_raw_env ''USAGE_POLL_INTERVAL_MS'' = Inr 2000"
  "number_field 8300 ex_raw_env ''PORT'' = Inr (Fin 8300)" "level_field ex_raw_env ''LOG_LEVEL'' = Inr Info"
  by (simp_all add: positive_field_def number_field_def level_field_def coerced_def ex_raw_env_def js_integer_def js_positive_def)

lemma ex_boot:
  "\<exists>b. boot_api (\<lambda>u. True) ex_raw_env = Inr b \<and> max_ttl (derive_settings (bt_settings b)) = 86400 \<and>
     ed25519_public_key (bt_settings b) = btoa (from_char_codes (replicate 32 2))"
  by (simp add: boot_api_def api_env_def ex_fields[unfolded One_nat_def] ex_unset url_field_def plain_field_def load_ed25519_def decode_btoa
      derive_settings_def)

theorem boot_fails_fast_witness:
  "\<exists>b. boot_api (\<lambda>u. True) ex_raw_env = Inr b \<and> 1 \<le> max_ttl (derive_settings (bt_settings b)) \<and>
     b64url_bytes (bt_x b) = Some (replicate 32 2)"
proof -
  obtain b where b: "boot_api (\<lambda>u. True) ex_raw_env = Inr b"
    "ed25519_public_key (bt_settings b) = btoa (from_char_codes (replicate 32 2))"
    using ex_boot by blast
  have "b64url_bytes (bt_x b) = Some (replicate 32 2)" "1 \<le> max_ttl (derive_settings (bt_settings b))"
    using boot_fails_fast[OF b(1)] unfolding b(2) decode_btoa by auto
  then show ?thesis using b(1) by blast
qed

section \<open>The price form\<close>

lemma add_form_fields:
  assumes "effective_rates eff = Some rs" "\<not> eff_long_context eff"
  shows "form_fields (add_form eff) =
    [(''model'', eff_model eff), (''input_cost_per_mtok_usd'', rate_text (input_rate rs)),
     (''output_cost_per_mtok_usd'', rate_text (output_rate rs)), (''cache_read_cost_per_mtok_usd'', rate_text (cache_read_rate rs)),
     (''cache_write_cost_per_mtok_usd'', rate_text (cache_write_rate rs)), (''per_request_cost_usd'', rate_text (per_request_rate rs)),
     (''valid_from'', []), (''source'', ''manual''), (''note'', [])]"
  using assms by (simp add: add_form_def prefill_def rate_columns_def flag_def or_else_def)

lemma effective_price_checked:
  assumes "effective_price models table m t = Some eff" "\<not> eff_long_context eff"
  shows "check_model models m = None" "eff_model eff = m"
  using assms by (auto simp: effective_price_def check_model_def split: property.splits option.splits)

text \<open>Property C36.  The add form of the price page confirms the price it shows: submitted as it was
  served, its numbers printed and parsed again, it is accepted and carries exactly the rates in
  effect, for the same model, valid from now.\<close>

theorem prefilled_form_confirms_price:
  assumes "effective_price models table m t = Some eff" "effective_rates eff = Some rs"
    and "full_rates_in_range rs" "\<not> eff_long_context eff" "js_trim m = m"
  shows "parse_price_form parse_date models (map_of (form_fields (add_form eff))) =
    Inr (full_rates.extend rs \<lparr>np_model = m, np_valid_from = None, np_source = ''manual'', np_note = None\<rparr>)"
proof -
  note m = effective_price_checked[OF assms(1,4)]
  define f where "f = map_of (form_fields (add_form eff))"
  have rate: "js_trim (rate_text x) = rate_text x" "rate_text x \<noteq> []" "parse_rate name (rate_text x) = Inr x"
    if "rate_in_range x" for x name
    using number_text_plain[of x] parse_rate_number_text[OF that] that by (simp_all add: rate_text_def rate_in_range_def)
  have r: "rate_in_range (input_rate rs)" "rate_in_range (output_rate rs)" "rate_in_range (cache_read_rate rs)"
    "rate_in_range (cache_write_rate rs)" "rate_in_range (per_request_rate rs)"
    using assms(3) by (simp_all add: full_rates_in_range_def)
  have "js_trim ''manual'' = ''manual''" by (simp add: js_trim_def trim_start_def js_space_def)
  then have "field f ''model'' = m" "field f ''input_cost_per_mtok_usd'' = rate_text (input_rate rs)"
    "field f ''output_cost_per_mtok_usd'' = rate_text (output_rate rs)"
    "field f ''cache_read_cost_per_mtok_usd'' = rate_text (cache_read_rate rs)"
    "field f ''cache_write_cost_per_mtok_usd'' = rate_text (cache_write_rate rs)"
    "field f ''per_request_cost_usd'' = rate_text (per_request_rate rs)"
    "field f ''valid_from'' = []" "field f ''source'' = ''manual''" "field f ''note'' = []"
    by (simp_all add: f_def field_def add_form_fields[OF assms(2,4)] or_else_def m(2) assms(5) rate(1) r)
  then show ?thesis
    by (simp add: parse_price_form_def Let_def m(1) rate(2,3) r parse_valid_from_def full_rates.extend_def flip: f_def)
qed

definition ex_entry :: model_entry where
  "ex_entry = \<lparr>input_cost_per_mtok_usd = 1 / 4, output_cost_per_mtok_usd = 3, cache_read_cost_per_mtok_usd = Some 0,
     cache_write_cost_per_mtok_usd = Some 0, per_request_cost_usd = None, long_context = None,
     provider_slug = ''p'', upstream_model_slug = None, request_overrides = None\<rparr>"

definition ex_rates :: full_rates where
  "ex_rates = \<lparr>input_rate = 1 / 4, output_rate = 3, cache_read_rate = 0, cache_write_rate = 0, per_request_rate = 0\<rparr>"

lemma ex_shown: "effective_price [(''m'', ex_entry)] Map.empty ''m'' 0 = Some (Eff_catalog ''m'' False ex_rates False)"
  by (simp add: effective_price_def get_model_def get_property_def pick_price_def entry_rates_def
      ex_entry_def ex_rates_def read_rate_def write_rate_def or_else_def)

lemma ex_rates_fit: "full_rates_in_range ex_rates"
proof -
  have "is_double (1 / 4)" using fl_powi[of "-2"] by (simp add: power_int_minus)
  then show ?thesis using fl_of_int[of 3] by (simp add: full_rates_in_range_def rate_in_range_def ex_rates_def max_rate_def)
qed

theorem prefilled_form_confirms_price_witness:
  "parse_price_form (\<lambda>_. None) [(''m'', ex_entry)] (map_of (form_fields (add_form (Eff_catalog ''m'' False ex_rates False)))) =
   Inr (full_rates.extend ex_rates \<lparr>np_model = ''m'', np_valid_from = None, np_source = ''manual'', np_note = None\<rparr>)"
  by (rule prefilled_form_confirms_price[OF ex_shown])
    (simp_all add: ex_rates_fit js_trim_def trim_start_def js_space_def)

end
