(* ===== verification/Dev_Scripts.thy ===== *)
theory Dev_Scripts
  imports Html Auth Base64 Migrations
begin

text \<open>
  The developer scripts: \<open>scripts/dev-token.ts\<close>, which signs the platform context of the local
  smoke test, \<open>admin/scripts/create-admin.ts\<close> and \<open>database/new-migration.ts\<close>.  Argument
  parsing, signing and the session library are parameters.
\<close>

section \<open>The dev token\<close>

datatype script_exit = Exit_missing_seed | Exit_not_base64 | Exit_seed_length nat | Exit_import | Exit_not_crypto_key

definition dev_sub :: string where
  "dev_sub = ''user_test_1''"

definition dev_orgs :: "context_org list" where
  "dev_orgs = [\<lparr>co_id = ''org_test_1'', co_kamuid_org_id = Some ''org_test_1'', co_slug = ''testorg'',
     co_name = ''Test Org'', co_role = ''owner'', co_grants = [''llm.keys.create'', ''llm.keys.revoke'']\<rparr>]"

text \<open>The signed claims as the verifier of the api reads them, and the two times.\<close>

definition dev_payload :: context_payload where
  "dev_payload = \<lparr>pc_sub = Some dev_sub, pc_email = Some ''test@kamuhub.dev'', pc_name = Some ''Test User'',
     pc_orgs = Some dev_orgs\<rparr>"

definition dev_key ::
  "(string \<Rightarrow> 'k imported option) \<Rightarrow> string option \<Rightarrow> script_exit + 'k" where
  "dev_key import_d seed_b64 =
     (case seed_b64 of
        None \<Rightarrow> Inl Exit_missing_seed
      | Some text \<Rightarrow>
          if text = [] then Inl Exit_missing_seed else
          (case decode_base64_bytes text of
             None \<Rightarrow> Inl Exit_not_base64
           | Some seed \<Rightarrow>
               if length seed \<noteq> 32 then Inl (Exit_seed_length (length seed)) else
               (case import_d (b64_to_b64url (btoa (from_char_codes seed))) of
                  None \<Rightarrow> Inl Exit_import
                | Some (Raw_bytes _) \<Rightarrow> Inl Exit_not_crypto_key
                | Some (Crypto_key k) \<Rightarrow> Inr k)))"

definition dev_token ::
  "(string \<Rightarrow> 'k imported option) \<Rightarrow> ('k \<Rightarrow> context_payload \<Rightarrow> int \<Rightarrow> int \<Rightarrow> string) \<Rightarrow> string option \<Rightarrow> js_time \<Rightarrow> int \<Rightarrow>
     script_exit + string" where
  "dev_token import_d sign seed_b64 now ttl =
     (case dev_key import_d seed_b64 of
        Inl e \<Rightarrow> Inl e
      | Inr k \<Rightarrow> (let iat = now div 1000 in Inr (sign k dev_payload iat (iat + ttl))))"

text \<open>Where the api's verifier accepts the token, the smoke test is the signed-in user and holds
  both grants.\<close>

lemma dev_token_admits:
  assumes "jwks_url e = ''dev''" "dev_verify_key import_jwk e = Some dk" "verify_jwt (Dev_key dk) token = Some dev_payload"
  shows "\<exists>ctx. verify_platform_context import_jwk verify_jwt e token = Some ctx \<and> ctx_sub ctx = Some dev_sub \<and>
    grants ctx (Some ''org_test_1'') ''llm.keys.create'' \<and> grants ctx (Some ''org_test_1'') ''llm.keys.revoke''"
  using assms by (simp add: verify_platform_context_def dev_payload_def grants_def dev_orgs_def)

section \<open>Creating an admin\<close>

datatype create_admin_exit = Usage | Password_too_short | Sign_up_failed nat | Created

definition create_admin ::
  "(string \<Rightarrow> string \<Rightarrow> string \<Rightarrow> nat) \<Rightarrow> string option \<Rightarrow> string option \<Rightarrow> string option \<Rightarrow> create_admin_exit" where
  "create_admin sign_up email password name =
     (case (truthy_text email, truthy_text password) of
        (Some em, Some pw) \<Rightarrow>
          if length pw < 8 then Password_too_short
          else (let st = sign_up em pw (or_else name ''Admin'') in if st = 200 then Created else Sign_up_failed st)
      | _ \<Rightarrow> Usage)"

section \<open>A new migration\<close>

definition migration_stamp :: "js_time \<Rightarrow> string" where
  "migration_stamp t = slice 0 14 (filter (\<lambda>c. c \<notin> set ''-:T'') (to_iso_string t))"

text \<open>The two files, below \<open>migrations/\<close>, with their first line; \<open>None\<close> is the usage message.\<close>

definition new_migration :: "js_time \<Rightarrow> string option \<Rightarrow> migration list option" where
  "new_migration t name =
     (case truthy_text name of
        None \<Rightarrow> None
      | Some n \<Rightarrow>
          (let base = migration_stamp t @ ''_'' @ n; up = base @ ''.up.sql''; down = base @ ''.down.sql''
           in Some [\<lparr>mg_filename = up, mg_content = ''-- '' @ up @ [CHR 0x0A, CHR 0x0A]\<rparr>,
                    \<lparr>mg_filename = down, mg_content = ''-- '' @ down @ [CHR 0x0A, CHR 0x0A]\<rparr>]))"

lemma replace_first_absent:
  "\<not> contains p (butlast (base @ p)) \<Longrightarrow> p \<noteq> [] \<Longrightarrow> replace_first p (base @ p) = base"
proof (induction base)
  case Nil
  then show ?case by (cases p) (simp_all add: starts_with_def)
next
  case (Cons c base)
  have rest: "butlast ((c # base) @ p) = c # butlast (base @ p)" using Cons.prems(2) by simp
  then have "\<not> contains p (butlast (base @ p))" "\<not> starts_with p (c # butlast (base @ p))"
    using Cons.prems(1) by simp_all
  moreover have "\<not> starts_with p (c # base @ p)"
  proof
    assume s: "starts_with p (c # base @ p)"
    have "take (length p) (c # base @ p) = take (length p) (c # butlast (base @ p))"
      using Cons.prems(2) by (metis append_Cons butlast_conv_take length_append length_Cons le_add2 min.absorb1
        rest take_take add_Suc diff_Suc_1)
    then show False using s \<open>\<not> starts_with p (c # butlast (base @ p))\<close> by (simp add: starts_with_def)
  qed
  ultimately show ?case using Cons.IH Cons.prems(2) by simp
qed

text \<open>\<open>down\<close> finds the file that was created with the one \<open>up\<close> ran, unless the name of the
  migration itself has the extension in it.\<close>

lemma new_migration_pairs:
  assumes "new_migration t name = Some [u, d]" "\<not> contains ''.up.sql'' (butlast (mg_filename u))"
  shows "down_name (mg_filename u) = mg_filename d" "ends_with ''.up.sql'' (mg_filename u)"
    "ends_with ''.down.sql'' (mg_filename d)"
proof -
  obtain base where *: "mg_filename u = base @ ''.up.sql''" "mg_filename d = base @ ''.down.sql''"
    using assms(1) by (auto simp: new_migration_def Let_def split: option.splits)
  show "down_name (mg_filename u) = mg_filename d"
    using replace_first_absent[of "''.up.sql''" base] assms(2) unfolding * down_name_def by simp
  show "ends_with ''.up.sql'' (mg_filename u)" "ends_with ''.down.sql'' (mg_filename d)"
    unfolding * by (simp_all add: ends_with_def)
qed

end
