(* ===== verification/Spec2Isabelle.thy ===== *)
theory Spec2Isabelle
  imports Claims_Pricing Claims_Keys Claims_Usage Claims_Tenants Claims_Requests Claims_Admin Claims_App Dev_Scripts
begin

text \<open>
  Verification development of the kamu LLM gateway's control plane: the api (\<open>api/src\<close>), the
  admin app (\<open>admin/src\<close>), the code they share (\<open>shared\<close>), the migration runner
  (\<open>database\<close>) and the developer scripts.

  \<^bold>\<open>The program.\<close>  The api is a resource server over a Postgres schema \<open>llm\<close>.  A user who comes in
  through the kamuhub front end carries a signed platform context; \<open>authMiddleware\<close> admits
  the request and projects the context's organisations into teams, and \<open>requireGrant\<close> gates
  minting and revoking.  A top-level key derives short-lived sub-keys for itself, narrowed in
  models and lifetime, under rate and concurrency limits.  A poller pulls the usage log of
  every proxy machine into \<open>llm.usage_log\<close>, prices it, keeps \<open>llm.key_spend\<close> and takes keys
  out of service at their budget; key holders and users read it back page by page.  Prices come
  from a table with a catalog in the repository behind it; an internal api and the admin app add
  rows.  The admin app mints and revokes across organisations and shows spend.

  \<^bold>\<open>Theories and sources.\<close>
  \<^item> \<open>Prelude\<close>: identifiers, the two clocks, replies, theorem collections, and the locale
    \<open>step_system\<close> (an invariant of a step relation) that the state machines instantiate.
  \<^item> \<open>Js_Number\<close>, \<open>Js_Value\<close>, \<open>Js_Parse\<close>: doubles with their rounding written out, \<open>NUMERIC\<close>
    columns, strings, hexadecimal and UUID text, JSON, and \<open>Number\<close> of a text.
  \<^item> \<open>Pricing\<close>, \<open>Cost_Accuracy\<close>, \<open>Price_Table\<close>, \<open>Price_List\<close>: \<open>shared/pricing.ts\<close>, \<open>shared/catalog.ts\<close>,
    \<open>api/src/lib/pricing.ts\<close>, \<open>shared/prices.ts\<close>.  The locale \<open>price_list\<close> is the contract of a
    loaded table, interpreted on \<open>loadPrices\<close> and \<open>pickPrice\<close>.
  \<^item> \<open>Database\<close>: rows and policies of the schema as \<open>shared/types.ts\<close> and \<open>config/db.ts\<close> use them.
    A handler is a function from a database to a reply and a database.
  \<^item> \<open>Teams_Sync\<close>, \<open>Auth\<close>, \<open>Teams_Route\<close>: \<open>lib/kamuid-sync.ts\<close>, \<open>lib/platform-context.ts\<close>,
    \<open>middleware/auth.ts\<close>, \<open>middleware/grants.ts\<close>, \<open>routes/teams.ts\<close>.
  \<^item> \<open>Key_Material\<close>, \<open>Keys_Routes\<close>, \<open>Key_Derive\<close>, \<open>Derive_Lock\<close>, \<open>Key_Replies\<close>: \<open>lib/keys.ts\<close> and
    \<open>routes/keys.ts\<close>.  A mint is two statements that commit on their own, \<open>create_insert\<close> and
    \<open>set_root\<close>; \<open>create_key\<close> puts them together, with whatever others commit in between, or with a
    second statement that fails.  \<open>Derive_Lock\<close> runs derive transactions concurrently under the
    advisory lock, among other writers that may be \<open>steady\<close> (leave parents and dates alone) or
    \<open>quiet\<close> (bring no row back to active either); \<open>Key_Replies\<close> has the bodies that the routes answer.
  \<^item> \<open>Usage_Ledger\<close>, \<open>Usage_Poller\<close>, \<open>Ingest_Barrier\<close>: \<open>lib/usage-poller.ts\<close>: one page in one
    transaction, the passes over all machines (against the paging of \<open>proxy/usage.go\<close>, locale
    \<open>usage_feed\<close>), and \<open>ingestNow\<close> with the interval as a state machine.
  \<^item> \<open>Uuid_Order\<close>, \<open>Usage_Cursor\<close>, \<open>Key_Usage\<close>, \<open>Usage_Routes\<close>: \<open>routes/usage.ts\<close>.
  \<^item> \<open>Internal_Prices\<close>: \<open>routes/internal.ts\<close>.
  \<^item> \<open>Admin_Pages\<close>, \<open>Html\<close>, \<open>Admin_Views\<close>, \<open>Admin_App\<close>: the handlers of the admin app, its pages as
    trees of markup, and its table of routes.  \<open>Number_Text\<close>: the text of a number reads back as
    that number, for the rates the price form is prefilled with.
  \<^item> \<open>Http_App\<close>, \<open>Api_App\<close>, \<open>Base64\<close>, \<open>Boot\<close>: dispatch over a table of routes (locale \<open>guarded_app\<close>,
    interpreted on the tables of both apps), \<open>main.ts\<close>, \<open>lib/openapi.ts\<close>, \<open>lib/logger.ts\<close>,
    \<open>middleware/request-logger.ts\<close>, \<open>lib/ed25519.ts\<close> and the two \<open>env.ts\<close>.
  \<^item> \<open>Migrations\<close>, \<open>Dev_Scripts\<close>: \<open>database/migrate.ts\<close>, \<open>database/new-migration.ts\<close>,
    \<open>scripts/dev-token.ts\<close>, \<open>admin/scripts/create-admin.ts\<close>.
  \<^item> \<open>System\<close>: the transactions of all of these as one step relation on the database, every statement
    that commits on its own a step of its own.
    \<open>Budget_Writes\<close> adds budgets written by hand, with the trigger of
    \<open>migrations/20261016150000_budget_reactivation.up.sql\<close>.
  \<^item> \<open>Tenant_Views\<close>: the reads of a user as one function of the database, what a user's policies
    show, and the transactions of other teams.
  \<^item> \<open>Api_Replies\<close>, \<open>Api_Requests\<close>, \<open>Request_Effects\<close>: whole requests of the api: the chain of guards and
    handlers that a path selects, on the database and the caches of the process, with the rest of the
    system running between any two of them.
  \<^item> \<open>Claims_Pricing\<close>, \<open>Claims_Keys\<close>, \<open>Claims_Usage\<close>, \<open>Claims_Tenants\<close>, \<open>Claims_Requests\<close>, \<open>Claims_Admin\<close>,
    \<open>Claims_App\<close>: the properties, each with an application to concrete data.

  \<^bold>\<open>What the lemmas show.\<close>  Each component theory has the elimination rules of its operations (what
  holds when a handler answers), the preservation of its invariant (\<open>keys_ok\<close> for lineage, where a
  root may be missing from a row whose mint has not run its second statement, and from its children,
  \<open>ledger_ok\<close> for usage and spend, \<open>teams_ok\<close> for teams, \<open>budgets_ok\<close> for budgets; collection
  \<open>wf_intros\<close>) and the fields it leaves alone (\<open>frame_simps\<close>).  \<open>System\<close> joins them: every
  transaction keeps \<open>system_ok\<close> and only lets keys evolve forward.  With budgets written by hand an
  active key may be past a lowered budget until its next charge; what stays is \<open>owner_ok\<close>, where a
  key is out of service only while its budget is spent, and every revocation.  \<open>Tenant_Views\<close> shows
  that a transaction of other teams leaves a user's view, and so every answer, as it was.
  \<open>Request_Effects\<close> shows that each handler of a request makes one of a few writes (\<open>handler_write\<close>),
  that all guards of a request read the same signed context, and so who a write is by
  (\<open>accounted\<close>).

  \<^bold>\<open>Parameters.\<close>  SHA-256, EdDSA and JWT verification, the import of a JWK, the answers of userinfo, DNS
  and the proxies, \<open>JSON.parse\<close>, the \<open>Date\<close> constructor and URL parser on text, the order in
  which the server returns ties, collations, the text of a timestamp, what a SQL file does,
  the session library, and how the driver binds a value (\<open>driver\<close>) are arguments.
  Where a property needs a fact about one it is a named hypothesis: \<open>dates_exact\<close> (binding
  a date loses nothing), \<open>jwt_round_trip\<close> (the verifier accepts what the signer signed until the \<open>exp\<close>
  that was signed, by a clock in seconds, and throws from then on),
  \<open>blind_to_hashes\<close> (the server does not order tied rows by their hashes).  What the rest of the
  system does while a request runs is an argument too (\<open>sg_rest\<close>, \<open>sg_pass\<close>, \<open>sg_gap\<close> between the two
  statements of a mint), which \<open>rest_runs\<close> holds to the steps of the system.  So are the failures that
  leave something behind: \<open>sg_stop\<close> is the statement at which a projection of memberships fails, \<open>sg_gap\<close>
  is \<open>None\<close> when the second statement of a mint fails, \<open>aw_sign\<close> gives \<open>None\<close> when a token
  cannot be signed, \<open>pe_priced\<close> tells whether the load of the price table is answered.
  Numbers are IEEE doubles as rationals with \<open>fl\<close>; finite results beyond the double
  range are excluded by the bounds in the statements, and \<open>Number\<close> of a text maps them to
  \<open>Infinity\<close>.  Strings are lists of characters up to code 255.

  \<^bold>\<open>Loops and bounds.\<close>  The page loop of the poller is a \<open>partial_function\<close>: a machine that never stops
  writing keeps it running, and \<open>pass_returns\<close> shows that it ends otherwise.  All other
  loops are structural recursions.

  \<^bold>\<open>Not modelled.\<close>  Connection pools, the signal handlers, the role probe and other console output,
  the escaping done by the view library, better-auth (\<open>admin/src/lib/auth.ts\<close>), the contents of
  the catalog and of the SQL migrations, and the Go proxy beyond the paging of \<open>GET /usage\<close>.  A
  statement fails for the reasons the definitions name and at the points the arguments above name; a
  connection that breaks at any other statement, which then has no effect, only changes the reply to
  an error and is left out.  Transactions are atomic steps: the trigger reading a spend that another
  transaction is about to change is not distinguished.
\<close>

end
